(* ===== verification/Prelude.thy ===== *)
theory Prelude
  imports Main "HOL-Library.Word" "HOL-Library.Multiset"
begin

text \<open>
  What the components of the relayer share: machine integers with Rust's saturating and
  checked operations, the decimal rendering of \<open>u64\<close>, the error-and-state computations that
  model the bodies of \<open>async fn\<close>s returning \<open>Result\<close>, and the two ways in which the code
  awaits a set of futures (\<open>FuturesUnordered\<close>, \<open>JoinSet\<close>), with their scheduler.
\<close>

named_theorems io_simps \<open>one-step unfolding of the computations\<close>
named_theorems sat_simps \<open>saturating arithmetic read off as naturals\<close>

section \<open>Machine integers\<close>

type_synonym u8 = "8 word"
type_synonym u32 = "32 word"
type_synonym u64 = "64 word"
type_synonym u128 = "128 word"
type_synonym bytes = "8 word list"

definition u64_max :: u64 where
  "u64_max = 18446744073709551615"

definition sat_add :: "u64 \<Rightarrow> u64 \<Rightarrow> u64" where
  "sat_add a b = (if unat a + unat b < 2 ^ 64 then a + b else u64_max)"

definition sat_mul :: "u64 \<Rightarrow> u64 \<Rightarrow> u64" where
  "sat_mul a b = (if unat a * unat b < 2 ^ 64 then a * b else u64_max)"

definition sat_sub :: "u64 \<Rightarrow> u64 \<Rightarrow> u64" where
  "sat_sub a b = (if b \<le> a then a - b else 0)"

definition checked_div :: "u64 \<Rightarrow> u64 \<Rightarrow> u64 option" where
  "checked_div a b = (if b = 0 then None else Some (a div b))"

text \<open>The idiom \<open>a.checked_div(b).unwrap_or(0)\<close>, which occurs in four components.\<close>

definition div_or_zero :: "u64 \<Rightarrow> u64 \<Rightarrow> u64" where
  "div_or_zero a b = (case checked_div a b of None \<Rightarrow> 0 | Some q \<Rightarrow> q)"

text \<open>\<open>usize\<close> and \<open>u64\<close> agree on the 64-bit targets: a length converts unless it is too large.\<close>

definition u64_of_len :: "nat \<Rightarrow> u64 option" where
  "u64_of_len n = (if n < 2 ^ 64 then Some (of_nat n) else None)"

lemma unat_u64_max [simp, sat_simps]: "unat u64_max = 2 ^ 64 - 1"
  by (simp add: u64_max_def)

lemma unat_lt_2_64: "unat (a :: u64) < 2 ^ 64"
  using unsigned_less [of a, where ?'a = nat] by simp

lemma unat_sat_add [sat_simps]: "unat (sat_add a b) = min (unat a + unat b) (2 ^ 64 - 1)"
  by (auto simp: sat_add_def unat_word_ariths)

lemma unat_sat_mul [sat_simps]: "unat (sat_mul a b) = min (unat a * unat b) (2 ^ 64 - 1)"
  by (auto simp: sat_mul_def unat_word_ariths)

lemma unat_sat_sub [sat_simps]: "unat (sat_sub a b) = unat a - unat b"
  by (auto simp: sat_sub_def unat_sub word_le_nat_alt)

lemma unat_div_or_zero [sat_simps]: "unat (div_or_zero a b) = unat a div unat b"
  by (auto simp: div_or_zero_def checked_div_def unat_div)

lemma u64_of_len_Some [simp]: "n < 2 ^ 64 \<Longrightarrow> u64_of_len n = Some (of_nat n)"
  by (simp add: u64_of_len_def)

lemma unat_of_len: "u64_of_len n = Some k \<Longrightarrow> unat k = n"
  by (auto simp: u64_of_len_def unat_of_nat split: if_splits)

lemma sat_add_ge: "unat a \<le> unat (sat_add a b)"
  using unat_lt_2_64 [of a] by (simp add: unat_sat_add)

lemma sat_add_zero [simp]: "sat_add a 0 = a" "sat_add 0 a = a"
  using unat_lt_2_64 [of a] by (auto simp: sat_add_def)

lemma sat_add_commute: "sat_add a b = sat_add b a"
  by (simp add: word_unat_eq_iff unat_sat_add add.commute)

lemma sat_add_assoc: "sat_add (sat_add a b) c = sat_add a (sat_add b c)"
  by (simp add: word_unat_eq_iff unat_sat_add)

text \<open>Accumulating with \<open>saturating_add\<close>: only the multiset of the summands matters.\<close>

definition sat_sum :: "u64 list \<Rightarrow> u64" where
  "sat_sum xs = foldl sat_add 0 xs"

lemma unat_foldl_sat_add:
  "unat (foldl sat_add a xs) = min (unat a + sum_list (map unat xs)) (2 ^ 64 - 1)"
proof (induction xs arbitrary: a)
  case Nil
  show ?case using unat_lt_2_64 [of a] by simp
next
  case (Cons x xs)
  then show ?case by (simp add: unat_sat_add)
qed

lemma unat_sat_sum [sat_simps]: "unat (sat_sum xs) = min (sum_list (map unat xs)) (2 ^ 64 - 1)"
  by (simp add: sat_sum_def unat_foldl_sat_add)

lemma sat_sum_perm: "mset xs = mset ys \<Longrightarrow> sat_sum xs = sat_sum ys"
proof -
  assume "mset xs = mset ys"
  then have "sum_list (map unat xs) = sum_list (map unat ys)"
    by (metis mset_map sum_mset_sum_list)
  then show ?thesis by (simp add: word_unat_eq_iff unat_sat_sum)
qed

lemma foldl_sat_add_sum: "foldl sat_add a xs = sat_add a (sat_sum xs)"
  using unat_lt_2_64 [of a]
  by (simp add: word_unat_eq_iff unat_foldl_sat_add unat_sat_add unat_sat_sum)

section \<open>Decimal rendering\<close>

text \<open>\<open>u64::to_string\<close> and its inverse on digit strings.\<close>

fun show_nat :: "nat \<Rightarrow> string" where
  "show_nat n = (if n < 10 then [char_of (48 + n)]
                 else show_nat (n div 10) @ [char_of (48 + n mod 10)])"

declare show_nat.simps [simp del]

definition show_u64 :: "u64 \<Rightarrow> string" where
  "show_u64 n = show_nat (unat n)"

definition show_int :: "int \<Rightarrow> string" where
  "show_int i = (if i < 0 then CHR ''-'' # show_nat (nat (- i)) else show_nat (nat i))"

definition digit_val :: "char \<Rightarrow> nat option" where
  "digit_val c = (let k = of_char c :: nat in if 48 \<le> k \<and> k \<le> 57 then Some (k - 48) else None)"

fun read_digits :: "nat \<Rightarrow> string \<Rightarrow> nat option" where
  "read_digits acc [] = Some acc"
| "read_digits acc (c # cs) =
     (case digit_val c of None \<Rightarrow> None | Some d \<Rightarrow> read_digits (acc * 10 + d) cs)"

lemma digit_val_char [simp]: "d < 10 \<Longrightarrow> digit_val (char_of (48 + d :: nat)) = Some d"
  by (simp add: digit_val_def Let_def of_char_of)

lemma read_digits_append:
  "read_digits acc (xs @ ys) =
     (case read_digits acc xs of None \<Rightarrow> None | Some a \<Rightarrow> read_digits a ys)"
  by (induction xs arbitrary: acc) (auto split: option.splits)

lemma read_digits_show_nat: "read_digits 0 (show_nat n) = Some n"
proof (induction n rule: show_nat.induct)
  case (1 n)
  show ?case
  proof (cases "n < 10")
    case True
    then show ?thesis by (simp add: show_nat.simps [of n])
  next
    case False
    with "1.IH" have "read_digits 0 (show_nat (n div 10)) = Some (n div 10)" by simp
    with False show ?thesis
      by (simp add: show_nat.simps [of n] read_digits_append)
  qed
qed

section \<open>Computations with state and errors\<close>

text \<open>
  The body of a Rust function that does I/O and returns \<open>Result\<close> is a function of the state
  it runs in; it returns \<open>Inl\<close> of a fault or \<open>Inr\<close> of a value, with the state it leaves.
  \<open>bindE\<close> is the sequencing of \<open>x = m.await?; \<dots>\<close>: a fault stops the computation and keeps
  what has happened so far.
\<close>

type_synonym ('f, 's, 'a) io = "'s \<Rightarrow> ('f + 'a) \<times> 's"

definition retE :: "'a \<Rightarrow> ('f, 's, 'a) io" where
  "retE x s = (Inr x, s)"

definition failE :: "'f \<Rightarrow> ('f, 's, 'a) io" where
  "failE e s = (Inl e, s)"

definition bindE :: "('f, 's, 'a) io \<Rightarrow> ('a \<Rightarrow> ('f, 's, 'b) io) \<Rightarrow> ('f, 's, 'b) io" where
  "bindE m f s = (case m s of (Inl e, s') \<Rightarrow> (Inl e, s') | (Inr x, s') \<Rightarrow> f x s')"

text \<open>\<open>opt.ok_or(e)?\<close> and \<open>res?\<close> for a value that is already there.\<close>

definition ok_or :: "'f \<Rightarrow> 'a option \<Rightarrow> ('f, 's, 'a) io" where
  "ok_or e r = (case r of None \<Rightarrow> failE e | Some x \<Rightarrow> retE x)"

definition liftE :: "'f + 'a \<Rightarrow> ('f, 's, 'a) io" where
  "liftE r = (case r of Inl e \<Rightarrow> failE e | Inr x \<Rightarrow> retE x)"

definition map_faultE :: "('f \<Rightarrow> 'g) \<Rightarrow> ('f, 's, 'a) io \<Rightarrow> ('g, 's, 'a) io" where
  "map_faultE h m s = (case m s of (Inl e, s') \<Rightarrow> (Inl (h e), s') | (Inr x, s') \<Rightarrow> (Inr x, s'))"

text \<open>A \<open>for\<close> loop whose body ends in \<open>?\<close>, collecting what the bodies return.\<close>

fun mapE :: "('x \<Rightarrow> ('f, 's, 'a) io) \<Rightarrow> 'x list \<Rightarrow> ('f, 's, 'a list) io" where
  "mapE f [] = retE []"
| "mapE f (x # xs) = bindE (f x) (\<lambda>y. bindE (mapE f xs) (\<lambda>ys. retE (y # ys)))"

text \<open>A loop that folds an accumulator, with \<open>?\<close> in its body.\<close>

fun foldE :: "('x \<Rightarrow> 'a \<Rightarrow> ('f, 's, 'a) io) \<Rightarrow> 'x list \<Rightarrow> 'a \<Rightarrow> ('f, 's, 'a) io" where
  "foldE f [] a = retE a"
| "foldE f (x # xs) a = bindE (f x a) (foldE f xs)"

text \<open>A loop that runs every body and keeps every result, errors included.\<close>

fun run_list :: "('x \<Rightarrow> ('f, 's, 'a) io) \<Rightarrow> 'x list \<Rightarrow> 's \<Rightarrow> ('f + 'a) list \<times> 's" where
  "run_list f [] s = ([], s)"
| "run_list f (x # xs) s =
     (case f x s of (r, s1) \<Rightarrow> case run_list f xs s1 of (rs, s2) \<Rightarrow> (r # rs, s2))"

text \<open>The same loop without effects: the first error wins.\<close>

fun traverse :: "('x \<Rightarrow> 'f + 'a) \<Rightarrow> 'x list \<Rightarrow> 'f + 'a list" where
  "traverse f [] = Inr []"
| "traverse f (x # xs) =
     (case f x of Inl e \<Rightarrow> Inl e
      | Inr y \<Rightarrow> (case traverse f xs of Inl e \<Rightarrow> Inl e | Inr ys \<Rightarrow> Inr (y # ys)))"

lemma traverse_ok_iff: "traverse f xs = Inr ys \<longleftrightarrow> list_all2 (\<lambda>x y. f x = Inr y) xs ys"
proof (induction xs arbitrary: ys)
  case Nil
  then show ?case by auto
next
  case (Cons x xs)
  show ?case by (cases ys) (auto simp flip: Cons.IH split: sum.splits)
qed

lemma traverse_partial:
  assumes "\<And>x. f x = (if P x then Inr (g x) else Inl e)"
  shows "traverse f xs = (if list_all P xs then Inr (map g xs) else Inl e)"
  by (induction xs) (simp_all add: assms)

lemma traverse_err_iff:
  "traverse f xs = Inl e \<longleftrightarrow>
     (\<exists>us x vs ys. xs = us @ x # vs \<and> traverse f us = Inr ys \<and> f x = Inl e)"
proof (induction xs)
  case Nil
  then show ?case by simp
next
  case (Cons x xs)
  show ?case
  proof (cases "f x")
    case (Inl e')
    have "(\<exists>us z vs ys. x # xs = us @ z # vs \<and> traverse f us = Inr ys \<and> f z = Inl e) \<longleftrightarrow> e = e'"
    proof
      assume "\<exists>us z vs ys. x # xs = us @ z # vs \<and> traverse f us = Inr ys \<and> f z = Inl e"
      then obtain us z vs ys where "x # xs = us @ z # vs" "traverse f us = Inr ys" "f z = Inl e"
        by blast
      with Inl show "e = e'" by (cases us) auto
    next
      assume "e = e'"
      with Inl show "\<exists>us z vs ys. x # xs = us @ z # vs \<and> traverse f us = Inr ys \<and> f z = Inl e"
        by (intro exI [of _ "[]"]) auto
    qed
    with Inl show ?thesis by auto
  next
    case (Inr y)
    have "(\<exists>us z vs ys. x # xs = us @ z # vs \<and> traverse f us = Inr ys \<and> f z = Inl e) \<longleftrightarrow>
          (\<exists>us z vs ys. xs = us @ z # vs \<and> traverse f us = Inr ys \<and> f z = Inl e)"
      (is "?L \<longleftrightarrow> ?R")
    proof
      assume ?L
      then obtain us z vs ys where *: "x # xs = us @ z # vs" "traverse f us = Inr ys" "f z = Inl e"
        by blast
      with Inr obtain us' where "us = x # us'" by (cases us) auto
      with * Inr show ?R by (auto split: sum.splits)
    next
      assume ?R
      then obtain us z vs ys where "xs = us @ z # vs" "traverse f us = Inr ys" "f z = Inl e"
        by blast
      with Inr show ?L by (intro exI [of _ "x # us"]) auto
    qed
    with Inr Cons.IH show ?thesis by (auto split: sum.splits)
  qed
qed

lemma retE_apply [io_simps, simp]: "retE x s = (Inr x, s)"
  by (simp add: retE_def)

lemma failE_apply [io_simps, simp]: "failE e s = (Inl e, s)"
  by (simp add: failE_def)

lemma bindE_Inl [io_simps]: "m s = (Inl e, s') \<Longrightarrow> bindE m f s = (Inl e, s')"
  by (simp add: bindE_def)

lemma bindE_Inr [io_simps]: "m s = (Inr x, s') \<Longrightarrow> bindE m f s = f x s'"
  by (simp add: bindE_def)

lemma bindE_ret [simp]: "bindE (retE x) f = f x"
  by (simp add: bindE_def fun_eq_iff)

lemma bindE_fail [simp]: "bindE (failE e) f = failE e"
  by (simp add: bindE_def fun_eq_iff)

lemma bindE_assoc: "bindE (bindE m f) g = bindE m (\<lambda>x. bindE (f x) g)"
  by (auto simp: bindE_def fun_eq_iff split: prod.splits sum.splits)

lemma bindE_okE:
  assumes "bindE m f s = (Inr y, s')"
  obtains x s1 where "m s = (Inr x, s1)" and "f x s1 = (Inr y, s')"
  using assms by (auto simp: bindE_def split: prod.splits sum.splits)

lemma bindE_errE:
  assumes "bindE m f s = (Inl e, s')"
  obtains (first) "m s = (Inl e, s')" | (later) x s1 where "m s = (Inr x, s1)" and "f x s1 = (Inl e, s')"
  using assms by (auto simp: bindE_def split: prod.splits sum.splits)

lemma foldE_append: "foldE f (xs @ ys) = (\<lambda>a. bindE (foldE f xs a) (foldE f ys))"
proof (induction xs)
  case Nil
  show ?case by (rule ext) (simp add: bindE_def)
next
  case (Cons x xs)
  show ?case by (rule ext) (simp add: Cons bindE_assoc)
qed

lemma ok_or_simps [io_simps, simp]: "ok_or e None = failE e" "ok_or e (Some x) = retE x"
  by (simp_all add: ok_or_def)

lemma liftE_simps [io_simps, simp]: "liftE (Inl e) = failE e" "liftE (Inr x) = retE x"
  by (simp_all add: liftE_def)

lemma map_faultE_ok_iff [simp]: "map_faultE h m s = (Inr x, s') \<longleftrightarrow> m s = (Inr x, s')"
  by (auto simp: map_faultE_def split: prod.splits sum.splits)

lemma map_faultE_state [simp]: "snd (map_faultE h m s) = snd (m s)"
  by (auto simp: map_faultE_def split: prod.splits sum.splits)

lemma mapE_length: "mapE f xs s = (Inr ys, s') \<Longrightarrow> length ys = length xs"
  by (induction xs arbitrary: s ys) (auto elim!: bindE_okE)

section \<open>Awaiting sets of futures\<close>

text \<open>
  \<open>FuturesUnordered\<close> and \<open>JoinSet\<close> run their members concurrently and yield the results in
  the order in which they complete. The model runs each member as one step; which one
  completes next is decided by the runtime, a parameter \<open>p\<close> that reads the state and picks an
  index (taken modulo the number of members left, so that every choice is possible and none
  is out of range).

  \<open>unordered\<close> awaits all members. \<open>try_unordered\<close> is the loop with \<open>?\<close>, and also
  \<open>try_collect\<close>: at the first error the set is dropped; members in flight may have taken
  effect by then, so the runtime also picks how many of them run with their results discarded.
\<close>

definition without :: "nat \<Rightarrow> 'x list \<Rightarrow> 'x list" where
  "without i xs = take i xs @ drop (Suc i) xs"

lemma length_without [simp]: "i < length xs \<Longrightarrow> length (without i xs) = length xs - 1"
  by (auto simp: without_def)

lemma mset_without: "i < length xs \<Longrightarrow> add_mset (xs ! i) (mset (without i xs)) = mset xs"
proof -
  assume "i < length xs"
  then have "xs = take i xs @ xs ! i # drop (Suc i) xs" by (rule id_take_nth_drop)
  then have "mset xs = mset (take i xs @ xs ! i # drop (Suc i) xs)" by simp
  then show ?thesis by (simp add: without_def)
qed

lemma set_without: "set (without i xs) \<subseteq> set xs"
  by (auto simp: without_def dest: in_set_takeD in_set_dropD)

function unordered ::
  "('s \<Rightarrow> nat) \<Rightarrow> ('x \<Rightarrow> ('f, 's, 'a) io) \<Rightarrow> 'x list \<Rightarrow> 's \<Rightarrow> ('f + 'a) list \<times> 's" where
  "unordered p f xs s =
     (if xs = [] then ([], s)
      else let i = p s mod length xs
           in case f (xs ! i) s of (r, s1) \<Rightarrow>
                case unordered p f (without i xs) s1 of (rs, s2) \<Rightarrow> (r # rs, s2))"
  by pat_completeness auto
termination
  by (relation "measure (\<lambda>(p, f, xs, s). length xs)") (auto simp: mod_less_divisor)

declare unordered.simps [simp del]

function try_unordered ::
  "('s \<Rightarrow> nat) \<Rightarrow> ('x \<Rightarrow> ('f, 's, 'a) io) \<Rightarrow> 'x list \<Rightarrow> ('f, 's, 'a list) io" where
  "try_unordered p f xs s =
     (if xs = [] then (Inr [], s)
      else let i = p s mod length xs; rest = without i xs
           in case f (xs ! i) s of
                (Inl e, s1) \<Rightarrow>
                  (Inl e, snd (unordered p f (take (p s1 mod Suc (length rest)) rest) s1))
              | (Inr a, s1) \<Rightarrow>
                  (case try_unordered p f rest s1 of
                     (Inl e, s2) \<Rightarrow> (Inl e, s2)
                   | (Inr as, s2) \<Rightarrow> (Inr (a # as), s2)))"
  by pat_completeness auto
termination
  by (relation "measure (\<lambda>(p, f, xs, s). length xs)") (auto simp: mod_less_divisor)

declare try_unordered.simps [simp del]

lemma unordered_Nil [simp]: "unordered p f [] s = ([], s)"
  by (simp add: unordered.simps)

lemma try_unordered_Nil [simp]: "try_unordered p f [] s = (Inr [], s)"
  by (simp add: try_unordered.simps)

lemma pick_less: "xs \<noteq> [] \<Longrightarrow> p s mod length xs < length xs"
  by simp

text \<open>Whatever the runtime picks, the result is that of a sequential run in some order.\<close>

lemma run_list_results:
  assumes "\<And>x s. fst (f x s) = g x"
  shows "fst (run_list f xs s) = map g xs"
proof (induction xs arbitrary: s)
  case (Cons x xs)
  then show ?case by (simp add: case_prod_beta assms)
qed simp

lemma unordered_order:
  "\<exists>ys. mset ys = mset xs \<and> unordered p f xs s = run_list f ys s"
proof (induction p f xs s rule: unordered.induct)
  case (1 p f xs s)
  show ?case
  proof (cases "xs = []")
    case True
    then show ?thesis by (intro exI [of _ "[]"]) simp
  next
    case False
    define i where "i = p s mod length xs"
    obtain r s1 where r: "f (xs ! i) s = (r, s1)" by fastforce
    from False have i: "i < length xs" by (simp add: i_def)
    from "1.IH" [OF False i_def r [symmetric]] obtain ys where
      ys: "mset ys = mset (without i xs)"
      and run: "unordered p f (without i xs) s1 = run_list f ys s1" by blast
    have "mset (xs ! i # ys) = mset xs" using ys i by (simp add: mset_without)
    moreover have "unordered p f xs s = run_list f (xs ! i # ys) s"
      using False r run by (simp add: unordered.simps [of p f xs s] i_def Let_def)
    ultimately show ?thesis by blast
  qed
qed

lemma try_unordered_order:
  "try_unordered p f xs s = (Inr as, s') \<Longrightarrow>
   \<exists>ys. mset ys = mset xs \<and> mapE f ys s = (Inr as, s')"
proof (induction p f xs s arbitrary: as rule: try_unordered.induct)
  case (1 p f xs s)
  show ?case
  proof (cases "xs = []")
    case True
    with "1.prems" show ?thesis by (intro exI [of _ "[]"]) simp
  next
    case False
    define i where "i = p s mod length xs"
    from False have i: "i < length xs" by (simp add: i_def)
    from "1.prems" False obtain a s1 bs where
      a: "f (xs ! i) s = (Inr a, s1)"
      and bs: "try_unordered p f (without i xs) s1 = (Inr bs, s')" and as: "as = a # bs"
      by (auto simp: try_unordered.simps [of p f xs s] Let_def i_def split: prod.splits sum.splits)
    from "1.IH" [OF False i_def refl a [symmetric] refl bs] obtain ys where
      ys: "mset ys = mset (without i xs)" and run: "mapE f ys s1 = (Inr bs, s')" by blast
    have "mset (xs ! i # ys) = mset xs" using ys i by (simp add: mset_without)
    moreover have "mapE f (xs ! i # ys) s = (Inr as, s')"
      using a run as by (simp add: bindE_def)
    ultimately show ?thesis by blast
  qed
qed

lemma try_unordered_error:
  "try_unordered p f xs s = (Inl e, s') \<Longrightarrow> \<exists>x \<in> set xs. \<exists>s0 s1. f x s0 = (Inl e, s1)"
proof (induction p f xs s rule: try_unordered.induct)
  case (1 p f xs s)
  show ?case
  proof (cases "xs = []")
    case True
    with "1.prems" show ?thesis by simp
  next
    case False
    define i where "i = p s mod length xs"
    from False have i: "xs ! i \<in> set xs" by (simp add: i_def)
    show ?thesis
    proof (cases "f (xs ! i) s")
      case (Pair r s1)
      show ?thesis
      proof (cases r)
        case (Inl e')
        with "1.prems" False Pair have "e' = e"
          by (auto simp: try_unordered.simps [of p f xs s] Let_def i_def)
        with Pair Inl i show ?thesis by blast
      next
        case (Inr a)
        with "1.prems" False Pair have "try_unordered p f (without i xs) s1 = (Inl e, s')"
          by (auto simp: try_unordered.simps [of p f xs s] Let_def i_def split: prod.splits sum.splits)
        from "1.IH" [OF False i_def refl _ _ this] Pair Inr
        have "\<exists>x \<in> set (without i xs). \<exists>s0 s1. f x s0 = (Inl e, s1)" by simp
        then show ?thesis using set_without [of i xs] by blast
      qed
    qed
  qed
qed

text \<open>Members whose result does not depend on the state: the result up to the order.\<close>

lemma mapE_results:
  assumes pure: "\<And>x s. fst (f x s) = g x" and run: "mapE f xs s = (Inr as, s')"
  shows "list_all2 (\<lambda>x a. g x = Inr a) xs as"
  using run
proof (induction xs arbitrary: s as)
  case (Cons x xs)
  from Cons.prems obtain a s1 bs where a: "f x s = (Inr a, s1)" and "mapE f xs s1 = (Inr bs, s')"
    and "as = a # bs"
    by (auto elim!: bindE_okE)
  moreover from pure [of x s] a have "g x = Inr a" by simp
  ultimately show ?case using Cons.IH by simp
qed simp

lemma try_unordered_results:
  assumes pure: "\<And>x s. fst (f x s) = g x"
  shows "case fst (try_unordered p f xs s) of
     Inl e \<Rightarrow> \<exists>x \<in> set xs. g x = Inl e
   | Inr as \<Rightarrow> \<exists>ys. mset ys = mset xs \<and> list_all2 (\<lambda>x a. g x = Inr a) ys as"
proof (cases "try_unordered p f xs s")
  case (Pair r s')
  show ?thesis
  proof (cases r)
    case (Inl e)
    from try_unordered_error [OF Pair [unfolded Inl]]
    obtain x s0 s1 where "x \<in> set xs" "f x s0 = (Inl e, s1)" by blast
    with pure [of x s0] Pair Inl show ?thesis by auto
  next
    case (Inr as)
    from try_unordered_order [OF Pair [unfolded Inr]] obtain ys where
      ys: "mset ys = mset xs" "mapE f ys s = (Inr as, s')" by blast
    have "list_all2 (\<lambda>x a. g x = Inr a) ys as"
      by (rule mapE_results [where f = f, OF _ ys(2)]) (rule pure)
    with ys(1) Pair Inr show ?thesis by auto
  qed
qed

section \<open>Computations that move the state along an order\<close>

text \<open>
  Much of what is said about a computation is that every state it leaves, normally or by an
  error, is related to the one it started in by a reflexive and transitive relation. The rules
  of this locale follow the structure of a computation; each such relation interprets it.
\<close>

definition moves :: "('s \<Rightarrow> 's \<Rightarrow> bool) \<Rightarrow> ('f, 's, 'a) io \<Rightarrow> bool" where
  "moves R m \<longleftrightarrow> (\<forall>s. R s (snd (m s)))"

lemma movesD: "moves R m \<Longrightarrow> m s = (r, s') \<Longrightarrow> R s s'"
  by (metis moves_def snd_conv)

lemma movesI:
  assumes "\<And>s r s'. m s = (r, s') \<Longrightarrow> R s s'"
  shows "moves R m"
  unfolding moves_def using assms [OF prod.collapse [symmetric]] by blast

lemma moves_mono: "moves R m \<Longrightarrow> (\<And>s s'. R s s' \<Longrightarrow> Q s s') \<Longrightarrow> moves Q m"
  unfolding moves_def by blast

lemma moves_map_fault: "moves R m \<Longrightarrow> moves R (map_faultE h m)"
  by (simp add: moves_def)

lemma moves_if: "(b \<Longrightarrow> moves R m) \<Longrightarrow> (\<not> b \<Longrightarrow> moves R n) \<Longrightarrow> moves R (if b then m else n)"
  by simp

lemma moves_option:
  "moves R m \<Longrightarrow> (\<And>x. moves R (f x)) \<Longrightarrow> moves R (case r of None \<Rightarrow> m | Some x \<Rightarrow> f x)"
  by (cases r) simp_all

lemma moves_sum:
  "(\<And>x. moves R (f x)) \<Longrightarrow> (\<And>x. moves R (g x)) \<Longrightarrow> moves R (case r of Inl x \<Rightarrow> f x | Inr x \<Rightarrow> g x)"
  by (cases r) simp_all

lemma moves_prod: "(\<And>x y. r = (x, y) \<Longrightarrow> moves R (f x y)) \<Longrightarrow> moves R (case r of (x, y) \<Rightarrow> f x y)"
  by (cases r) simp

lemmas moves_cases = moves_if moves_option moves_sum moves_prod

locale state_order =
  fixes R :: "'s \<Rightarrow> 's \<Rightarrow> bool"
  assumes R_refl [simp]: "R s s"
    and R_trans: "R s t \<Longrightarrow> R t u \<Longrightarrow> R s u"
begin

lemma ret: "moves R (retE x)"
  by (simp add: moves_def)

lemma fail: "moves R (failE e)"
  by (simp add: moves_def)

lemma okor: "moves R (ok_or e r)"
  by (cases r) (simp_all add: moves_def)

lemma lift: "moves R (liftE r)"
  by (cases r) (simp_all add: moves_def)

lemma bind_ok:
  assumes m: "moves R m" and f: "\<And>s x s'. m s = (Inr x, s') \<Longrightarrow> moves R (f x)"
  shows "moves R (bindE m f)"
proof (rule movesI)
  fix s r s'
  assume run: "bindE m f s = (r, s')"
  show "R s s'"
  proof (cases "m s")
    case (Pair q s1)
    with m have s1: "R s s1" by (rule movesD)
    show ?thesis
    proof (cases q)
      case (Inl e)
      with run Pair s1 show ?thesis by (auto simp: bindE_def)
    next
      case (Inr x)
      with run Pair have "f x s1 = (r, s')" by (simp add: bindE_def)
      with f Pair Inr have "R s1 s'" by (blast dest: movesD)
      with s1 show ?thesis by (rule R_trans)
    qed
  qed
qed

lemma bind: "moves R m \<Longrightarrow> (\<And>x. moves R (f x)) \<Longrightarrow> moves R (bindE m f)"
  by (rule bind_ok)

lemma map_list: "(\<And>x. moves R (f x)) \<Longrightarrow> moves R (mapE f xs)"
  by (induction xs) (simp_all add: ret bind)

lemma fold_list: "(\<And>x a. moves R (f x a)) \<Longrightarrow> moves R (foldE f xs a)"
  by (induction xs arbitrary: a) (simp_all add: ret bind)

lemma run: "(\<And>x. x \<in> set xs \<Longrightarrow> moves R (f x)) \<Longrightarrow> R s (snd (run_list f xs s))"
proof (induction xs arbitrary: s)
  case (Cons x xs)
  then have "R s (snd (f x s))" and "R (snd (f x s)) (snd (run_list f xs (snd (f x s))))"
    by (auto simp: moves_def)
  then show ?case by (auto simp: case_prod_beta intro: R_trans)
qed simp

lemma all_of:
  assumes "\<And>x. x \<in> set xs \<Longrightarrow> moves R (f x)"
  shows "R s (snd (unordered p f xs s))"
proof -
  obtain ys where ys: "mset ys = mset xs" and eq: "unordered p f xs s = run_list f ys s"
    using unordered_order [of xs p f s] by blast
  from ys have "set ys = set xs" by (metis set_mset_mset)
  then have "R s (snd (run_list f ys s))" using assms by (intro run) simp
  then show ?thesis by (simp add: eq)
qed

lemma try_all:
  assumes f: "\<And>x. x \<in> set xs \<Longrightarrow> moves R (f x)"
  shows "moves R (try_unordered p f xs)"
proof -
  have "R s (snd (try_unordered p f xs s))" for s
    using f
  proof (induction p f xs s rule: try_unordered.induct)
    case (1 p f xs s)
    show ?case
    proof (cases "xs = []")
      case True
      then show ?thesis by simp
    next
      case False
      define i where "i = p s mod length xs"
      from False have "xs ! i \<in> set xs" by (simp add: i_def)
      obtain r s1 where r: "f (xs ! i) s = (r, s1)" by fastforce
      with "1.prems" \<open>xs ! i \<in> set xs\<close> have s1: "R s s1" by (blast dest: movesD)
      have rest: "x \<in> set (without i xs) \<Longrightarrow> moves R (f x)" for x
        using "1.prems" set_without [of i xs] by blast
      show ?thesis
      proof (cases r)
        case (Inl e)
        have "R s1 (snd (unordered p f (take n (without i xs)) s1))" for n
          by (rule all_of) (blast intro: rest dest: in_set_takeD)
        then show ?thesis using r s1 False Inl
          by (auto simp: try_unordered.simps [of p f xs s] Let_def i_def intro: R_trans)
      next
        case (Inr a)
        have "R s1 (snd (try_unordered p f (without i xs) s1))"
          using "1.IH" [OF False i_def refl r [symmetric] Inr] rest .
        then show ?thesis using r s1 Inr False
          by (auto simp: try_unordered.simps [of p f xs s] Let_def i_def intro: R_trans
              split: prod.splits sum.splits)
      qed
    qed
  qed
  then show ?thesis by (simp add: moves_def)
qed

lemmas rules = ret fail okor lift bind map_list fold_list try_all moves_map_fault moves_cases

end

end
