(* ===== verification/Chain.thy ===== *)
theory Chain
  imports Prelude
begin

text \<open>
  The vocabulary of the Solana side: keys, signatures, instructions, transactions and their
  errors, the errors the relayer's functions return, and the outside world the relayer talks
  to. Code that is not in the repository is a parameter here: an RPC client is a record of
  functions on an opaque environment state (\<open>node\<close>), the Solana SDK's constructors and parsers
  are a record of functions (\<open>sdk\<close>), and the async runtime's choices are a record (\<open>runtime\<close>).

  Every RPC request goes through \<open>call\<close>, which logs it on the \<open>wire\<close> of the state before the
  node answers. The predicate \<open>issues P m\<close> says that a computation appends only requests
  satisfying \<open>P\<close>; its rules, collected in \<open>issues_rules\<close>, follow the structure of a
  computation.
\<close>

named_theorems issues_rules \<open>which requests a computation may issue\<close>

section \<open>Data\<close>

type_synonym pubkey = "256 word"
type_synonym signature = "512 word"
type_synonym blockhash = "256 word"
type_synonym timestamp = int

datatype commitment = Processed | Confirmed | Finalized

record account_meta =
  am_pubkey :: pubkey
  am_signer :: bool
  am_writable :: bool

record instruction =
  ix_program :: pubkey
  ix_metas :: "account_meta list"
  ix_data :: bytes

text \<open>A transaction signed by the key that pays for it (the relayer's only keypair).\<close>

record transaction =
  tx_ixs :: "instruction list"
  tx_payer :: pubkey
  tx_hash :: blockhash

definition touched :: "instruction list \<Rightarrow> pubkey list" where
  "touched ixs = concat (map (\<lambda>ix. map am_pubkey (ix_metas ix)) ixs)"

datatype instruction_error = Custom u32 | OtherInstructionError string

datatype transaction_error =
    InstructionError u8 instruction_error
  | OtherTransactionError string

record sim_result =
  sim_err :: "transaction_error option"
  sim_units :: "u64 option"

datatype client_error =
    Io string | Reqwest string | SerdeJson string | RpcError string
  | SigningError string | TransactionErrorKind transaction_error | CustomKind string
  | Middleware string

text \<open>
  \<open>ComputeBudgetError\<close> and the dynamic \<open>eyre::Report\<close>. \<open>Msg\<close> is a report made from a
  message or from an error type the code never downcasts to; \<open>Ctx\<close> is a report wrapped by
  \<open>context\<close> / \<open>wrap_err\<close>.
\<close>

datatype cb_error =
    SimulationError sim_result
  | TransactionError transaction_error signature
  | Generic eyre
and eyre =
    ClientErr client_error
  | ComputeBudget cb_error
  | InsufficientGasBalance int int
  | Msg string
  | Ctx string eyre

text \<open>
  How a function body can stop early: with an error value, by a panic, or (only in the model)
  because the fuel of a loop ran out.
\<close>

datatype fault = Err eyre | Panic string | Diverge

text \<open>\<open>downcast_ref\<close> looks through the contexts of a report.\<close>

fun downcast_cb :: "eyre \<Rightarrow> cb_error option" where
  "downcast_cb (ComputeBudget e) = Some e"
| "downcast_cb (Ctx m e) = downcast_cb e"
| "downcast_cb _ = None"

fun downcast_gas :: "eyre \<Rightarrow> (int \<times> int) option" where
  "downcast_gas (InsufficientGasBalance c a) = Some (c, a)"
| "downcast_gas (Ctx m e) = downcast_gas e"
| "downcast_gas _ = None"

fun add_ctx :: "string \<Rightarrow> fault \<Rightarrow> fault" where
  "add_ctx m (Err e) = Err (Ctx m e)"
| "add_ctx m f = f"

definition msg_fault :: "string \<Rightarrow> fault" where
  "msg_fault m = Err (Msg m)"

text \<open>What an RPC node answers about signatures, transactions and accounts.\<close>

record sig_status =
  st_signature :: string
  st_slot :: u64

record compiled_ix =
  ci_program :: u8
  ci_accounts :: "u8 list"
  ci_data :: bytes

record tx_message =
  msg_keys :: "pubkey list"
  msg_ixs :: "compiled_ix list"

record loaded_addresses =
  la_writable :: "string list"
  la_readonly :: "string list"

record inner_ixs =
  inner_index :: u8
  inner_data :: "string list"

datatype 'a opt_ser = SerSome 'a | SerNone | SerSkip

record tx_meta =
  meta_err :: "transaction_error option"
  meta_fee :: u64
  meta_logs :: "string list opt_ser"
  meta_inner :: "inner_ixs list opt_ser"
  meta_loaded :: "loaded_addresses opt_ser"
  meta_units :: "u64 opt_ser"

record encoded_tx =
  enc_slot :: u64
  enc_message :: "tx_message option"
  enc_meta :: "tx_meta option"
  enc_block_time :: "int option"

record account =
  acc_owner :: pubkey
  acc_data :: bytes

section \<open>The outside world\<close>

datatype node_tag = MainNode | SimNode

record 'w node =
  node_tag :: node_tag
  n_signatures :: "pubkey \<Rightarrow> signature option \<Rightarrow> signature option \<Rightarrow> nat \<Rightarrow> commitment \<Rightarrow> 'w
                   \<Rightarrow> (client_error + sig_status list) \<times> 'w"
  n_transaction :: "signature \<Rightarrow> commitment \<Rightarrow> 'w \<Rightarrow> (client_error + encoded_tx) \<times> 'w"
  n_blockhash :: "'w \<Rightarrow> (client_error + blockhash) \<times> 'w"
  n_simulate :: "transaction \<Rightarrow> 'w \<Rightarrow> (client_error + sim_result) \<times> 'w"
  n_send :: "transaction \<Rightarrow> 'w \<Rightarrow> (client_error + signature) \<times> 'w"
  n_fees :: "pubkey list \<Rightarrow> 'w \<Rightarrow> (client_error + u64 list) \<times> 'w"
  n_account :: "pubkey \<Rightarrow> 'w \<Rightarrow> (client_error + account) \<times> 'w"
  n_account_data :: "pubkey \<Rightarrow> 'w \<Rightarrow> (client_error + bytes) \<times> 'w"
  n_program_accounts :: "pubkey \<Rightarrow> 'w \<Rightarrow> (client_error + unit) \<times> 'w"

record sdk =
  cu_limit_ix :: "u32 \<Rightarrow> instruction"
  cu_price_ix :: "u64 \<Rightarrow> instruction"
  max_cu_limit :: u32
  tx_error_of :: "client_error \<Rightarrow> transaction_error option"
  first_signature :: "transaction \<Rightarrow> signature"
  parse_signature :: "string \<Rightarrow> signature option"
  parse_pubkey :: "string \<Rightarrow> pubkey option"
  datetime_of :: "int \<Rightarrow> timestamp option"

text \<open>
  The runtime: which future completes next, and \<open>backoff::future::retry\<close> as
  \<open>fetch_transaction\<close> uses it (every error transient).
\<close>

record 'w runtime =
  rt_pick :: "'w \<Rightarrow> nat"
  rt_retry :: "('w \<Rightarrow> (client_error + encoded_tx) \<times> 'w) \<Rightarrow> 'w \<Rightarrow> (client_error + encoded_tx) \<times> 'w"

text \<open>\<open>ReqExternal\<close> stands for third-party code that is handed a client to read with.\<close>

datatype request =
    ReqSignatures node_tag pubkey "signature option" "signature option" nat
  | ReqTransaction node_tag signature
  | ReqBlockhash node_tag
  | ReqSimulate node_tag transaction
  | ReqSend node_tag transaction
  | ReqFees node_tag "pubkey list"
  | ReqAccount node_tag pubkey
  | ReqProgramAccounts node_tag pubkey
  | ReqExternal node_tag

record 'w world =
  env :: 'w
  wire :: "request list"

definition call ::
  "request \<Rightarrow> ('w \<Rightarrow> ('e + 'a) \<times> 'w) \<Rightarrow> ('e, ('w, 'z) world_scheme, 'a) io" where
  "call q f s = (case f (env s) of (r, e) \<Rightarrow> (r, s\<lparr>env := e, wire := wire s @ [q]\<rparr>))"

definition client_fault :: "client_error \<Rightarrow> fault" where
  "client_fault e = Err (ClientErr e)"

text \<open>An RPC request whose error is turned into a report by \<open>?\<close>.\<close>

definition rpc ::
  "request \<Rightarrow> ('w \<Rightarrow> (client_error + 'a) \<times> 'w) \<Rightarrow> (fault, ('w, 'z) world_scheme, 'a) io" where
  "rpc q f = map_faultE client_fault (call q f)"

definition pick :: "'w runtime \<Rightarrow> ('w, 'z) world_scheme \<Rightarrow> nat" where
  "pick rt s = rt_pick rt (env s)"

text \<open>The transactions sent to a node, in order.\<close>

fun send_of :: "node_tag \<Rightarrow> request \<Rightarrow> transaction list" where
  "send_of k (ReqSend k' t) = (if k = k' then [t] else [])"
| "send_of k _ = []"

definition sent :: "node_tag \<Rightarrow> ('w, 'z) world_scheme \<Rightarrow> transaction list" where
  "sent k s = concat (map (send_of k) (wire s))"

fun is_send :: "request \<Rightarrow> bool" where
  "is_send (ReqSend k t) = True"
| "is_send _ = False"

fun node_of :: "request \<Rightarrow> node_tag" where
  "node_of (ReqSignatures k _ _ _ _) = k"
| "node_of (ReqTransaction k _) = k"
| "node_of (ReqBlockhash k) = k"
| "node_of (ReqSimulate k _) = k"
| "node_of (ReqSend k _) = k"
| "node_of (ReqFees k _) = k"
| "node_of (ReqAccount k _) = k"
| "node_of (ReqProgramAccounts k _) = k"
| "node_of (ReqExternal k) = k"

section \<open>Requests issued\<close>

definition grows :: "(request \<Rightarrow> bool) \<Rightarrow> ('w, 'z) world_scheme \<Rightarrow> ('w, 'z) world_scheme \<Rightarrow> bool" where
  "grows P s s' \<longleftrightarrow> (\<exists>qs. wire s' = wire s @ qs \<and> list_all P qs)"

text \<open>The requests a computation issues satisfy a predicate.\<close>

abbreviation issues :: "(request \<Rightarrow> bool) \<Rightarrow> ('f, ('w, 'z) world_scheme, 'a) io \<Rightarrow> bool" where
  "issues P \<equiv> moves (grows P)"

lemma grows_refl: "grows P s s"
  by (simp add: grows_def)

lemma grows_trans: "grows P s t \<Longrightarrow> grows P t u \<Longrightarrow> grows P s u"
  by (force simp: grows_def)

lemma grows_mono: "grows P s t \<Longrightarrow> (\<And>q. P q \<Longrightarrow> Q q) \<Longrightarrow> grows Q s t"
  by (auto simp: grows_def list_all_iff)

interpretation grow: state_order "grows P" for P
  by unfold_locales (auto intro: grows_refl grows_trans)

lemmas [issues_rules] = grow.rules

lemma issues_mono: "issues P m \<Longrightarrow> (\<And>q. P q \<Longrightarrow> Q q) \<Longrightarrow> issues Q m"
  by (rule moves_mono) (blast intro: grows_mono)+

lemma issues_call [issues_rules]: "P q \<Longrightarrow> issues P (call q f)"
  by (rule movesI) (auto simp: call_def grows_def split: prod.splits)

lemma issues_rpc [issues_rules]: "P q \<Longrightarrow> issues P (rpc q f)"
  unfolding rpc_def by (intro moves_map_fault issues_call)

text \<open>A computation that changes the environment and the wire only.\<close>

definition same_component :: "('w, 'z) world_scheme \<Rightarrow> ('w, 'z) world_scheme \<Rightarrow> bool" where
  "same_component s s' \<longleftrightarrow> (\<exists>e q. s' = s\<lparr>env := e, wire := q\<rparr>)"

abbreviation confined :: "('f, ('w, 'z) world_scheme, 'a) io \<Rightarrow> bool" where
  "confined \<equiv> moves same_component"

lemma same_component_intro: "same_component s (s\<lparr>env := e, wire := q\<rparr>)"
  unfolding same_component_def by blast

interpretation same: state_order same_component
proof
  show "same_component s s" for s :: "('a, 'b) world_scheme"
    unfolding same_component_def by (intro exI [of _ "env s"] exI [of _ "wire s"]) simp
  show "same_component s u" if "same_component s t" "same_component t u"
    for s t u :: "('a, 'b) world_scheme"
  proof -
    from that obtain e q e' q' where "t = s\<lparr>env := e, wire := q\<rparr>" "u = t\<lparr>env := e', wire := q'\<rparr>"
      unfolding same_component_def by blast
    then have "u = s\<lparr>env := e', wire := q'\<rparr>" by simp
    then show ?thesis by (simp only: same_component_intro)
  qed
qed

named_theorems confined_rules \<open>computations that leave the component's state alone\<close>

lemmas [confined_rules] = same.rules

lemma confined_call [confined_rules]: "confined (call q f)"
  by (rule movesI) (auto simp: call_def intro: same_component_intro split: prod.splits)

lemma confined_rpc [confined_rules]: "confined (rpc q f)"
  unfolding rpc_def by (intro moves_map_fault confined_call)

lemma sent_append [simp]: "wire s' = wire s @ qs \<Longrightarrow> sent k s' = sent k s @ concat (map (send_of k) qs)"
  by (simp add: sent_def)

lemma send_of_not_send [simp]: "\<not> is_send q \<Longrightarrow> send_of k q = []"
  by (cases q) simp_all

lemma grows_no_send:
  assumes "grows (\<lambda>q. send_of k q = []) s s'"
  shows "sent k s' = sent k s"
proof -
  from assms obtain qs where qs: "wire s' = wire s @ qs" and "list_all (\<lambda>q. send_of k q = []) qs"
    by (auto simp: grows_def)
  then have "concat (map (send_of k) qs) = []" by (simp add: list_all_iff)
  with qs show ?thesis by simp
qed

lemma no_send_run: "issues (\<lambda>q. send_of k q = []) m \<Longrightarrow> m s = (r, s') \<Longrightarrow> sent k s' = sent k s"
  by (blast intro: grows_no_send dest: movesD)

lemma call_wire: "call q f s = (r, s') \<Longrightarrow> wire s' = wire s @ [q]"
  by (auto simp: call_def split: prod.splits)

lemma rpc_ok_iff:
  "rpc q f s = (Inr x, s') \<longleftrightarrow>
     (\<exists>e. f (env s) = (Inr x, e) \<and> s' = s\<lparr>env := e, wire := wire s @ [q]\<rparr>)"
  by (auto simp: rpc_def call_def split: prod.splits)

lemma rpc_apply [io_simps]:
  "f (env s) = (Inr x, e) \<Longrightarrow> rpc q f s = (Inr x, s\<lparr>env := e, wire := wire s @ [q]\<rparr>)"
  "f (env s) = (Inl c, e) \<Longrightarrow> rpc q f s = (Inl (client_fault c), s\<lparr>env := e, wire := wire s @ [q]\<rparr>)"
  by (simp_all add: rpc_def call_def map_faultE_def)

end
