(* ===== verification/Ledger.thy ===== *)
theory Ledger
  imports Chain
begin

text \<open>
  The documented behaviour of the RPC method \<open>getSignaturesForAddress\<close>, on which two paging
  loops of the relayer rely: the signatures that mention an address, newest first, strictly
  older than \<open>before\<close>, strictly newer than \<open>until\<close>, at most \<open>limit\<close> of them. It is stated as
  the predicate \<open>serves\<close> over a node, a parameter of the model, and used as a named hypothesis.
\<close>

type_synonym history = "(signature \<times> u64) list"

definition older_than :: "signature option \<Rightarrow> history \<Rightarrow> history" where
  "older_than before h =
     (case before of None \<Rightarrow> h | Some b \<Rightarrow> tl (dropWhile (\<lambda>x. fst x \<noteq> b) h))"

definition newer_than :: "signature option \<Rightarrow> history \<Rightarrow> history" where
  "newer_than until h =
     (case until of None \<Rightarrow> h | Some u \<Rightarrow> takeWhile (\<lambda>x. fst x \<noteq> u) h)"

definition sig_range :: "history \<Rightarrow> signature option \<Rightarrow> signature option \<Rightarrow> history" where
  "sig_range h before until = newer_than until (older_than before h)"

definition status_entry :: "(signature \<Rightarrow> string) \<Rightarrow> signature \<times> u64 \<Rightarrow> sig_status" where
  "status_entry enc x = \<lparr>st_signature = enc (fst x), st_slot = snd x\<rparr>"

definition serves ::
  "sdk \<Rightarrow> 'w node \<Rightarrow> commitment \<Rightarrow> (signature \<Rightarrow> string) \<Rightarrow> (pubkey \<Rightarrow> history) \<Rightarrow> bool" where
  "serves sdk nd c enc hist \<longleftrightarrow>
     (\<forall>sig. parse_signature sdk (enc sig) = Some sig) \<and>
     (\<forall>a. distinct (map fst (hist a))) \<and>
     (\<forall>a before until limit w. fst (n_signatures nd a before until limit c w) =
        Inr (map (status_entry enc) (take limit (sig_range (hist a) before until))))"

lemma older_than_suffix: "\<exists>pre. h = pre @ older_than before h"
proof (cases before)
  case None
  then show ?thesis by (simp add: older_than_def)
next
  case (Some b)
  have h: "h = takeWhile (\<lambda>x. fst x \<noteq> b) h @ dropWhile (\<lambda>x. fst x \<noteq> b) h" by simp
  show ?thesis
  proof (cases "dropWhile (\<lambda>x. fst x \<noteq> b) h")
    case Nil
    have "older_than before h = []" unfolding older_than_def Some option.case Nil by simp
    then show ?thesis by simp
  next
    case (Cons y ys)
    have "older_than before h = ys" unfolding older_than_def Some option.case Cons by simp
    moreover from h have "h = (takeWhile (\<lambda>x. fst x \<noteq> b) h @ [y]) @ ys" by (simp add: Cons)
    ultimately show ?thesis by metis
  qed
qed

lemma newer_than_prefix:
  "\<exists>post. h = newer_than until h @ post \<and> (post = [] \<or> Some (fst (hd post)) = until)"
proof (cases until)
  case None
  then show ?thesis by (simp add: newer_than_def)
next
  case (Some u)
  let ?post = "dropWhile (\<lambda>x. fst x \<noteq> u) h"
  have "h = newer_than until h @ ?post" using Some by (simp add: newer_than_def)
  moreover have "?post = [] \<or> Some (fst (hd ?post)) = until"
    using Some hd_dropWhile [of "\<lambda>x. fst x \<noteq> u" h] by auto
  ultimately show ?thesis by blast
qed

lemma newer_than_free: "Some x \<notin> (\<lambda>y. Some (fst y)) ` set (newer_than (Some x) h)"
  by (auto simp: newer_than_def dest: set_takeWhileD)

lemma sig_range_subset: "set (sig_range h before until) \<subseteq> set h"
proof -
  obtain pre where "h = pre @ older_than before h" using older_than_suffix by blast
  then have "set (older_than before h) \<subseteq> set h" by (metis Un_upper2 set_append)
  moreover have "set (newer_than until g) \<subseteq> set g" for g
    by (auto simp: newer_than_def dest: set_takeWhileD split: option.splits)
  ultimately show ?thesis by (fastforce simp: sig_range_def)
qed

lemma older_than_split:
  "distinct (map fst (us @ x # vs)) \<Longrightarrow> older_than (Some (fst x)) (us @ x # vs) = vs"
proof -
  assume "distinct (map fst (us @ x # vs))"
  then have "fst x \<notin> fst ` set us" by simp
  then have "\<forall>y \<in> set us. fst y \<noteq> fst x" by (metis imageI)
  then show ?thesis by (simp add: older_than_def dropWhile_append2)
qed

text \<open>The step of a paging loop: asking before the last entry of a page continues after it.\<close>

lemma sig_range_next:
  assumes dist: "distinct (map fst h)"
    and page: "page = take limit (sig_range h before until)" and ne: "page \<noteq> []"
  shows "sig_range h (Some (fst (last page))) until = drop limit (sig_range h before until)"
proof -
  define r where "r = sig_range h before until"
  obtain pre where pre: "h = pre @ older_than before h" using older_than_suffix by blast
  obtain post where post: "older_than before h = r @ post"
    and stop: "post = [] \<or> Some (fst (hd post)) = until"
    using newer_than_prefix [of "older_than before h" until] by (auto simp: r_def sig_range_def)
  from page have r: "r = page @ drop limit r" by (simp add: r_def)
  from ne have "page = butlast page @ [last page]" by simp
  with pre post r have h: "h = (pre @ butlast page) @ last page # (drop limit r @ post)"
    by (metis append.assoc append_Cons append_Nil)
  with dist have "older_than (Some (fst (last page))) h = drop limit r @ post"
    using older_than_split [of "pre @ butlast page" "last page" "drop limit r @ post"] by simp
  moreover have "newer_than until (drop limit r @ post) = drop limit r"
  proof (cases until)
    case None
    with stop show ?thesis by (simp add: newer_than_def)
  next
    case (Some u)
    have "\<forall>y \<in> set r. fst y \<noteq> u"
      using newer_than_free [of u "older_than before h"] Some by (auto simp: r_def sig_range_def)
    then have "\<forall>y \<in> set (drop limit r). fst y \<noteq> u" by (meson in_set_dropD)
    with stop Some show ?thesis by (cases post) (auto simp: newer_than_def takeWhile_append2)
  qed
  ultimately show ?thesis by (simp add: sig_range_def r_def)
qed

lemma sig_range_distinct:
  assumes "distinct (map fst h)"
  shows "distinct (map fst (sig_range h before until))"
proof -
  obtain pre where pre: "h = pre @ older_than before h" using older_than_suffix by blast
  obtain post where "older_than before h = sig_range h before until @ post"
    using newer_than_prefix [of "older_than before h" until] by (auto simp: sig_range_def)
  with pre have "map fst h = map fst pre @ map fst (sig_range h before until) @ map fst post"
    by (metis map_append)
  with assms show ?thesis by simp
qed

lemma map_status_entry [simp]: "map st_signature (map (status_entry enc) xs) = map (\<lambda>x. enc (fst x)) xs"
  by (simp add: status_entry_def)

end
