(* ===== verification/Instances.thy ===== *)
theory Instances
  imports Ledger
begin

text \<open>
  Concrete parameters, on which the hypotheses about third-party code are shown to be
  satisfiable: an SDK whose signatures and keys are written in decimal, a node that serves a
  given ledger, and a runtime whose choices are read off the environment state.
\<close>

definition decimal_word :: "string \<Rightarrow> 'a::len word option" where
  "decimal_word str =
     (case read_digits 0 str of None \<Rightarrow> None
      | Some n \<Rightarrow> if str \<noteq> [] \<and> n < 2 ^ LENGTH('a) then Some (of_nat n) else None)"

definition decimal :: "'a::len word \<Rightarrow> string" where
  "decimal w = show_nat (unat w)"

lemma show_nat_nonempty [simp]: "show_nat n \<noteq> []"
  by (subst show_nat.simps) simp

lemma decimal_word_decimal [simp]: "decimal_word (decimal w) = Some w"
  by (simp add: decimal_word_def decimal_def read_digits_show_nat unsigned_less [where ?'a = nat, simplified])

definition decimal_sdk :: sdk where
  "decimal_sdk =
     \<lparr>cu_limit_ix = (\<lambda>u. \<lparr>ix_program = 1, ix_metas = [], ix_data = [2, ucast u]\<rparr>),
      cu_price_ix = (\<lambda>u. \<lparr>ix_program = 1, ix_metas = [], ix_data = [3, ucast u]\<rparr>),
      max_cu_limit = 1400000,
      tx_error_of = (\<lambda>e. case e of TransactionErrorKind te \<Rightarrow> Some te | _ \<Rightarrow> None),
      first_signature = (\<lambda>tx. of_nat (length (tx_ixs tx))),
      parse_signature = decimal_word,
      parse_pubkey = decimal_word,
      datetime_of = (\<lambda>t. Some t)\<rparr>"

definition ledger_node ::
  "node_tag \<Rightarrow> (pubkey \<Rightarrow> history) \<Rightarrow> (signature \<Rightarrow> client_error + encoded_tx) \<Rightarrow> nat node" where
  "ledger_node tag hist db =
     \<lparr>node_tag = tag,
      n_signatures = (\<lambda>a before until limit c w.
        (Inr (map (status_entry decimal) (take limit (sig_range (hist a) before until))), Suc w)),
      n_transaction = (\<lambda>sig c w. (db sig, Suc w)),
      n_blockhash = (\<lambda>w. (Inr (of_nat w), Suc w)),
      n_simulate = (\<lambda>tx w. (Inr \<lparr>sim_err = None, sim_units = Some 5000\<rparr>, Suc w)),
      n_send = (\<lambda>tx w. (Inr (of_nat w), Suc w)),
      n_fees = (\<lambda>ks w. (Inr [100, 200, 300], Suc w)),
      n_account = (\<lambda>a w. (Inr \<lparr>acc_owner = 0, acc_data = []\<rparr>, Suc w)),
      n_account_data = (\<lambda>a w. (Inr [], Suc w)),
      n_program_accounts = (\<lambda>a w. (Inr (), Suc w))\<rparr>"

definition counting_runtime :: "nat runtime" where
  "counting_runtime = \<lparr>rt_pick = (\<lambda>w. w), rt_retry = (\<lambda>f w. f w)\<rparr>"

lemma node_tag_ledger [simp]: "node_tag (ledger_node tag hist db) = tag"
  by (simp add: ledger_node_def)

lemma serves_ledger_node:
  "(\<And>a. distinct (map fst (hist a))) \<Longrightarrow> serves decimal_sdk (ledger_node tag hist db) c decimal hist"
  by (simp add: serves_def ledger_node_def decimal_sdk_def)

abbreviation start_world :: "nat world" where
  "start_world \<equiv> \<lparr>env = 0, wire = []\<rparr>"

text \<open>A confirmed transaction with the given fee and instructions, all on the same accounts.\<close>

definition plain_tx :: "pubkey list \<Rightarrow> compiled_ix list \<Rightarrow> u64 \<Rightarrow> encoded_tx" where
  "plain_tx keys ixs fee =
     \<lparr>enc_slot = 1, enc_message = Some \<lparr>msg_keys = keys, msg_ixs = ixs\<rparr>,
      enc_meta = Some \<lparr>meta_err = None, meta_fee = fee, meta_logs = SerSome [],
        meta_inner = SerSome [], meta_loaded = SerNone, meta_units = SerSome 1000\<rparr>,
      enc_block_time = Some 0\<rparr>"

end
