(* ===== verification/EffectiveSender.thy ===== *)
theory EffectiveSender
  imports Instances
begin

text \<open>
  \<open>crates/effective-tx-sender/src/lib.rs\<close>: a transaction is simulated with the largest compute
  budget, the budget and the unit price are computed from the simulation and from recent
  prioritization fees, and both are prefixed to the instructions before the transaction is
  sent. The deque of instructions is contiguous when it is sent (\<open>make_contiguous\<close> after the
  last \<open>push_front\<close>), so its first slice is the whole list.

  The interface the gateway component relies on is the locale \<open>tx_sender\<close>; it is interpreted
  here on \<open>send_transaction\<close>.
\<close>

section \<open>Definitions\<close>

record effective_sender =
  es_ixs :: "instruction list"
  es_hash :: blockhash
  es_keypair :: pubkey

definition new_sender :: "pubkey \<Rightarrow> instruction list \<Rightarrow> effective_sender" where
  "new_sender kp ixs = \<lparr>es_ixs = ixs, es_hash = 0, es_keypair = kp\<rparr>"

definition generic_fault :: "client_error \<Rightarrow> fault" where
  "generic_fault e = Err (ComputeBudget (Generic (ClientErr e)))"

definition generic_rpc ::
  "request \<Rightarrow> ('w \<Rightarrow> (client_error + 'a) \<times> 'w) \<Rightarrow> (fault, ('w, 'z) world_scheme, 'a) io" where
  "generic_rpc q f = map_faultE generic_fault (call q f)"

text \<open>The rolling average of the last ten fees, summed and counted with saturation.\<close>

definition fee_average :: "u64 list \<Rightarrow> u64" where
  "fee_average fees =
     (let (total, count) =
        foldl (\<lambda>(total, count) fee. (sat_add total fee, sat_add count 1)) (0, 0)
          (take 10 (rev fees))
      in if 0 < count then div_or_zero total count else 0)"

definition compute_unit_price ::
  "sdk \<Rightarrow> 'w node \<Rightarrow> instruction list \<Rightarrow> (fault, ('w, 'z) world_scheme, instruction) io" where
  "compute_unit_price sdk nd ixs =
     (let keys = take 128 (touched ixs)
      in bindE (generic_rpc (ReqFees (node_tag nd) keys) (n_fees nd keys))
           (\<lambda>fees. retE (cu_price_ix sdk (fee_average fees))))"

text \<open>Simulated units, topped up by a tenth and capped at the cluster's limit.\<close>

definition budget_units :: "u32 \<Rightarrow> u64 \<Rightarrow> u64" where
  "budget_units limit units = min (sat_add units (div_or_zero units 10)) (ucast limit)"

definition compute_budget ::
  "sdk \<Rightarrow> 'w node \<Rightarrow> pubkey \<Rightarrow> instruction list
     \<Rightarrow> (fault, ('w, 'z) world_scheme, instruction \<times> blockhash) io" where
  "compute_budget sdk nd kp ixs =
     bindE (generic_rpc (ReqBlockhash (node_tag nd)) (n_blockhash nd)) (\<lambda>hash.
     let tx = \<lparr>tx_ixs = ixs, tx_payer = kp, tx_hash = hash\<rparr>
     in bindE (generic_rpc (ReqSimulate (node_tag nd) tx) (n_simulate nd tx)) (\<lambda>result.
        if sim_err result \<noteq> None then failE (Err (ComputeBudget (SimulationError result)))
        else
          let units = (case sim_units result of None \<Rightarrow> 0 | Some u \<Rightarrow> u);
              budget = budget_units (max_cu_limit sdk) units
          in if unat budget < 2 ^ 32 then retE (cu_limit_ix sdk (ucast budget), hash)
             else failE (Err (ComputeBudget (Generic (Msg ''out of range integral type conversion attempted''))))))"

text \<open>\<open>try_join!\<close>: either branch may finish first; an error of the first stops the join.\<close>

definition try_join ::
  "('s \<Rightarrow> nat) \<Rightarrow> ('f, 's, 'a) io \<Rightarrow> ('f, 's, 'b) io \<Rightarrow> ('f, 's, 'a \<times> 'b) io" where
  "try_join p m n s =
     (if even (p s) then bindE m (\<lambda>a. bindE n (\<lambda>b. retE (a, b))) s
      else bindE n (\<lambda>b. bindE m (\<lambda>a. retE (a, b))) s)"

definition evaluate_compute_ixs ::
  "sdk \<Rightarrow> 'w runtime \<Rightarrow> 'w node \<Rightarrow> effective_sender
     \<Rightarrow> (fault, ('w, 'z) world_scheme, effective_sender) io" where
  "evaluate_compute_ixs sdk rt nd es =
     (let ixs = cu_limit_ix sdk 1399850 # es_ixs es
      in bindE (try_join (pick rt) (compute_unit_price sdk nd ixs)
                  (compute_budget sdk nd (es_keypair es) ixs))
           (\<lambda>(price, budget, hash).
              retE (es\<lparr>es_ixs := (price # ixs)[1 := budget], es_hash := hash\<rparr>)))"

definition send_fault :: "sdk \<Rightarrow> transaction \<Rightarrow> client_error \<Rightarrow> fault" where
  "send_fault sdk tx e =
     (case tx_error_of sdk e of
        Some te \<Rightarrow> Err (ComputeBudget (TransactionError te (first_signature sdk tx)))
      | None \<Rightarrow> generic_fault e)"

definition send_tx ::
  "sdk \<Rightarrow> 'w node \<Rightarrow> effective_sender \<Rightarrow> (fault, ('w, 'z) world_scheme, signature) io" where
  "send_tx sdk nd es =
     (let tx = \<lparr>tx_ixs = es_ixs es, tx_payer = es_keypair es, tx_hash = es_hash es\<rparr>
      in map_faultE (send_fault sdk tx) (call (ReqSend (node_tag nd) tx) (n_send nd tx)))"

text \<open>\<open>send_transaction\<close> of the gateway task processor.\<close>

definition send_transaction ::
  "sdk \<Rightarrow> 'w runtime \<Rightarrow> 'w node \<Rightarrow> pubkey \<Rightarrow> instruction list
     \<Rightarrow> (fault, ('w, 'z) world_scheme, signature) io" where
  "send_transaction sdk rt nd kp ixs =
     bindE (evaluate_compute_ixs sdk rt nd (new_sender kp ixs)) (send_tx sdk nd)"

section \<open>The compute budget and the unit price\<close>

lemma unat_budget_units:
  "unat (budget_units limit units) =
     min (min (unat units + unat units div 10) (2 ^ 64 - 1)) (unat limit)"
proof -
  have "unat (ucast limit :: u64) = unat limit"
    using unsigned_less [of limit, where ?'a = nat] by (simp add: unsigned_ucast_eq take_bit_nat_eq_self)
  moreover have "unat (min a b) = min (unat a) (unat b)" for a b :: u64
    by (auto simp: min_def word_le_nat_alt)
  ultimately show ?thesis
    by (simp add: budget_units_def unat_sat_add unat_div_or_zero)
qed

lemma budget_units_fits: "unat (budget_units limit units) < 2 ^ 32"
  using unsigned_less [of limit, where ?'a = nat] by (simp add: unat_budget_units min_def)

lemma unat_budget_ucast:
  "unat (ucast (budget_units limit units) :: u32) = unat (budget_units limit units)"
  using budget_units_fits [of limit units] by (simp add: unsigned_ucast_eq take_bit_nat_eq_self)

lemma fee_fold:
  "length xs < 2 ^ 64 \<Longrightarrow>
   foldl (\<lambda>(total, count) fee. (sat_add total fee, sat_add count 1)) (0, 0) xs =
     (sat_sum xs, of_nat (length xs))"
proof (induction xs rule: rev_induct)
  case Nil
  show ?case by (simp add: sat_sum_def)
next
  case (snoc x xs)
  have "sat_add (of_nat (length xs)) 1 = of_nat (Suc (length xs))"
    using snoc.prems by (simp add: word_unat_eq_iff unat_sat_add unat_of_nat unat_word_ariths)
  with snoc show ?case by (simp add: sat_sum_def)
qed

lemma fee_average_unat:
  "unat (fee_average fees) =
     (let xs = take 10 (rev fees) in unat (sat_sum xs) div length xs)"
proof -
  define xs where "xs = take 10 (rev fees)"
  have len: "length xs \<le> 10" by (simp add: xs_def)
  then have fold: "foldl (\<lambda>(total, count) fee. (sat_add total fee, sat_add count 1)) (0, 0) xs =
     (sat_sum xs, of_nat (length xs))" by (intro fee_fold) simp
  have cnt: "unat (of_nat (length xs) :: u64) = length xs" using len by (simp add: unat_of_nat)
  have pos: "(0 :: u64) < of_nat (length xs) \<longleftrightarrow> xs \<noteq> []"
    using cnt by (auto simp: word_less_nat_alt)
  show ?thesis
    by (simp add: fee_average_def fold [unfolded xs_def] flip: xs_def)
      (simp add: fold pos unat_div_or_zero cnt)
qed

lemma sum_list_le_bound: "(\<And>x. x \<in> set xs \<Longrightarrow> f x \<le> (m :: nat)) \<Longrightarrow> sum_list (map f xs) \<le> length xs * m"
proof (induction xs)
  case (Cons x xs)
  then have "f x \<le> m" and "sum_list (map f xs) \<le> length xs * m" by auto
  then show ?case by simp
qed simp

lemma fee_average_le:
  assumes "\<And>f. f \<in> set (take 10 (rev fees)) \<Longrightarrow> f \<le> m"
  shows "fee_average fees \<le> m"
proof -
  define xs where "xs = take 10 (rev fees)"
  have "sum_list (map unat xs) \<le> length xs * unat m"
    using assms by (intro sum_list_le_bound) (simp add: xs_def word_le_nat_alt)
  then have "unat (sat_sum xs) \<le> unat m * length xs"
    by (simp add: unat_sat_sum mult.commute)
  then have "unat (sat_sum xs) div length xs \<le> unat m"
    by (cases "length xs = 0") (simp_all add: div_le_mono [THEN order_trans])
  then show ?thesis by (simp add: word_le_nat_alt fee_average_unat flip: xs_def)
qed

section \<open>What is sent, and when\<close>

definition simulated_units :: "sim_result \<Rightarrow> u64" where
  "simulated_units res = (case sim_units res of None \<Rightarrow> 0 | Some u \<Rightarrow> u)"

text \<open>A transaction that carries the instructions behind a unit price and a compute budget.\<close>

definition carries :: "sdk \<Rightarrow> pubkey \<Rightarrow> instruction list \<Rightarrow> transaction \<Rightarrow> bool" where
  "carries sdk kp ixs tx \<longleftrightarrow>
     (\<exists>price budget. tx_ixs tx = cu_price_ix sdk price # cu_limit_ix sdk budget # ixs
        \<and> unat budget \<le> unat (max_cu_limit sdk)) \<and> tx_payer tx = kp"

lemma try_join_okE:
  assumes "try_join p m n s = (Inr (a, b), s')"
  obtains s1 where "m s = (Inr a, s1)" "n s1 = (Inr b, s')"
    | s1 where "n s = (Inr b, s1)" "m s1 = (Inr a, s')"
  using assms by (auto simp: try_join_def split: if_splits elim!: bindE_okE)

lemma issues_try_join [issues_rules]:
  "issues P m \<Longrightarrow> issues P n \<Longrightarrow> issues P (try_join p m n)"
proof (rule movesI)
  fix s r s'
  assume *: "issues P m" "issues P n" and run: "try_join p m n s = (r, s')"
  have "issues P (bindE m (\<lambda>a. bindE n (\<lambda>b. retE (a, b))))"
    and "issues P (bindE n (\<lambda>b. bindE m (\<lambda>a. retE (a, b))))"
    using * by (auto intro!: grow.bind grow.ret)
  with run show "grows P s s'"
    by (auto simp: try_join_def dest: movesD split: if_splits)
qed

lemma issues_generic_rpc [issues_rules]: "P q \<Longrightarrow> issues P (generic_rpc q f)"
  unfolding generic_rpc_def by (intro moves_map_fault issues_call)

lemma issues_unit_price [issues_rules]:
  "(\<And>ks. P (ReqFees (node_tag nd) ks)) \<Longrightarrow> issues P (compute_unit_price sdk nd ixs)"
  unfolding compute_unit_price_def Let_def by (intro issues_rules) auto

lemma issues_budget [issues_rules]:
  "P (ReqBlockhash (node_tag nd)) \<Longrightarrow> (\<And>t. P (ReqSimulate (node_tag nd) t)) \<Longrightarrow>
   issues P (compute_budget sdk nd kp ixs)"
  unfolding compute_budget_def Let_def by (intro issues_rules) auto

lemma issues_evaluate [issues_rules]:
  "(\<And>ks. P (ReqFees (node_tag nd) ks)) \<Longrightarrow> P (ReqBlockhash (node_tag nd)) \<Longrightarrow>
   (\<And>t. P (ReqSimulate (node_tag nd) t)) \<Longrightarrow> issues P (evaluate_compute_ixs sdk rt nd es)"
  unfolding evaluate_compute_ixs_def Let_def by (intro issues_rules) auto

lemma evaluate_no_send:
  assumes "evaluate_compute_ixs sdk rt nd es s = (r, s')"
  shows "sent k s' = sent k s"
proof -
  have "issues (\<lambda>q. send_of k q = []) (evaluate_compute_ixs sdk rt nd es)"
    by (rule issues_evaluate) simp_all
  then show ?thesis using assms by (rule no_send_run)
qed

lemma generic_rpc_okD: "generic_rpc q f s = (Inr x, s') \<Longrightarrow> \<exists>w w'. f w = (Inr x, w')"
  by (auto simp: generic_rpc_def call_def split: prod.splits)

lemma unit_price_ok:
  assumes "compute_unit_price sdk nd ixs s = (Inr price, s')"
  shows "\<exists>fees w w'. price = cu_price_ix sdk (fee_average fees)
           \<and> n_fees nd (take 128 (touched ixs)) w = (Inr fees, w')"
  using assms
  by (auto simp: compute_unit_price_def Let_def elim!: bindE_okE dest!: generic_rpc_okD) blast

lemma budget_ok:
  assumes "compute_budget sdk nd kp ixs s = (Inr (budget, hash), s')"
  shows "\<exists>res w w'. sim_err res = None
           \<and> n_simulate nd \<lparr>tx_ixs = ixs, tx_payer = kp, tx_hash = hash\<rparr> w = (Inr res, w')
           \<and> budget = cu_limit_ix sdk (ucast (budget_units (max_cu_limit sdk) (simulated_units res)))"
  using assms
  by (auto simp: compute_budget_def Let_def budget_units_fits [simplified] simulated_units_def elim!: bindE_okE
      dest!: generic_rpc_okD split: if_splits) blast

lemma budget_limit: "unat (ucast (budget_units limit units) :: u32) \<le> unat limit"
  by (simp add: unat_budget_ucast unat_budget_units)

text \<open>
  What a successful evaluation rests on: an answer about fees, and a simulation without error of
  the instructions behind the placeholder limit, with the blockhash that is then used.
\<close>

definition evaluated ::
  "sdk \<Rightarrow> 'w node \<Rightarrow> pubkey \<Rightarrow> instruction list \<Rightarrow> transaction \<Rightarrow> bool" where
  "evaluated sdk nd kp ixs tx \<longleftrightarrow>
     (\<exists>fees res w1 w1' w2 w2'.
        n_fees nd (take 128 (touched (cu_limit_ix sdk 1399850 # ixs))) w1 = (Inr fees, w1') \<and>
        n_simulate nd \<lparr>tx_ixs = cu_limit_ix sdk 1399850 # ixs, tx_payer = kp, tx_hash = tx_hash tx\<rparr> w2
          = (Inr res, w2') \<and>
        sim_err res = None \<and> tx_payer tx = kp \<and>
        tx_ixs tx = cu_price_ix sdk (fee_average fees)
          # cu_limit_ix sdk (ucast (budget_units (max_cu_limit sdk) (simulated_units res))) # ixs)"

lemma evaluated_carries: "evaluated sdk nd kp ixs tx \<Longrightarrow> carries sdk kp ixs tx"
  unfolding evaluated_def carries_def using budget_limit by blast

lemma evaluate_ok:
  fixes s :: "('w, 'z) world_scheme"
  assumes "evaluate_compute_ixs sdk rt nd es s = (Inr es', s')"
  shows "evaluated sdk nd (es_keypair es) (es_ixs es)
           \<lparr>tx_ixs = es_ixs es', tx_payer = es_keypair es', tx_hash = es_hash es'\<rparr>"
proof -
  from assms obtain price budget hash s1 where
    join: "try_join (pick rt) (compute_unit_price sdk nd (cu_limit_ix sdk 1399850 # es_ixs es))
       (compute_budget sdk nd (es_keypair es) (cu_limit_ix sdk 1399850 # es_ixs es)) s
       = (Inr (price, budget, hash), s1)"
    and es': "es' = es\<lparr>es_ixs := (price # cu_limit_ix sdk 1399850 # es_ixs es)[1 := budget],
                       es_hash := hash\<rparr>"
    by (auto simp: evaluate_compute_ixs_def Let_def elim!: bindE_okE)
  from join obtain s2 s3 s4 s5 :: "('w, 'z) world_scheme" where
    p: "compute_unit_price sdk nd (cu_limit_ix sdk 1399850 # es_ixs es) s2 = (Inr price, s3)" and
    b: "compute_budget sdk nd (es_keypair es) (cu_limit_ix sdk 1399850 # es_ixs es) s4 =
          (Inr (budget, hash), s5)"
    by (rule try_join_okE) blast+
  from unit_price_ok [OF p] budget_ok [OF b] es' show ?thesis
    by (fastforce simp: evaluated_def)
qed

lemma send_tx_sent:
  assumes "send_tx sdk nd es s = (r, s')"
  shows "sent (node_tag nd) s' = sent (node_tag nd) s @
           [\<lparr>tx_ixs = es_ixs es, tx_payer = es_keypair es, tx_hash = es_hash es\<rparr>]"
proof -
  from assms have "wire s' = wire s @
      [ReqSend (node_tag nd) \<lparr>tx_ixs = es_ixs es, tx_payer = es_keypair es, tx_hash = es_hash es\<rparr>]"
    by (auto simp: send_tx_def Let_def map_faultE_def dest: call_wire split: prod.splits sum.splits)
  then show ?thesis by simp
qed

lemma send_transaction_cases:
  assumes run: "send_transaction sdk rt nd kp ixs s = (r, s')"
  shows "(\<exists>tx. evaluated sdk nd kp ixs tx \<and> sent (node_tag nd) s' = sent (node_tag nd) s @ [tx])
       \<or> (\<exists>e. r = Inl e) \<and> sent (node_tag nd) s' = sent (node_tag nd) s"
proof (cases "evaluate_compute_ixs sdk rt nd (new_sender kp ixs) s")
  case (Pair re s1)
  then have s1: "sent (node_tag nd) s1 = sent (node_tag nd) s" by (rule evaluate_no_send)
  show ?thesis
  proof (cases re)
    case (Inl e)
    with Pair run s1 show ?thesis by (auto simp: send_transaction_def bindE_def)
  next
    case (Inr es)
    with Pair have "evaluated sdk nd kp ixs
        \<lparr>tx_ixs = es_ixs es, tx_payer = es_keypair es, tx_hash = es_hash es\<rparr>"
      using evaluate_ok [of sdk rt nd "new_sender kp ixs" s es s1] by (simp add: new_sender_def)
    moreover from Pair Inr run have "send_tx sdk nd es s1 = (r, s')"
      by (simp add: send_transaction_def bindE_def)
    ultimately show ?thesis using send_tx_sent s1 by metis
  qed
qed

lemma send_transaction_ok:
  assumes "send_transaction sdk rt nd kp ixs s = (Inr sig, s')"
  shows "\<exists>tx. carries sdk kp ixs tx \<and> sent (node_tag nd) s' = sent (node_tag nd) s @ [tx]"
  using send_transaction_cases [OF assms] evaluated_carries by auto

lemma issues_send_transaction [issues_rules]:
  "issues (\<lambda>q. node_of q = node_tag nd \<and> (\<forall>t. q = ReqSend (node_tag nd) t \<longrightarrow> carries sdk kp ixs t))
     (send_transaction sdk rt nd kp ixs)"
  unfolding send_transaction_def
proof (rule grow.bind_ok)
  fix s es and s' :: "('a, 'b) world_scheme"
  assume "evaluate_compute_ixs sdk rt nd (new_sender kp ixs) s = (Inr es, s')"
  from evaluated_carries [OF evaluate_ok [OF this]]
  have "carries sdk kp ixs \<lparr>tx_ixs = es_ixs es, tx_payer = es_keypair es, tx_hash = es_hash es\<rparr>"
    by (simp add: new_sender_def)
  then show "issues (\<lambda>q. node_of q = node_tag nd \<and> (\<forall>t. q = ReqSend (node_tag nd) t \<longrightarrow> carries sdk kp ixs t))
     (send_tx sdk nd es)"
    unfolding send_tx_def Let_def by (intro moves_map_fault issues_call) auto
qed (rule issues_evaluate, simp_all)

lemma confined_try_join [confined_rules]: "confined m \<Longrightarrow> confined n \<Longrightarrow> confined (try_join p m n)"
proof (rule movesI)
  fix s r s'
  assume *: "confined m" "confined n" and run: "try_join p m n s = (r, s')"
  have "confined (bindE m (\<lambda>a. bindE n (\<lambda>b. retE (a, b))))"
    and "confined (bindE n (\<lambda>b. bindE m (\<lambda>a. retE (a, b))))"
    using * by (auto intro!: same.bind same.ret)
  with run show "same_component s s'"
    by (auto simp: try_join_def dest: movesD split: if_splits)
qed

lemma confined_generic_rpc [confined_rules]: "confined (generic_rpc q f)"
  unfolding generic_rpc_def by (intro confined_rules)

lemma confined_send_transaction [confined_rules]: "confined (send_transaction sdk rt nd kp ixs)"
  unfolding send_transaction_def evaluate_compute_ixs_def compute_unit_price_def compute_budget_def
    send_tx_def Let_def
  by (intro confined_rules)

lemma send_errors:
  assumes "send_transaction sdk rt nd kp ixs s = (Inl f, s')"
  shows "\<exists>e. f = Err (ComputeBudget e) \<and>
     (case e of
        SimulationError res \<Rightarrow> sim_err res \<noteq> None \<and> sent (node_tag nd) s' = sent (node_tag nd) s
      | TransactionError te sig \<Rightarrow>
          (\<exists>tx. sig = first_signature sdk tx \<and> sent (node_tag nd) s' = sent (node_tag nd) s @ [tx])
      | Generic _ \<Rightarrow> True)"
  using assms unfolding send_transaction_def
proof (cases rule: bindE_errE)
  case first
  then have s': "sent (node_tag nd) s' = sent (node_tag nd) s" by (rule evaluate_no_send)
  have rpc: "generic_rpc q g u = (Inl f, u') \<Longrightarrow> \<exists>e. f = Err (ComputeBudget (Generic e))"
    for q and g :: "'a \<Rightarrow> (client_error + 'c) \<times> 'a" and u u' :: "('a, 'b) world_scheme"
    by (auto simp: generic_rpc_def generic_fault_def map_faultE_def split: prod.splits sum.splits)
  have price: "\<exists>e. f = Err (ComputeBudget (Generic e))"
    if "compute_unit_price sdk nd is u = (Inl f, u')" for "is" and u u' :: "('a, 'b) world_scheme"
    using that by (auto simp: compute_unit_price_def Let_def elim!: bindE_errE dest: rpc)
  have budget: "\<exists>e. f = Err (ComputeBudget e) \<and>
      (\<forall>res. e = SimulationError res \<longrightarrow> sim_err res \<noteq> None) \<and> (\<forall>te sig. e \<noteq> TransactionError te sig)"
    if "compute_budget sdk nd kp is u = (Inl f, u')" for "is" and u u' :: "('a, 'b) world_scheme"
    using that
    by (auto simp: compute_budget_def Let_def elim!: bindE_errE dest!: rpc split: if_splits)
  from first have "\<exists>e. f = Err (ComputeBudget e) \<and>
      (\<forall>res. e = SimulationError res \<longrightarrow> sim_err res \<noteq> None) \<and> (\<forall>te sig. e \<noteq> TransactionError te sig)"
    by (auto simp: evaluate_compute_ixs_def try_join_def new_sender_def Let_def elim!: bindE_errE
        dest!: price budget split: if_splits)
  with s' show ?thesis by (auto split: cb_error.splits)
next
  case (later es s1)
  then have s1: "sent (node_tag nd) s1 = sent (node_tag nd) s" by (blast dest: evaluate_no_send)
  from later(2) obtain c where f: "f = send_fault sdk
      \<lparr>tx_ixs = es_ixs es, tx_payer = es_keypair es, tx_hash = es_hash es\<rparr> c"
    by (auto simp: send_tx_def Let_def map_faultE_def split: prod.splits sum.splits)
  with send_tx_sent [OF later(2)] s1 show ?thesis
    by (auto simp: send_fault_def generic_fault_def split: option.splits)
qed

section \<open>The interface of the senders\<close>

text \<open>
  What the gateway component needs of a sender: a success means that exactly one transaction
  that carries the instructions went to the sender's node; a failure that at most one did; and
  nothing goes to another node.
\<close>

locale tx_sender =
  fixes send :: "instruction list \<Rightarrow> (fault, ('w, 'z) world_scheme, signature) io"
    and tag :: node_tag
    and carrying :: "instruction list \<Rightarrow> transaction \<Rightarrow> bool"
  assumes send_ok: "send ixs s = (Inr sig, s') \<Longrightarrow>
      \<exists>tx. carrying ixs tx \<and> sent tag s' = sent tag s @ [tx]"
    and send_at_most_one: "send ixs s = (r, s') \<Longrightarrow>
      sent tag s' = sent tag s \<or> (\<exists>tx. carrying ixs tx \<and> sent tag s' = sent tag s @ [tx])"
    and send_simulation_error: "send ixs s = (Inl (Err (ComputeBudget (SimulationError res))), s') \<Longrightarrow>
      sent tag s' = sent tag s"
    and send_fails_with_budget: "send ixs s = (Inl f, s') \<Longrightarrow> \<exists>e. f = Err (ComputeBudget e)"
    and send_issues:
      "issues (\<lambda>q. node_of q = tag \<and> (\<forall>t. q = ReqSend tag t \<longrightarrow> carrying ixs t)) (send ixs)"
    and send_confined: "confined (send ixs)"
begin

lemma send_at_own_node: "issues (\<lambda>q. node_of q = tag) (send ixs)"
  by (rule issues_mono [OF send_issues]) simp

end

interpretation es: tx_sender "send_transaction sdk rt nd kp" "node_tag nd" "carries sdk kp"
  for sdk rt nd kp
proof unfold_locales
  fix ixs s sig s'
  show "send_transaction sdk rt nd kp ixs s = (Inr sig, s') \<Longrightarrow>
    \<exists>tx. carries sdk kp ixs tx \<and> sent (node_tag nd) s' = sent (node_tag nd) s @ [tx]"
    by (rule send_transaction_ok)
  show "send_transaction sdk rt nd kp ixs s = (r, s') \<Longrightarrow> sent (node_tag nd) s' = sent (node_tag nd) s \<or>
    (\<exists>tx. carries sdk kp ixs tx \<and> sent (node_tag nd) s' = sent (node_tag nd) s @ [tx])" for r
    using send_transaction_cases evaluated_carries by blast
  show "send_transaction sdk rt nd kp ixs s = (Inl (Err (ComputeBudget (SimulationError res))), s') \<Longrightarrow>
    sent (node_tag nd) s' = sent (node_tag nd) s" for res
    by (auto dest: send_errors)
  show "send_transaction sdk rt nd kp ixs s = (Inl f, s') \<Longrightarrow> \<exists>e. f = Err (ComputeBudget e)" for f
    by (auto dest: send_errors)
qed (rule issues_send_transaction confined_send_transaction)+

section \<open>Properties\<close>

text \<open>
  A transaction goes out only after its instructions, behind the placeholder limit, were
  simulated without error: whatever the outcome of \<open>send_transaction\<close>, either nothing was sent
  and the outcome is an error, or exactly one transaction was sent, made of the unit price from
  the fees answered, the budget computed from that simulation, and the instructions unchanged,
  with the simulated blockhash and the relayer's key.
\<close>

theorem sent_after_simulation:
  assumes "send_transaction sdk rt nd kp ixs s = (r, s')"
  shows "(\<exists>tx. evaluated sdk nd kp ixs tx \<and> sent (node_tag nd) s' = sent (node_tag nd) s @ [tx])
       \<or> (\<exists>e. r = Inl e) \<and> sent (node_tag nd) s' = sent (node_tag nd) s"
  using assms by (rule send_transaction_cases)

abbreviation quiet_node :: "node_tag \<Rightarrow> nat node" where
  "quiet_node tag \<equiv> ledger_node tag (\<lambda>a. []) (\<lambda>sig. Inl (RpcError ''not found''))"

lemma ledger_send_ok:
  "\<exists>sig s'. send_transaction decimal_sdk rt (ledger_node tag hist db) kp ixs s = (Inr sig, s')"
  by (cases "even (rt_pick rt (env s))")
    (simp_all add: send_transaction_def evaluate_compute_ixs_def try_join_def pick_def
      compute_unit_price_def compute_budget_def new_sender_def generic_rpc_def call_def bindE_def
      map_faultE_def ledger_node_def send_tx_def Let_def budget_units_fits [simplified])

lemma sent_after_simulation_witness:
  "\<exists>r s' tx. send_transaction decimal_sdk counting_runtime (quiet_node MainNode) 5 [] start_world = (r, s')
     \<and> evaluated decimal_sdk (quiet_node MainNode) 5 [] tx \<and> sent MainNode s' = [tx]"
proof -
  obtain sig s' where run:
    "send_transaction decimal_sdk counting_runtime (quiet_node MainNode) 5 [] start_world = (Inr sig, s')"
    using ledger_send_ok by blast
  from sent_after_simulation [OF run] run show ?thesis by (auto simp: sent_def)
qed

text \<open>
  The compute budget is the simulated consumption plus a tenth of it (rounded down), capped
  at the cluster's limit, so that it always fits the 32-bit field; the conversion never fails.
\<close>

theorem budget_tops_up:
  "unat (ucast (budget_units limit units) :: u32) =
     min (unat units + unat units div 10) (unat limit)"
proof -
  have "unat limit \<le> 2 ^ 64 - 1" using unsigned_less [of limit, where ?'a = nat] by simp
  then show ?thesis by (simp add: unat_budget_ucast unat_budget_units min_def)
qed

text \<open>
  The unit price is the average (rounded down) of the last ten fees the node reports, zero
  when it reports none, and never more than the largest of them.
\<close>

theorem unit_price_is_average:
  "unat (fee_average fees) =
     (let recent = take 10 (rev fees)
      in min (sum_list (map unat recent)) (2 ^ 64 - 1) div length recent) \<and>
   fee_average fees \<le> fold max (take 10 (rev fees)) 0"
proof
  show "unat (fee_average fees) =
     (let recent = take 10 (rev fees)
      in min (sum_list (map unat recent)) (2 ^ 64 - 1) div length recent)"
    by (simp add: fee_average_unat unat_sat_sum Let_def)
  have "(\<forall>x \<in> set xs. x \<le> fold max xs a) \<and> a \<le> fold max xs a" for xs and a :: u64
    by (induction xs arbitrary: a) (force+)
  then show "fee_average fees \<le> fold max (take 10 (rev fees)) 0"
    by (intro fee_average_le) blast
qed

text \<open>
  The error of a failed \<open>send_transaction\<close> tells whether anything was sent: it is always a
  compute-budget error; a simulation error means that nothing was sent, and a transaction error
  that one transaction was, whose signature it carries.
\<close>

theorem send_error_kinds:
  assumes "send_transaction sdk rt nd kp ixs s = (Inl f, s')"
  shows "\<exists>e. f = Err (ComputeBudget e) \<and>
     (case e of
        SimulationError res \<Rightarrow> sim_err res \<noteq> None \<and> sent (node_tag nd) s' = sent (node_tag nd) s
      | TransactionError te sig \<Rightarrow>
          (\<exists>tx. sig = first_signature sdk tx \<and> sent (node_tag nd) s' = sent (node_tag nd) s @ [tx])
      | Generic _ \<Rightarrow> True)"
  using assms by (rule send_errors)

definition failing_node :: "nat node" where
  "failing_node = (quiet_node MainNode)
     \<lparr>n_send := (\<lambda>tx w. (Inl (TransactionErrorKind (OtherTransactionError ''AccountInUse'')), w))\<rparr>"

lemma send_error_kinds_witness:
  "\<exists>s' sig. send_transaction decimal_sdk counting_runtime failing_node 5 [] start_world =
       (Inl (Err (ComputeBudget (TransactionError (OtherTransactionError ''AccountInUse'') sig))), s')
     \<and> (\<exists>tx. sig = first_signature decimal_sdk tx \<and> sent MainNode s' = [tx])"
proof -
  have "\<exists>s' sig. send_transaction decimal_sdk counting_runtime failing_node 5 [] start_world =
       (Inl (Err (ComputeBudget (TransactionError (OtherTransactionError ''AccountInUse'') sig))), s')"
    by (simp add: send_transaction_def evaluate_compute_ixs_def try_join_def pick_def counting_runtime_def
        compute_unit_price_def compute_budget_def new_sender_def generic_rpc_def call_def bindE_def
        map_faultE_def failing_node_def ledger_node_def send_tx_def Let_def budget_units_fits [simplified]
        send_fault_def decimal_sdk_def)
  then obtain s' sig where run:
    "send_transaction decimal_sdk counting_runtime failing_node 5 [] start_world =
       (Inl (Err (ComputeBudget (TransactionError (OtherTransactionError ''AccountInUse'') sig))), s')"
    by blast
  from send_error_kinds [OF run] run show ?thesis
    by (auto simp: sent_def failing_node_def)
qed

end
