(* ===== verification/Gateway.thy ===== *)
theory Gateway
  imports EffectiveSender
begin

text \<open>
  What the gateway task processor (\<open>crates/solana-gateway-task-processor/src/component.rs\<close>)
  needs of the Axelar programs' crates, as a record of third-party functions: addresses and
  derived addresses, builders of instructions (each may fail), and decoders. Then
  \<open>send_gateway_tx\<close>, through which every transaction for the gateway goes: a simulation error
  that the gateway marks as safe to pass over counts as success.
\<close>

section \<open>Messages and third-party code\<close>

type_synonym hash256 = "256 word"

record gmp_message =
  gmp_chain :: string
  gmp_id :: string
  gmp_source_address :: string
  gmp_destination_chain :: string
  gmp_destination_address :: string
  gmp_payload_hash :: bytes

datatype merkleised_payload =
    VerifierSetRotation hash256
  | NewMessages "(string \<times> string \<times> bytes) list"

record execute_data =
  ed_payload_root :: hash256
  ed_signing_set_root :: hash256
  ed_leaves :: "bytes list"
  ed_items :: merkleised_payload

record 'w gateway_libs =
  its_id :: pubkey
  governance_id :: pubkey
  gateway_id :: pubkey
  gas_service_id :: pubkey
  memo_id :: pubkey
  gateway_root :: pubkey
  command_id :: "string \<Rightarrow> string \<Rightarrow> hash256"
  incoming_message_pda :: "hash256 \<Rightarrow> pubkey"
  find_message_payload_pda :: "pubkey \<Rightarrow> pubkey \<Rightarrow> pubkey"
  verification_pda :: "hash256 \<Rightarrow> hash256 \<Rightarrow> pubkey"
  verifier_set_pda :: "hash256 \<Rightarrow> pubkey"
  gateway_err_proceed :: "u32 \<Rightarrow> bool"
  packet_size :: nat
  baseline_tx_size :: nat
  initialize_message_payload :: "pubkey \<Rightarrow> pubkey \<Rightarrow> hash256 \<Rightarrow> u64 \<Rightarrow> eyre + instruction"
  write_message_payload :: "pubkey \<Rightarrow> pubkey \<Rightarrow> hash256 \<Rightarrow> bytes \<Rightarrow> u64 \<Rightarrow> eyre + instruction"
  commit_message_payload :: "pubkey \<Rightarrow> pubkey \<Rightarrow> hash256 \<Rightarrow> eyre + instruction"
  close_message_payload :: "pubkey \<Rightarrow> pubkey \<Rightarrow> hash256 \<Rightarrow> eyre + instruction"
  its_execute_ix :: "node_tag \<Rightarrow> pubkey \<Rightarrow> pubkey \<Rightarrow> pubkey \<Rightarrow> gmp_message \<Rightarrow> bytes
                      \<Rightarrow> 'w \<Rightarrow> (eyre + instruction) \<times> 'w"
  governance_ix :: "pubkey \<Rightarrow> pubkey \<Rightarrow> pubkey \<Rightarrow> gmp_message \<Rightarrow> bytes \<Rightarrow> eyre + instruction"
  executable_ix :: "pubkey \<Rightarrow> gmp_message \<Rightarrow> bytes \<Rightarrow> pubkey \<Rightarrow> pubkey \<Rightarrow> eyre + instruction"
  initialize_session :: "pubkey \<Rightarrow> pubkey \<Rightarrow> hash256 \<Rightarrow> hash256 \<Rightarrow> eyre + instruction"
  verify_signature_ix :: "pubkey \<Rightarrow> pubkey \<Rightarrow> pubkey \<Rightarrow> hash256 \<Rightarrow> bytes \<Rightarrow> eyre + instruction"
  approve_message_ix :: "bytes \<Rightarrow> hash256 \<Rightarrow> pubkey \<Rightarrow> pubkey \<Rightarrow> pubkey \<Rightarrow> pubkey \<Rightarrow> eyre + instruction"
  rotate_signers_ix :: "pubkey \<Rightarrow> pubkey \<Rightarrow> pubkey \<Rightarrow> pubkey \<Rightarrow> pubkey \<Rightarrow> hash256 \<Rightarrow> eyre + instruction"
  refund_fees_ix :: "pubkey \<Rightarrow> pubkey \<Rightarrow> string \<Rightarrow> u64 \<Rightarrow> eyre + instruction"
  decode_execute_data :: "bytes \<Rightarrow> execute_data option"
  decode_message_payload :: "bytes \<Rightarrow> account_meta list option"
  read_incoming_message :: "bytes \<Rightarrow> bool option"
  read_gas_config :: "bytes \<Rightarrow> pubkey option"
  show_signature :: "signature \<Rightarrow> string"
  show_task_id :: "u128 \<Rightarrow> string"
  show_error :: "eyre \<Rightarrow> string"
  tx_reverted_event_id :: "string \<Rightarrow> string"
  cannot_execute_event_id :: "u128 \<Rightarrow> string"

text \<open>\<open>res.context(m)?\<close> on a built instruction, and \<open>res?\<close>.\<close>

definition built :: "string \<Rightarrow> eyre + instruction \<Rightarrow> (fault, 's, instruction) io" where
  "built m r = (case r of Inl e \<Rightarrow> failE (Err (Ctx m e)) | Inr ix \<Rightarrow> retE ix)"

definition lift_eyre :: "eyre + 'a \<Rightarrow> (fault, 's, 'a) io" where
  "lift_eyre r = (case r of Inl e \<Rightarrow> failE (Err e) | Inr x \<Rightarrow> retE x)"

definition with_context :: "string \<Rightarrow> (fault, 's, 'a) io \<Rightarrow> (fault, 's, 'a) io" where
  "with_context m = map_faultE (add_ctx m)"

section \<open>Sending to the gateway\<close>

type_synonym ('w, 'z) sender = "instruction list \<Rightarrow> (fault, ('w, 'z) world_scheme, signature) io"

fun should_continue :: "'w gateway_libs \<Rightarrow> fault \<Rightarrow> bool" where
  "should_continue libs (Err (ComputeBudget (SimulationError res))) =
     (case sim_err res of
        Some (InstructionError i (Custom err_code)) \<Rightarrow> gateway_err_proceed libs err_code
      | _ \<Rightarrow> False)"
| "should_continue libs _ = False"

definition send_gateway_tx ::
  "('w, 'z) sender \<Rightarrow> 'w gateway_libs \<Rightarrow> instruction \<Rightarrow> (fault, ('w, 'z) world_scheme, unit) io" where
  "send_gateway_tx send libs ix s =
     (case send [ix] s of
        (Inr sig, s') \<Rightarrow> (Inr (), s')
      | (Inl err, s') \<Rightarrow>
          if should_continue libs err then (Inr (), s')
          else (Inl (add_ctx ''irrecoverable error'' err), s'))"

text \<open>
  The transactions a step may have sent: none, or one that carries its instruction. A step that
  succeeded without sending was simulated with an error that the gateway lets pass.
\<close>

definition at_most_one ::
  "(instruction list \<Rightarrow> transaction \<Rightarrow> bool) \<Rightarrow> instruction list \<Rightarrow> transaction list \<Rightarrow> bool" where
  "at_most_one carrying ixs txs \<longleftrightarrow> txs = [] \<or> (\<exists>tx. txs = [tx] \<and> carrying ixs tx)"

lemma at_most_one_Nil [simp]: "at_most_one carrying ixs []"
  by (simp add: at_most_one_def)

lemma should_continue_simulation:
  "should_continue libs f \<Longrightarrow> \<exists>res. f = Err (ComputeBudget (SimulationError res))"
  by (cases "(libs, f)" rule: should_continue.cases) auto

lemma built_ok_iff [simp]: "built m r s = (Inr ix, s') \<longleftrightarrow> r = Inr ix \<and> s' = s"
  by (auto simp: built_def split: sum.splits)

lemma lift_eyre_ok_iff [simp]: "lift_eyre r s = (Inr x, s') \<longleftrightarrow> r = Inr x \<and> s' = s"
  by (auto simp: lift_eyre_def split: sum.splits)

lemma built_state [simp]: "snd (built m r s) = s"
  by (simp add: built_def split: sum.splits)

lemma lift_eyre_state [simp]: "snd (lift_eyre r s) = s"
  by (simp add: lift_eyre_def split: sum.splits)

lemma with_context_ok_iff [simp]: "with_context m f s = (Inr x, s') \<longleftrightarrow> f s = (Inr x, s')"
  by (simp add: with_context_def)

lemma with_context_state [simp]: "snd (with_context m f s) = snd (f s)"
  by (simp add: with_context_def)

lemma issues_with_context [issues_rules]: "issues P f \<Longrightarrow> issues P (with_context m f)"
  by (simp add: with_context_def moves_map_fault)

lemma confined_with_context [confined_rules]: "confined f \<Longrightarrow> confined (with_context m f)"
  by (simp add: with_context_def moves_map_fault)

lemma issues_built [issues_rules]: "issues P (built m r)"
  by (simp add: moves_def grows_refl)

lemma issues_lift_eyre [issues_rules]: "issues P (lift_eyre r)"
  by (simp add: moves_def grows_refl)

lemma confined_built [confined_rules]: "confined (built m r)"
  by (simp add: moves_def)

lemma confined_lift_eyre [confined_rules]: "confined (lift_eyre r)"
  by (simp add: moves_def)

text \<open>Requests that go to one node and send only transactions that carry allowed instructions.\<close>

definition sends_only ::
  "node_tag \<Rightarrow> (instruction list \<Rightarrow> transaction \<Rightarrow> bool) \<Rightarrow> (instruction list \<Rightarrow> bool) \<Rightarrow> request \<Rightarrow> bool" where
  "sends_only tag carrying allowed q \<longleftrightarrow>
     send_of tag q = [] \<and> \<not> is_send q \<or>
     (\<exists>t ixs. q = ReqSend tag t \<and> allowed ixs \<and> carrying ixs t)"

lemma sends_only_quiet: "\<not> is_send q \<Longrightarrow> sends_only tag carrying allowed q"
  by (simp add: sends_only_def)

lemma sends_only_mono:
  "sends_only tag carrying a q \<Longrightarrow> (\<And>ixs. a ixs \<Longrightarrow> b ixs) \<Longrightarrow> sends_only tag carrying b q"
  unfolding sends_only_def by blast

lemma sends_only_run:
  assumes "issues (sends_only tag carrying allowed) m" and "m s = (r, s')"
  shows "\<exists>txs. sent tag s' = sent tag s @ txs \<and>
    list_all (\<lambda>t. \<exists>ixs. allowed ixs \<and> carrying ixs t) txs \<and> (\<forall>k. k \<noteq> tag \<longrightarrow> sent k s' = sent k s)"
proof -
  from movesD [OF assms] obtain qs where qs: "wire s' = wire s @ qs"
    and all: "list_all (sends_only tag carrying allowed) qs" by (auto simp: grows_def)
  have "list_all (\<lambda>t. \<exists>ixs. allowed ixs \<and> carrying ixs t) (concat (map (send_of tag) qs))"
    using all by (induction qs) (auto simp: sends_only_def)
  moreover have "concat (map (send_of k) qs) = []" if "k \<noteq> tag" for k
    using all that by (induction qs) (auto simp: sends_only_def)
  ultimately show ?thesis using qs by (intro exI [of _ "concat (map (send_of tag) qs)"]) simp
qed

context tx_sender
begin

lemma send_only: "allowed ixs \<Longrightarrow> issues (sends_only tag carrying allowed) (send ixs)"
proof (rule issues_mono [OF send_issues])
  fix q
  assume "allowed ixs" and "node_of q = tag \<and> (\<forall>t. q = ReqSend tag t \<longrightarrow> carrying ixs t)"
  then show "sends_only tag carrying allowed q"
    by (cases q) (auto simp: sends_only_def)
qed

lemma gateway_tx_sends:
  assumes "send_gateway_tx send libs ix s = (r, s')"
  shows "\<exists>txs. sent tag s' = sent tag s @ txs \<and> at_most_one carrying [ix] txs"
proof -
  obtain q where q: "send [ix] s = (q, s')"
    using assms by (auto simp: send_gateway_tx_def split: prod.splits sum.splits if_splits)
  from send_at_most_one [OF q] show ?thesis
    by (auto simp: at_most_one_def)
qed

lemma gateway_tx_ok:
  assumes "send_gateway_tx send libs ix s = (Inr (), s')"
  shows "(\<exists>tx. carrying [ix] tx \<and> sent tag s' = sent tag s @ [tx])
    \<or> sent tag s' = sent tag s \<and> (\<exists>f. should_continue libs f \<and> send [ix] s = (Inl f, s'))"
proof (cases "send [ix] s")
  case (Pair q s1)
  show ?thesis
  proof (cases q)
    case (Inl f)
    with Pair assms have s': "should_continue libs f" "s1 = s'"
      by (auto simp: send_gateway_tx_def split: if_splits)
    with should_continue_simulation [OF s'(1)] send_simulation_error Pair Inl show ?thesis by auto
  next
    case (Inr sig)
    with Pair assms have "send [ix] s = (Inr sig, s')" by (simp add: send_gateway_tx_def)
    with send_ok show ?thesis by blast
  qed
qed

lemma gateway_tx_error:
  assumes "send_gateway_tx send libs ix s = (Inl f, s')"
  shows "\<exists>e. f = Err (Ctx ''irrecoverable error'' (ComputeBudget e))"
proof -
  from assms obtain g where "send [ix] s = (Inl g, s')" and "f = add_ctx ''irrecoverable error'' g"
    by (auto simp: send_gateway_tx_def split: prod.splits sum.splits if_splits)
  with send_fails_with_budget show ?thesis by fastforce
qed

lemma gateway_tx_only:
  assumes "allowed [ix]"
  shows "issues (sends_only tag carrying allowed) (send_gateway_tx send libs ix)"
proof (rule movesI)
  fix s r s'
  assume "send_gateway_tx send libs ix s = (r, s')"
  then obtain q where "send [ix] s = (q, s')"
    by (auto simp: send_gateway_tx_def split: prod.splits sum.splits if_splits)
  with send_only [of allowed, OF assms] show "grows (sends_only tag carrying allowed) s s'"
    by (rule movesD)
qed

lemma confined_gateway_tx: "confined (send_gateway_tx send libs ix)"
proof (rule movesI)
  fix s r s'
  assume "send_gateway_tx send libs ix s = (r, s')"
  then obtain q where "send [ix] s = (q, s')"
    by (auto simp: send_gateway_tx_def split: prod.splits sum.splits if_splits)
  with send_confined show "same_component s s'" by (rule movesD)
qed

end

end
