(* ===== verification/MessagePayload.thy ===== *)
theory MessagePayload
  imports Gateway
begin

text \<open>
  \<open>crates/solana-gateway-task-processor/src/component/message_payload.rs\<close>: uploading a message
  payload to its account on chain in three steps, initialize, write in chunks (concurrently and
  in any order), commit. The sender of transactions is an argument; the properties hold for
  every sender that satisfies \<open>tx_sender\<close>, and are stated for \<open>send_transaction\<close>.
\<close>

section \<open>Definitions\<close>

definition message_to_command_id :: "'w gateway_libs \<Rightarrow> gmp_message \<Rightarrow> hash256" where
  "message_to_command_id libs m = command_id libs (gmp_chain m) (gmp_id m)"

text \<open>Packet size less the baseline transaction, a length byte and the empirical overhead.\<close>

definition max_chunk_size :: "'w gateway_libs \<Rightarrow> nat" where
  "max_chunk_size libs = packet_size libs - baseline_tx_size libs - 1 - 35"

function chunks :: "nat \<Rightarrow> 'a list \<Rightarrow> 'a list list" where
  "chunks n xs = (if xs = [] \<or> n = 0 then [] else take n xs # chunks n (drop n xs))"
  by pat_completeness auto
termination
  by (relation "measure (\<lambda>(n, xs). length xs)") auto

declare chunks.simps [simp del]

text \<open>A chunk and its offset; \<open>[T]::chunks\<close> panics on size zero.\<close>

definition chunks_with_offset :: "bytes \<Rightarrow> nat \<Rightarrow> fault + (bytes \<times> nat) list" where
  "chunks_with_offset data chunk_size =
     (if chunk_size = 0 then Inl (Panic ''chunk size must be non-zero'')
      else Inr (map (\<lambda>(index, chunk). (chunk, min (index * chunk_size) (2 ^ 64 - 1)))
                  (enumerate 0 (chunks chunk_size data))))"

definition initialize ::
  "('w, 'z) sender \<Rightarrow> 'w gateway_libs \<Rightarrow> pubkey \<Rightarrow> hash256 \<Rightarrow> bytes
     \<Rightarrow> (fault, ('w, 'z) world_scheme, unit) io" where
  "initialize send libs kp cmd payload =
     bindE (ok_or (Err (Ctx ''Unexpected u64 overflow in buffer size'' (Msg ''out of range integral type conversion attempted'')))
              (u64_of_len (length payload))) (\<lambda>len.
     bindE (built ''failed to construct an instruction to initialize the message payload pda''
              (initialize_message_payload libs (gateway_root libs) kp cmd len)) (\<lambda>ix.
     with_context ''faled to initialize the message payload pda'' (send_gateway_tx send libs ix)))"

definition write_ixs ::
  "'w gateway_libs \<Rightarrow> pubkey \<Rightarrow> hash256 \<Rightarrow> (bytes \<times> nat) list \<Rightarrow> fault + (nat \<times> instruction) list" where
  "write_ixs libs kp cmd = traverse (\<lambda>(bytes, offset).
     case u64_of_len offset of
       None \<Rightarrow> Inl (Err (Ctx ''Unexpected u64 overflow in offset'' (Msg ''out of range integral type conversion attempted'')))
     | Some off \<Rightarrow>
         (case write_message_payload libs (gateway_root libs) kp cmd bytes off of
            Inl e \<Rightarrow> Inl (Err (Ctx ''failed to construct an instruction to write to the message payload pda'' e))
          | Inr ix \<Rightarrow> Inr (offset, ix)))"

definition write_one ::
  "('w, 'z) sender \<Rightarrow> 'w gateway_libs \<Rightarrow> nat \<times> instruction \<Rightarrow> (fault, ('w, 'z) world_scheme, unit) io" where
  "write_one send libs w =
     (case w of (offset, ix) \<Rightarrow>
        with_context (''failed to  write message payload at offset '' @ show_nat offset)
          (send_gateway_tx send libs ix))"

definition write_chunks ::
  "('w, 'z) sender \<Rightarrow> 'w gateway_libs \<Rightarrow> 'w runtime \<Rightarrow> pubkey \<Rightarrow> hash256 \<Rightarrow> bytes
     \<Rightarrow> (fault, ('w, 'z) world_scheme, unit) io" where
  "write_chunks send libs rt kp cmd payload =
     bindE (liftE (chunks_with_offset payload (max_chunk_size libs))) (\<lambda>cs.
     bindE (liftE (write_ixs libs kp cmd cs)) (\<lambda>ixs.
     bindE (try_unordered (pick rt) (write_one send libs) ixs) (\<lambda>_. retE ())))"

definition commit ::
  "('w, 'z) sender \<Rightarrow> 'w gateway_libs \<Rightarrow> pubkey \<Rightarrow> hash256 \<Rightarrow> (fault, ('w, 'z) world_scheme, unit) io" where
  "commit send libs kp cmd =
     bindE (built ''failed to construct an instruction to commit the message payload pda''
              (commit_message_payload libs (gateway_root libs) kp cmd)) (\<lambda>ix.
     with_context ''failed to commit the message payload pda'' (send_gateway_tx send libs ix))"

definition upload ::
  "('w, 'z) sender \<Rightarrow> 'w gateway_libs \<Rightarrow> 'w runtime \<Rightarrow> pubkey \<Rightarrow> gmp_message \<Rightarrow> bytes
     \<Rightarrow> (fault, ('w, 'z) world_scheme, pubkey) io" where
  "upload send libs rt kp message payload =
     (let cmd = message_to_command_id libs message in
      bindE (initialize send libs kp cmd payload) (\<lambda>_.
      bindE (write_chunks send libs rt kp cmd payload) (\<lambda>_.
      bindE (commit send libs kp cmd) (\<lambda>_.
      retE (find_message_payload_pda libs
              (incoming_message_pda libs (message_to_command_id libs message)) kp)))))"

section \<open>Chunks\<close>

lemma chunks_Nil [simp]: "chunks n [] = []"
  by (simp add: chunks.simps)

lemma chunks_sizes: "c \<in> set (chunks n xs) \<Longrightarrow> c \<noteq> [] \<and> length c \<le> n"
proof (induction n xs rule: chunks.induct)
  case (1 n xs)
  then show ?case by (auto simp: chunks.simps [of n xs] split: if_splits)
qed

text \<open>Writing at an offset, as the on-chain program does it, and the chunks from an offset on.\<close>

definition write_at :: "'a list \<times> nat \<Rightarrow> 'a list \<Rightarrow> 'a list" where
  "write_at w buf = (case w of (c, off) \<Rightarrow> take off buf @ c @ drop (off + length c) buf)"

fun placed :: "nat \<Rightarrow> nat \<Rightarrow> 'a list list \<Rightarrow> ('a list \<times> nat) list" where
  "placed n i [] = []"
| "placed n i (c # cs) = (c, i * n) # placed n (Suc i) cs"

lemma placed_enumerate: "map (\<lambda>(i, c). (c, i * n)) (enumerate i cs) = placed n i cs"
  by (induction cs arbitrary: i) simp_all

text \<open>Which byte a write puts at a position of the buffer.\<close>

lemma nth_write_at:
  assumes "off + length c \<le> length buf" and "k < length buf"
  shows "write_at (c, off) buf ! k = (if off \<le> k \<and> k < off + length c then c ! (k - off) else buf ! k)"
  using assms by (auto simp: write_at_def nth_append min_def)

lemma length_write_at: "off + length c \<le> length buf \<Longrightarrow> length (write_at (c, off) buf) = length buf"
  by (simp add: write_at_def)

definition agrees :: "'a list \<Rightarrow> 'a list \<times> nat \<Rightarrow> bool" where
  "agrees data w \<longleftrightarrow> (case w of (c, off) \<Rightarrow> off + length c \<le> length data \<and> c = take (length c) (drop off data))"

definition covers :: "('a list \<times> nat) list \<Rightarrow> nat \<Rightarrow> bool" where
  "covers ws k \<longleftrightarrow> list_ex (\<lambda>(c, off). off \<le> k \<and> k < off + length c) ws"

lemma fold_write_at:
  assumes "list_all (agrees data) ws" and "length buf = length data"
    and "\<forall>k < length data. covers ws k \<or> buf ! k = data ! k"
  shows "fold write_at ws buf = data"
  using assms
proof (induction ws arbitrary: buf)
  case Nil
  then show ?case by (simp add: covers_def list_eq_iff_nth_eq)
next
  case (Cons w ws)
  obtain c off where w: "w = (c, off)" by fastforce
  with Cons.prems have fits: "off + length c \<le> length buf" and c: "c = take (length c) (drop off data)"
    by (auto simp: agrees_def)
  have "\<forall>k < length data. covers ws k \<or> write_at w buf ! k = data ! k"
  proof (intro allI impI)
    fix k
    assume k: "k < length data"
    show "covers ws k \<or> write_at w buf ! k = data ! k"
    proof (cases "off \<le> k \<and> k < off + length c")
      case True
      with k Cons.prems(2) fits have "write_at w buf ! k = c ! (k - off)" by (simp add: w nth_write_at)
      also have "\<dots> = take (length c) (drop off data) ! (k - off)" using c by simp
      also have "\<dots> = data ! (off + (k - off))"
      proof -
        have "k - off < length c" using True by linarith
        moreover have "off \<le> length data" using fits Cons.prems(2) by simp
        ultimately show ?thesis by (simp add: nth_drop)
      qed
      also have "\<dots> = data ! k" using True by simp
      finally show ?thesis by simp
    next
      case False
      then have "covers (w # ws) k \<longleftrightarrow> covers ws k" by (auto simp: covers_def w)
      with False k Cons.prems fits show ?thesis by (auto simp: w nth_write_at)
    qed
  qed
  then show ?case using Cons.IH [of "write_at w buf"] Cons.prems fits by (simp add: w length_write_at)
qed

lemma placed_chunks:
  assumes "0 < n" and "length pre = i * n"
  shows "list_all (agrees (pre @ xs)) (placed n i (chunks n xs)) \<and>
     (\<forall>k. length pre \<le> k \<and> k < length pre + length xs \<longrightarrow> covers (placed n i (chunks n xs)) k)"
  using assms(2,1)
proof (induction n xs arbitrary: pre i rule: chunks.induct)
  case (1 n xs)
  show ?case
  proof (cases "xs = []")
    case True
    then show ?thesis by auto
  next
    case False
    have eq: "chunks n xs = take n xs # chunks n (drop n xs)"
      using False 1(3) by (simp add: chunks.simps [of n xs])
    have first: "agrees (pre @ xs) (take n xs, i * n)"
      using 1(2) by (auto simp: agrees_def min_def)
    show ?thesis
    proof (cases "length xs \<le> n")
      case True
      then show ?thesis using first 1(2) by (simp add: eq covers_def)
    next
      case long: False
      have "length (pre @ take n xs) = Suc i * n" using 1(2) long by simp
      from 1(1) [OF _ this 1(3)] False 1(3)
      have IH: "list_all (agrees ((pre @ take n xs) @ drop n xs)) (placed n (Suc i) (chunks n (drop n xs)))"
        "\<forall>k. length (pre @ take n xs) \<le> k \<and> k < length (pre @ take n xs) + length (drop n xs) \<longrightarrow>
           covers (placed n (Suc i) (chunks n (drop n xs))) k" by auto
      have "covers (placed n i (chunks n xs)) k" if "length pre \<le> k \<and> k < length pre + length xs" for k
      proof (cases "k < length pre + n")
        case True
        with that 1(2) long show ?thesis by (simp add: eq covers_def)
      next
        case False
        with that IH(2) long have "covers (placed n (Suc i) (chunks n (drop n xs))) k" by auto
        then show ?thesis by (simp add: eq covers_def)
      qed
      with IH(1) first show ?thesis by (simp add: eq)
    qed
  qed
qed

lemma concat_chunks: "0 < n \<Longrightarrow> concat (chunks n xs) = xs"
proof (induction n xs rule: chunks.induct)
  case (1 n xs)
  then show ?case by (cases "xs = []") (simp_all add: chunks.simps [of n xs])
qed

lemma chunks_with_offset_placed:
  assumes "0 < n" and "length data < 2 ^ 64"
  shows "chunks_with_offset data n = Inr (placed n 0 (chunks n data))"
proof -
  have "list_all (\<lambda>(c, off). off < 2 ^ 64) (placed n 0 (chunks n data))"
    using placed_chunks [OF assms(1), of "[]" 0 data] assms(2)
    by (auto simp: list_all_iff agrees_def)
  moreover have "list_all (\<lambda>(c, off). off < 2 ^ 64) (placed n i cs) \<Longrightarrow>
      map (\<lambda>(index, chunk). (chunk, min (index * n) (2 ^ 64 - 1))) (enumerate i cs) = placed n i cs" for i cs
    by (induction cs arbitrary: i) auto
  ultimately show ?thesis using assms(1) by (simp add: chunks_with_offset_def)
qed

section \<open>What an upload sends\<close>

lemma write_one_pair:
  "write_one send libs (offset, ix) =
     with_context (''failed to  write message payload at offset '' @ show_nat offset) (send_gateway_tx send libs ix)"
  by (simp add: write_one_def)

definition upload_ix :: "'w gateway_libs \<Rightarrow> pubkey \<Rightarrow> hash256 \<Rightarrow> instruction list \<Rightarrow> bool" where
  "upload_ix libs kp cmd ixs \<longleftrightarrow> (\<exists>ix. ixs = [ix] \<and> (
     (\<exists>len. initialize_message_payload libs (gateway_root libs) kp cmd len = Inr ix) \<or>
     (\<exists>b off. write_message_payload libs (gateway_root libs) kp cmd b off = Inr ix) \<or>
     commit_message_payload libs (gateway_root libs) kp cmd = Inr ix))"

lemma write_ixs_ok:
  assumes "write_ixs libs kp cmd cs = Inr ixs"
  shows "list_all2 (\<lambda>(b, offset) (offset', ix). offset' = offset \<and>
     (\<exists>off. u64_of_len offset = Some off \<and>
        write_message_payload libs (gateway_root libs) kp cmd b off = Inr ix)) cs ixs"
proof -
  from assms have "list_all2 (\<lambda>x y. (case x of (b, offset) \<Rightarrow>
     case u64_of_len offset of
       None \<Rightarrow> Inl (Err (Ctx ''Unexpected u64 overflow in offset'' (Msg ''out of range integral type conversion attempted'')))
     | Some off \<Rightarrow>
         (case write_message_payload libs (gateway_root libs) kp cmd b off of
            Inl e \<Rightarrow> Inl (Err (Ctx ''failed to construct an instruction to write to the message payload pda'' e))
          | Inr ix \<Rightarrow> Inr (offset, ix))) = Inr y) cs ixs"
    by (simp add: write_ixs_def traverse_ok_iff)
  then show ?thesis
    by (rule list_all2_mono) (auto split: prod.splits option.splits sum.splits)
qed

lemma write_ixs_upload:
  assumes "write_ixs libs kp cmd cs = Inr ixs" and "(offset, ix) \<in> set ixs"
  shows "upload_ix libs kp cmd [ix]"
proof -
  from assms(2) obtain i where i: "i < length ixs" "ixs ! i = (offset, ix)" by (auto simp: in_set_conv_nth)
  from list_all2_nthD2 [OF write_ixs_ok [OF assms(1)] i(1)] i(2) show ?thesis
    by (auto simp: upload_ix_def split: prod.splits)
qed

context tx_sender
begin

lemma initialize_only:
  "issues (sends_only tag carrying (upload_ix libs kp cmd)) (initialize send libs kp cmd payload)"
  unfolding initialize_def
  by (intro grow.bind grow.okor grow.bind_ok [OF issues_built] issues_with_context gateway_tx_only)
    (auto simp: upload_ix_def)

lemma commit_only:
  "issues (sends_only tag carrying (upload_ix libs kp cmd)) (commit send libs kp cmd)"
  unfolding commit_def
  by (intro grow.bind_ok [OF issues_built] issues_with_context gateway_tx_only)
    (auto simp: upload_ix_def)

lemma write_only:
  "issues (sends_only tag carrying (upload_ix libs kp cmd)) (write_chunks send libs rt kp cmd payload)"
proof -
  have ix: "issues (sends_only tag carrying (upload_ix libs kp cmd)) (send_gateway_tx send libs ix)"
    if "liftE (write_ixs libs kp cmd cs) s = (Inr ixs, s')" "(offset, ix) \<in> set ixs"
    for cs s ixs s' offset ix
  proof -
    from that(1) have "write_ixs libs kp cmd cs = Inr ixs" by (cases "write_ixs libs kp cmd cs") auto
    from gateway_tx_only [of "upload_ix libs kp cmd", OF write_ixs_upload [OF this that(2)]] show ?thesis .
  qed
  show ?thesis unfolding write_chunks_def write_one_def
    by (intro grow.bind grow.lift grow.bind_ok [OF grow.lift] grow.try_all moves_prod grow.ret issues_with_context)
      (auto dest: ix)
qed

lemma upload_only:
  "issues (sends_only tag carrying (upload_ix libs kp (message_to_command_id libs m)))
     (upload send libs rt kp m payload)"
  unfolding upload_def Let_def
  by (intro grow.bind initialize_only write_only commit_only grow.ret)

lemma upload_confined: "confined (upload send libs rt kp m payload)"
  unfolding upload_def Let_def initialize_def write_chunks_def write_one_def commit_def
  by (intro confined_rules confined_gateway_tx)

text \<open>A completed set of writes: what each sent, in some order of the chunks.\<close>

lemma writes_sent:
  "mapE (write_one send libs) zs s = (Inr us, s') \<Longrightarrow>
   \<exists>tss. sent tag s' = sent tag s @ concat tss \<and>
     list_all2 (\<lambda>(offset, ix) txs. at_most_one carrying [ix] txs) zs tss"
proof (induction zs arbitrary: s us)
  case (Cons z zs)
  obtain offset ix where z: "z = (offset, ix)" by fastforce
  from Cons.prems obtain s1 vs where one: "send_gateway_tx send libs ix s = (Inr (), s1)"
    and rest: "mapE (write_one send libs) zs s1 = (Inr vs, s')"
    by (auto simp: z write_one_pair elim!: bindE_okE)
  from gateway_tx_sends [OF one] Cons.IH [OF rest] obtain txs tss where
    "sent tag s1 = sent tag s @ txs" "at_most_one carrying [ix] txs"
    "sent tag s' = sent tag s1 @ concat tss"
    "list_all2 (\<lambda>(offset, ix) txs. at_most_one carrying [ix] txs) zs tss" by blast
  then show ?case by (intro exI [of _ "txs # tss"]) (simp add: z)
qed simp

lemma upload_ok:
  assumes "upload send libs rt kp m payload s = (Inr pda, s')"
  shows "\<exists>len ix0 cs ixs zs ixc t0 tss tc. let cmd = message_to_command_id libs m in
     pda = find_message_payload_pda libs (incoming_message_pda libs cmd) kp \<and>
     u64_of_len (length payload) = Some len \<and>
     initialize_message_payload libs (gateway_root libs) kp cmd len = Inr ix0 \<and>
     chunks_with_offset payload (max_chunk_size libs) = Inr cs \<and>
     write_ixs libs kp cmd cs = Inr ixs \<and> mset zs = mset ixs \<and>
     commit_message_payload libs (gateway_root libs) kp cmd = Inr ixc \<and>
     sent tag s' = sent tag s @ t0 @ concat tss @ tc \<and>
     at_most_one carrying [ix0] t0 \<and>
     list_all2 (\<lambda>(offset, ix) txs. at_most_one carrying [ix] txs) zs tss \<and>
     at_most_one carrying [ixc] tc"
proof -
  let ?cmd = "message_to_command_id libs m"
  from assms obtain s1 s2 where i: "initialize send libs kp ?cmd payload s = (Inr (), s1)"
    and w: "write_chunks send libs rt kp ?cmd payload s1 = (Inr (), s2)"
    and c: "commit send libs kp ?cmd s2 = (Inr (), s')"
    and pda: "pda = find_message_payload_pda libs (incoming_message_pda libs ?cmd) kp"
    by (auto simp: upload_def Let_def elim!: bindE_okE)
  from i obtain len ix0 where len: "u64_of_len (length payload) = Some len"
    and ix0: "initialize_message_payload libs (gateway_root libs) kp ?cmd len = Inr ix0"
    and s1: "send_gateway_tx send libs ix0 s = (Inr (), s1)"
    by (cases "u64_of_len (length payload)") (auto simp: initialize_def elim!: bindE_okE)
  from w obtain cs ixs where cs: "chunks_with_offset payload (max_chunk_size libs) = Inr cs"
    and ixs: "write_ixs libs kp ?cmd cs = Inr ixs"
    and "\<exists>us. try_unordered (pick rt) (write_one send libs) ixs s1 = (Inr us, s2)"
    by (auto simp: write_chunks_def liftE_def elim!: bindE_okE split: sum.splits)
  then obtain us where t: "try_unordered (pick rt) (write_one send libs) ixs s1 = (Inr us, s2)" by blast
  from try_unordered_order [OF t] obtain zs where zs: "mset zs = mset ixs"
    and run: "mapE (write_one send libs) zs s1 = (Inr us, s2)"
    by blast
  from writes_sent [OF run] obtain tss where
    tss: "sent tag s2 = sent tag s1 @ concat tss"
      "list_all2 (\<lambda>(offset, ix) txs. at_most_one carrying [ix] txs) zs tss" by blast
  from c obtain ixc where ixc: "commit_message_payload libs (gateway_root libs) kp ?cmd = Inr ixc"
    and s3: "send_gateway_tx send libs ixc s2 = (Inr (), s')"
    by (auto simp: commit_def elim!: bindE_okE)
  from gateway_tx_sends [OF s1] gateway_tx_sends [OF s3] obtain t0 tc where
    "sent tag s1 = sent tag s @ t0" "at_most_one carrying [ix0] t0"
    "sent tag s' = sent tag s2 @ tc" "at_most_one carrying [ixc] tc" by blast
  with tss len ix0 cs ixs zs ixc pda show ?thesis
    by (intro exI [of _ len] exI [of _ ix0] exI [of _ cs] exI [of _ ixs] exI [of _ zs] exI [of _ ixc]
        exI [of _ t0] exI [of _ tss] exI [of _ tc]) (simp add: Let_def)
qed

end

text \<open>When every transaction goes through and every instruction can be built, so does the upload.\<close>

lemma write_chunks_succeeds:
  assumes ok: "\<And>ix s. \<exists>s'. send_gateway_tx send libs ix s = (Inr (), s')"
    and size: "0 < max_chunk_size libs" "length payload < 2 ^ 64"
    and built: "\<And>b off. \<exists>ix. write_message_payload libs (gateway_root libs) kp cmd b off = Inr ix"
  shows "\<exists>s'. write_chunks send libs rt kp cmd payload s = (Inr (), s')"
proof -
  let ?cs = "placed (max_chunk_size libs) 0 (chunks (max_chunk_size libs) payload)"
  have cs: "chunks_with_offset payload (max_chunk_size libs) = Inr ?cs"
    using chunks_with_offset_placed [OF size] .
  have "list_all (\<lambda>(c, off). off < 2 ^ 64) ?cs"
    using placed_chunks [OF size(1), of "[]" 0 payload] size(2) by (auto simp: list_all_iff agrees_def)
  then have "\<exists>ixs. write_ixs libs kp cmd cs = Inr ixs" if "set cs \<subseteq> set ?cs" for cs
    using that
  proof (induction cs)
    case (Cons w ws)
    obtain b off where w: "w = (b, off)" by fastforce
    obtain ix where "write_message_payload libs (gateway_root libs) kp cmd b (of_nat off) = Inr ix"
      using built by blast
    with Cons show ?case by (auto simp: write_ixs_def w list_all_iff)
  qed (simp add: write_ixs_def)
  then obtain ixs where ixs: "write_ixs libs kp cmd ?cs = Inr ixs" by blast
  have "\<exists>us s'. try_unordered (pick rt) (write_one send libs) ixs s = (Inr us, s')"
  proof (cases "try_unordered (pick rt) (write_one send libs) ixs s")
    case (Pair r s')
    show ?thesis
    proof (cases r)
      case (Inl e)
      from try_unordered_error [OF Pair [unfolded Inl]] obtain offset ix s0 s1 where
        "write_one send libs (offset, ix) s0 = (Inl e, s1)" by auto
      with ok [of ix s0] show ?thesis by (auto simp: write_one_pair with_context_def map_faultE_def)
    qed (use Pair in blast)
  qed
  then show ?thesis by (auto simp: write_chunks_def cs ixs bindE_def)
qed

lemma upload_succeeds:
  assumes ok: "\<And>ix s. \<exists>s'. send_gateway_tx send libs ix s = (Inr (), s')"
    and size: "0 < max_chunk_size libs" "length payload < 2 ^ 64"
    and built: "\<And>cmd len. \<exists>ix. initialize_message_payload libs (gateway_root libs) kp cmd len = Inr ix"
      "\<And>cmd b off. \<exists>ix. write_message_payload libs (gateway_root libs) kp cmd b off = Inr ix"
      "\<And>cmd. \<exists>ix. commit_message_payload libs (gateway_root libs) kp cmd = Inr ix"
  shows "\<exists>pda s'. upload send libs rt kp m payload s = (Inr pda, s')"
proof -
  let ?cmd = "message_to_command_id libs m"
  obtain ix0 where ix0: "initialize_message_payload libs (gateway_root libs) kp ?cmd (of_nat (length payload)) = Inr ix0"
    using built(1) by blast
  obtain ixc where ixc: "commit_message_payload libs (gateway_root libs) kp ?cmd = Inr ixc"
    using built(3) by blast
  obtain s1 where s1: "send_gateway_tx send libs ix0 s = (Inr (), s1)" using ok by blast
  obtain s2 where s2: "write_chunks send libs rt kp ?cmd payload s1 = (Inr (), s2)"
    using write_chunks_succeeds [where kp = kp and cmd = ?cmd and send = send and libs = libs, OF ok size built(2)] by blast
  obtain s3 where s3: "send_gateway_tx send libs ixc s2 = (Inr (), s3)" using ok by blast
  have "initialize send libs kp ?cmd payload s = (Inr (), s1)"
    using size(2) by (simp add: initialize_def ix0 built_def with_context_def map_faultE_def s1)
  moreover note s2
  moreover have "commit send libs kp ?cmd s2 = (Inr (), s3)"
    by (simp add: commit_def ixc built_def with_context_def map_faultE_def s3)
  ultimately show ?thesis by (simp add: upload_def Let_def bindE_def)
qed

section \<open>Properties\<close>

text \<open>
  C34. Writing the chunks of a payload at their offsets, in whatever order the writes land,
  rebuilds the payload in a buffer of its length; the chunks are not empty, none is longer than
  the chunk size, and one after the other they are the payload.
\<close>

theorem chunks_rebuild_payload:
  assumes "0 < n" and "length data < 2 ^ 64" and "chunks_with_offset data n = Inr cs"
    and "mset ws = mset cs" and "length buf = length data"
  shows "fold write_at ws buf = data \<and> concat (map fst cs) = data \<and>
    list_all (\<lambda>(c, off). c \<noteq> [] \<and> length c \<le> n) cs"
proof -
  have cs: "cs = placed n 0 (chunks n data)"
    using chunks_with_offset_placed [OF assms(1,2)] assms(3) by simp
  from assms(4) have set: "set ws = set cs" by (metis set_mset_mset)
  have agree: "list_all (agrees data) cs" and cover: "\<forall>k < length data. covers cs k"
    using placed_chunks [OF assms(1), of "[]" 0 data] by (auto simp: cs)
  from agree set have "list_all (agrees data) ws" by (simp add: list_all_iff)
  moreover from cover set have "\<forall>k < length data. covers ws k" by (auto simp: covers_def list_ex_iff)
  ultimately have "fold write_at ws buf = data" using assms(5) by (intro fold_write_at) auto
  moreover have fst: "map fst (placed n i xs) = xs" for i and xs :: "bytes list"
    by (induction xs arbitrary: i) simp_all
  moreover have "list_all (\<lambda>(c, off). c \<noteq> [] \<and> length c \<le> n) cs"
  proof -
    have "\<forall>c \<in> set (map fst cs). c \<noteq> [] \<and> length c \<le> n"
      using chunks_sizes by (auto simp: cs fst simp del: set_map)
    then show ?thesis by (force simp: list_all_iff)
  qed
  ultimately show ?thesis using concat_chunks [OF assms(1)] by (simp add: cs)
qed

lemma chunks_rebuild_payload_witness:
  "fold write_at [([7], 6), ([1, 2, 3], 0), ([4, 5, 6], 3)] [0, 0, 0, 0, 0, 0, 0] = [1, 2, 3, 4, 5, 6, 7 :: u8]"
proof -
  have "chunks_with_offset [1, 2, 3, 4, 5, 6, 7] 3 = Inr [([1, 2, 3], 0), ([4, 5, 6], 3), ([7], 6)]"
    by (simp add: chunks_with_offset_def chunks.simps [of 3])
  from chunks_rebuild_payload [OF _ _ this, of "[([7], 6), ([1, 2, 3], 0), ([4, 5, 6], 3)]" "[0, 0, 0, 0, 0, 0, 0]"]
  show ?thesis by simp
qed

text \<open>
  An upload that succeeds has initialized the account with the payload's length, then
  written every chunk (in some order, each in a transaction of its own), then committed; each of
  these steps sent one transaction that carries its instruction, or none when its simulation
  failed with an error that the gateway marks as safe to pass over; nothing else was sent.
\<close>

theorem upload_sends_steps_in_order:
  assumes "upload (send_transaction sdk rt nd kp) libs rt kp m payload s = (Inr pda, s')"
  shows "\<exists>len ix0 cs ixs zs ixc t0 tss tc. let cmd = message_to_command_id libs m in
     pda = find_message_payload_pda libs (incoming_message_pda libs cmd) kp \<and>
     u64_of_len (length payload) = Some len \<and>
     initialize_message_payload libs (gateway_root libs) kp cmd len = Inr ix0 \<and>
     chunks_with_offset payload (max_chunk_size libs) = Inr cs \<and>
     write_ixs libs kp cmd cs = Inr ixs \<and> mset zs = mset ixs \<and>
     commit_message_payload libs (gateway_root libs) kp cmd = Inr ixc \<and>
     sent (node_tag nd) s' = sent (node_tag nd) s @ t0 @ concat tss @ tc \<and>
     at_most_one (carries sdk kp) [ix0] t0 \<and>
     list_all2 (\<lambda>(offset, ix) txs. at_most_one (carries sdk kp) [ix] txs) zs tss \<and>
     at_most_one (carries sdk kp) [ixc] tc"
  using assms by (rule es.upload_ok)

text \<open>Builders that encode their arguments, and a chunk size of two bytes.\<close>

definition tagged_ix :: "u8 \<Rightarrow> eyre + instruction" where
  "tagged_ix b = Inr \<lparr>ix_program = 1, ix_metas = [], ix_data = [b]\<rparr>"

definition sample_gateway :: "nat gateway_libs" where
  "sample_gateway =
     \<lparr>its_id = 11, governance_id = 12, gateway_id = 13, gas_service_id = 14, memo_id = 15, gateway_root = 16,
      command_id = (\<lambda>chain i. of_nat (length chain + length i)),
      incoming_message_pda = (\<lambda>c. c), find_message_payload_pda = (\<lambda>a k. a + 1),
      verification_pda = (\<lambda>a b. a), verifier_set_pda = (\<lambda>a. a), gateway_err_proceed = (\<lambda>c. c = 7),
      packet_size = 40, baseline_tx_size = 2,
      initialize_message_payload = (\<lambda>r k c n. tagged_ix 1),
      write_message_payload = (\<lambda>r k c b off. tagged_ix 2),
      commit_message_payload = (\<lambda>r k c. tagged_ix 3),
      close_message_payload = (\<lambda>r k c. tagged_ix 4),
      its_execute_ix = (\<lambda>t a b c m p w. (tagged_ix 5, Suc w)),
      governance_ix = (\<lambda>a b c m p. tagged_ix 6),
      executable_ix = (\<lambda>a m p b c. tagged_ix 7),
      initialize_session = (\<lambda>a b c d. tagged_ix 8),
      verify_signature_ix = (\<lambda>a b c d e. tagged_ix 9),
      approve_message_ix = (\<lambda>a b c d e f. tagged_ix 10),
      rotate_signers_ix = (\<lambda>a b c d e f. tagged_ix 11),
      refund_fees_ix = (\<lambda>a b i n. tagged_ix 12),
      decode_execute_data = (\<lambda>b. Some \<lparr>ed_payload_root = 1, ed_signing_set_root = 2,
        ed_leaves = [[1], [2]], ed_items = VerifierSetRotation 3\<rparr>),
      decode_message_payload = (\<lambda>b. Some (map (\<lambda>k. \<lparr>am_pubkey = ucast k, am_signer = False, am_writable = True\<rparr>) b)),
      read_incoming_message = (\<lambda>b. Some (b = [1])),
      read_gas_config = (\<lambda>b. Some (of_nat (length b))),
      show_signature = decimal, show_task_id = decimal, show_error = (\<lambda>e. ''error''),
      tx_reverted_event_id = (\<lambda>i. i), cannot_execute_event_id = decimal\<rparr>"

lemma ledger_gateway_tx:
  "\<exists>s'. send_gateway_tx (send_transaction decimal_sdk rt (ledger_node tag hist db) kp) libs ix s =
     (Inr (), s')"
  using ledger_send_ok [of rt tag hist db kp "[ix]" s] by (auto simp: send_gateway_tx_def)

definition sample_message :: gmp_message where
  "sample_message = \<lparr>gmp_chain = ''eth'', gmp_id = ''0x1'', gmp_source_address = ''0xa'',
     gmp_destination_chain = ''solana'', gmp_destination_address = ''15'', gmp_payload_hash = []\<rparr>"

lemma upload_sends_steps_in_order_witness:
  "\<exists>pda s' t0 tss tc. upload (send_transaction decimal_sdk counting_runtime (quiet_node MainNode) 5) sample_gateway
       counting_runtime 5 sample_message [1, 2, 3] start_world = (Inr pda, s') \<and>
     sent MainNode s' = t0 @ concat tss @ tc \<and> length tss = 2"
proof -
  have "\<exists>pda s'. upload (send_transaction decimal_sdk counting_runtime (quiet_node MainNode) 5) sample_gateway
       counting_runtime 5 sample_message [1, 2, 3] start_world = (Inr pda, s')"
    by (rule upload_succeeds)
      (auto simp: ledger_gateway_tx max_chunk_size_def sample_gateway_def tagged_ix_def)
  then obtain pda s' where run: "upload (send_transaction decimal_sdk counting_runtime (quiet_node MainNode) 5)
       sample_gateway counting_runtime 5 sample_message [1, 2, 3] start_world = (Inr pda, s')" by blast
  have max: "max_chunk_size sample_gateway = 2" by (simp add: max_chunk_size_def sample_gateway_def)
  have cs: "chunks_with_offset [1, 2, 3] 2 = Inr [([1, 2], 0), ([3 :: u8], 2)]"
    by (simp add: chunks_with_offset_def chunks.simps [of 2])
  from upload_sends_steps_in_order [OF run] obtain ixs zs t0 tss tc where
    ixs: "write_ixs sample_gateway 5 (message_to_command_id sample_gateway sample_message) [([1, 2], 0), ([3], 2)] = Inr ixs"
    and zs: "mset zs = mset ixs" "list_all2 (\<lambda>(offset, ix) txs. at_most_one (carries decimal_sdk 5) [ix] txs) zs tss"
    and sent: "sent MainNode s' = t0 @ concat tss @ tc"
    by (auto simp: Let_def max cs sent_def)
  have "length ixs = 2" using list_all2_lengthD [OF write_ixs_ok [OF ixs]] by simp
  with zs have "length tss = 2" using mset_eq_length list_all2_lengthD by fastforce
  with run sent show ?thesis by blast
qed

end
