(* ===== verification/TxFetch.thy ===== *)
theory TxFetch
  imports Instances
begin

text \<open>
  \<open>crates/solana-listener/src/component.rs\<close> (the transaction message and its status) and
  \<open>component/log_processor.rs\<close>: fetching one transaction and resolving its account indices,
  and fetching a batch of signatures concurrently, sending the successful transactions to the
  channel.
\<close>

section \<open>Data\<close>

record solana_tx =
  lt_signature :: signature
  lt_timestamp :: "timestamp option"
  lt_logs :: "string list"
  lt_account_keys :: "pubkey list"
  lt_ixs :: "(pubkey \<times> pubkey list \<times> bytes) list"
  lt_inner_ixs :: "inner_ixs list"
  lt_slot :: u64
  lt_cost :: u64

datatype tx_status = Successful solana_tx | Failed solana_tx transaction_error

fun status_tx :: "tx_status \<Rightarrow> solana_tx" where
  "status_tx (Successful t) = t"
| "status_tx (Failed t e) = t"

fun status_unwrap :: "tx_status \<Rightarrow> fault + solana_tx" where
  "status_unwrap (Successful t) = Inr t"
| "status_unwrap (Failed t e) = Inl (Panic ''explicit panic'')"

fun status_unwrap_err :: "tx_status \<Rightarrow> fault + (solana_tx \<times> transaction_error)" where
  "status_unwrap_err (Successful t) = Inl (Panic ''explicit panic'')"
| "status_unwrap_err (Failed t e) = Inr (t, e)"

section \<open>Fetching a transaction\<close>

definition account_at :: "pubkey list \<Rightarrow> u8 \<Rightarrow> fault + pubkey" where
  "account_at keys idx =
     (if unat idx < length keys then Inr (keys ! unat idx)
      else Inl (msg_fault ''account does not have an account at the idx''))"

definition resolve_ix :: "pubkey list \<Rightarrow> compiled_ix \<Rightarrow> fault + (pubkey \<times> pubkey list \<times> bytes)" where
  "resolve_ix keys ix =
     (case account_at keys (ci_program ix) of
        Inl e \<Rightarrow> Inl e
      | Inr program \<Rightarrow>
          (case traverse (account_at keys) (ci_accounts ix) of
             Inl e \<Rightarrow> Inl e
           | Inr accounts \<Rightarrow> Inr (program, accounts, ci_data ix)))"

definition loaded_key :: "sdk \<Rightarrow> string \<Rightarrow> fault + pubkey" where
  "loaded_key sdk str =
     (case parse_pubkey sdk str of None \<Rightarrow> Inl (msg_fault ''invalid pubkey'') | Some k \<Rightarrow> Inr k)"

definition loaded_keys :: "sdk \<Rightarrow> loaded_addresses opt_ser \<Rightarrow> fault + pubkey list" where
  "loaded_keys sdk la =
     (case la of
        SerSome l \<Rightarrow> traverse (loaded_key sdk) (la_writable l @ la_readonly l)
      | _ \<Rightarrow> Inr [])"

definition parse_transaction :: "sdk \<Rightarrow> signature \<Rightarrow> encoded_tx \<Rightarrow> fault + tx_status" where
  "parse_transaction sdk sig enc =
     (case enc_message enc of
        None \<Rightarrow> Inl (msg_fault ''transaction decoding failed'')
      | Some m \<Rightarrow>
     (case traverse (resolve_ix (msg_keys m)) (msg_ixs m) of
        Inl e \<Rightarrow> Inl e
      | Inr ixs \<Rightarrow>
     (case enc_meta enc of
        None \<Rightarrow> Inl (msg_fault ''metadata not included with logs'')
      | Some meta \<Rightarrow>
     (case meta_logs meta of
        SerSome logs \<Rightarrow>
     (case meta_inner meta of
        SerSome inner \<Rightarrow>
     (case loaded_keys sdk (meta_loaded meta) of
        Inl e \<Rightarrow> Inl e
      | Inr loaded \<Rightarrow>
          (let tx = \<lparr>lt_signature = sig,
                     lt_timestamp = Option.bind (enc_block_time enc) (datetime_of sdk),
                     lt_logs = logs,
                     lt_account_keys = msg_keys m @ loaded,
                     lt_ixs = ixs,
                     lt_inner_ixs = inner,
                     lt_slot = enc_slot enc,
                     lt_cost = meta_fee meta\<rparr>
           in Inr (case meta_err meta of Some e \<Rightarrow> Failed tx e | None \<Rightarrow> Successful tx)))
      | _ \<Rightarrow> Inl (msg_fault ''inner instructions not included''))
      | _ \<Rightarrow> Inl (msg_fault ''logs not included'')))))"

definition fetch_transaction ::
  "sdk \<Rightarrow> 'w runtime \<Rightarrow> 'w node \<Rightarrow> commitment \<Rightarrow> signature
     \<Rightarrow> (fault, ('w, 'z) world_scheme, tx_status) io" where
  "fetch_transaction sdk rt nd c sig =
     bindE (rpc (ReqTransaction (node_tag nd) sig) (rt_retry rt (n_transaction nd sig c)))
       (\<lambda>enc. liftE (parse_transaction sdk sig enc))"

section \<open>Fetching and sending a batch\<close>

text \<open>The listener's outgoing channel, unbounded, and whether its receiver is still there.\<close>

record 'w listener_world = "'w world" +
  chan :: "solana_tx list"
  chan_open :: bool

definition chan_send :: "solana_tx \<Rightarrow> (fault, ('w, 'z) listener_world_scheme, unit) io" where
  "chan_send tx s =
     (if chan_open s then (Inr (), s\<lparr>chan := chan s @ [tx]\<rparr>)
      else (Inl (msg_fault ''send failed because receiver is gone''), s))"

definition fetch_and_send_one ::
  "sdk \<Rightarrow> 'w runtime \<Rightarrow> 'w node \<Rightarrow> commitment \<Rightarrow> signature
     \<Rightarrow> (fault, ('w, 'z) listener_world_scheme, unit) io" where
  "fetch_and_send_one sdk rt nd c sig =
     bindE (fetch_transaction sdk rt nd c sig)
       (\<lambda>st. case st of Successful tx \<Rightarrow> chan_send tx | Failed _ _ \<Rightarrow> retE ())"

fun is_panic :: "fault + 'a \<Rightarrow> bool" where
  "is_panic (Inl (Panic m)) = True"
| "is_panic _ = False"

text \<open>
  All members of the \<open>JoinSet\<close> are awaited. An error of a member is logged and dropped; only a
  panic of a member (a \<open>JoinError\<close>) is returned.
\<close>

definition fetch_and_send ::
  "sdk \<Rightarrow> 'w runtime \<Rightarrow> 'w node \<Rightarrow> commitment \<Rightarrow> signature list
     \<Rightarrow> (fault, ('w, 'z) listener_world_scheme, unit) io" where
  "fetch_and_send sdk rt nd c sigs s =
     (case unordered (pick rt) (fetch_and_send_one sdk rt nd c) sigs s of
        (rs, s') \<Rightarrow> (if list_ex is_panic rs then Inl (msg_fault ''task panicked'') else Inr (), s'))"

section \<open>Lemmas\<close>

lemma account_at_ok_iff [simp]:
  "account_at keys idx = Inr k \<longleftrightarrow> unat idx < length keys \<and> k = keys ! unat idx"
  by (auto simp: account_at_def)

lemma account_at_err_iff:
  "account_at keys idx = Inl e \<longleftrightarrow>
     length keys \<le> unat idx \<and> e = msg_fault ''account does not have an account at the idx''"
  by (auto simp: account_at_def)

text \<open>The indices of an instruction that can be resolved, and what they resolve to.\<close>

definition in_range :: "pubkey list \<Rightarrow> compiled_ix \<Rightarrow> bool" where
  "in_range keys ix \<longleftrightarrow> list_all (\<lambda>i. unat i < length keys) (ci_program ix # ci_accounts ix)"

definition resolved :: "pubkey list \<Rightarrow> compiled_ix \<Rightarrow> pubkey \<times> pubkey list \<times> bytes" where
  "resolved keys ix =
     (keys ! unat (ci_program ix), map (\<lambda>i. keys ! unat i) (ci_accounts ix), ci_data ix)"

lemma resolve_ix_eq:
  "resolve_ix keys ix =
     (if in_range keys ix then Inr (resolved keys ix)
      else Inl (msg_fault ''account does not have an account at the idx''))"
proof -
  have "traverse (account_at keys) is = (if list_all (\<lambda>i. unat i < length keys) is
       then Inr (map (\<lambda>i. keys ! unat i) is)
       else Inl (msg_fault ''account does not have an account at the idx''))" for "is"
    by (rule traverse_partial) (simp add: account_at_def)
  then show ?thesis by (simp add: resolve_ix_def account_at_def in_range_def resolved_def)
qed

lemma resolve_ixs_eq:
  "traverse (resolve_ix keys) ixs =
     (if list_all (in_range keys) ixs then Inr (map (resolved keys) ixs)
      else Inl (msg_fault ''account does not have an account at the idx''))"
  by (rule traverse_partial) (rule resolve_ix_eq)

lemma parse_transaction_ok:
  assumes "parse_transaction sdk sig enc = Inr st"
  obtains m meta logs inner ixs loaded where
    "enc_message enc = Some m" "enc_meta enc = Some meta"
    "traverse (resolve_ix (msg_keys m)) (msg_ixs m) = Inr ixs"
    "meta_logs meta = SerSome logs" "meta_inner meta = SerSome inner"
    "loaded_keys sdk (meta_loaded meta) = Inr loaded"
    "status_tx st = \<lparr>lt_signature = sig,
                     lt_timestamp = Option.bind (enc_block_time enc) (datetime_of sdk),
                     lt_logs = logs, lt_account_keys = msg_keys m @ loaded, lt_ixs = ixs,
                     lt_inner_ixs = inner, lt_slot = enc_slot enc, lt_cost = meta_fee meta\<rparr>"
    "st = (case meta_err meta of Some e \<Rightarrow> Failed (status_tx st) e | None \<Rightarrow> Successful (status_tx st))"
  using assms unfolding parse_transaction_def Let_def
  by (auto split: option.splits sum.splits opt_ser.splits)

lemma parse_transaction_signature:
  "parse_transaction sdk sig enc = Inr st \<Longrightarrow> lt_signature (status_tx st) = sig"
  by (erule parse_transaction_ok) simp

lemma issues_fetch [issues_rules]:
  "P (ReqTransaction (node_tag nd) sig) \<Longrightarrow> issues P (fetch_transaction sdk rt nd c sig)"
  unfolding fetch_transaction_def by (intro grow.bind issues_rpc grow.lift)

lemma loaded_no_panic: "traverse (loaded_key sdk) ks = Inl e \<Longrightarrow> \<not> is_panic (Inl e)"
  by (auto simp: traverse_err_iff loaded_key_def msg_fault_def split: option.splits)

lemma confined_fetch [confined_rules]: "confined (fetch_transaction sdk rt nd c sig)"
  unfolding fetch_transaction_def by (intro same.bind confined_rpc same.lift)

lemma fetch_no_panic: "fetch_transaction sdk rt nd c sig s = (r, s') \<Longrightarrow> \<not> is_panic r"
proof -
  have "\<not> is_panic (parse_transaction sdk sig enc)" for enc
    by (auto simp: parse_transaction_def Let_def msg_fault_def loaded_keys_def loaded_key_def
        loaded_no_panic resolve_ixs_eq
        split: option.splits sum.splits opt_ser.splits)
  moreover assume "fetch_transaction sdk rt nd c sig s = (r, s')"
  ultimately show ?thesis
    by (auto simp: fetch_transaction_def bindE_def rpc_def map_faultE_def client_fault_def
        liftE_def split: prod.splits sum.splits)
qed

text \<open>Apart from the request, a fetch leaves the state of the component as it was.\<close>

lemma rpc_shape: "rpc q f s = (r, s') \<Longrightarrow> \<exists>e. s' = s\<lparr>env := e, wire := wire s @ [q]\<rparr>"
  by (auto simp: rpc_def call_def map_faultE_def split: prod.splits sum.splits)

lemma fetch_shape:
  assumes "fetch_transaction sdk rt nd c sig s = (r, s')"
  shows "\<exists>e. s' = s\<lparr>env := e, wire := wire s @ [ReqTransaction (node_tag nd) sig]\<rparr>"
  using assms rpc_shape [of "ReqTransaction (node_tag nd) sig" "rt_retry rt (n_transaction nd sig c)" s]
  by (auto simp: fetch_transaction_def bindE_def liftE_def split: prod.splits sum.splits)

text \<open>
  A node whose answers do not depend on when it is asked: the getTransaction of a signature
  answers \<open>db sig\<close> (confirmed transactions do not change).
\<close>

definition answers ::
  "'w runtime \<Rightarrow> 'w node \<Rightarrow> commitment \<Rightarrow> (signature \<Rightarrow> client_error + encoded_tx) \<Rightarrow> bool" where
  "answers rt nd c db \<longleftrightarrow> (\<forall>sig w. fst (rt_retry rt (n_transaction nd sig c) w) = db sig)"

definition status_of ::
  "sdk \<Rightarrow> (signature \<Rightarrow> client_error + encoded_tx) \<Rightarrow> signature \<Rightarrow> fault + tx_status" where
  "status_of sdk db sig =
     (case db sig of Inl e \<Rightarrow> Inl (client_fault e) | Inr enc \<Rightarrow> parse_transaction sdk sig enc)"

fun ok_tx :: "fault + tx_status \<Rightarrow> solana_tx list" where
  "ok_tx (Inr (Successful tx)) = [tx]"
| "ok_tx _ = []"

definition delivered ::
  "sdk \<Rightarrow> (signature \<Rightarrow> client_error + encoded_tx) \<Rightarrow> signature list \<Rightarrow> solana_tx list" where
  "delivered sdk db sigs = concat (map (\<lambda>sig. ok_tx (status_of sdk db sig)) sigs)"

lemma delivered_simps [simp]:
  "delivered sdk db [] = []"
  "delivered sdk db (x # xs) = ok_tx (status_of sdk db x) @ delivered sdk db xs"
  "delivered sdk db (xs @ ys) = delivered sdk db xs @ delivered sdk db ys"
  by (simp_all add: delivered_def)

lemma delivered_perm: "mset xs = mset ys \<Longrightarrow> mset (delivered sdk db xs) = mset (delivered sdk db ys)"
proof -
  have "mset (delivered sdk db zs) = (\<Sum>z\<in>#mset zs. mset (ok_tx (status_of sdk db z)))" for zs
    by (induction zs) auto
  then show "mset xs = mset ys \<Longrightarrow> ?thesis" by simp
qed

lemma fetch_answers:
  assumes "answers rt nd c db"
  shows "fst (fetch_transaction sdk rt nd c sig s) = status_of sdk db sig"
proof -
  obtain r e where r: "rt_retry rt (n_transaction nd sig c) (env s) = (r, e)" by fastforce
  with assms have "db sig = r" by (metis answers_def fst_conv)
  then show ?thesis using r
    by (cases r; cases "case r of Inr enc \<Rightarrow> parse_transaction sdk sig enc")
      (simp_all add: fetch_transaction_def status_of_def bindE_def rpc_apply)
qed

lemma fetch_signature:
  "fetch_transaction sdk rt nd c sig s = (Inr st, s') \<Longrightarrow> lt_signature (status_tx st) = sig"
  by (auto simp: fetch_transaction_def liftE_def elim!: bindE_okE
      dest!: parse_transaction_signature split: sum.splits)

text \<open>The step of one member, and its iteration over any order of the signatures.\<close>

definition one_step ::
  "sdk \<Rightarrow> 'w node \<Rightarrow> signature \<Rightarrow> (fault + tx_status)
     \<Rightarrow> ('w, 'z) listener_world_scheme \<Rightarrow> ('w, 'z) listener_world_scheme \<Rightarrow> bool" where
  "one_step sdk nd sig st s s' \<longleftrightarrow>
     (\<exists>e. s' = s\<lparr>env := e, wire := wire s @ [ReqTransaction (node_tag nd) sig], chan := chan s @ ok_tx st\<rparr>)"

lemma fetch_and_send_one_step:
  assumes "chan_open s" and "fetch_and_send_one sdk rt nd c sig s = (r, s')"
  shows "\<not> is_panic r \<and> one_step sdk nd sig (fst (fetch_transaction sdk rt nd c sig s)) s s'"
proof (cases "fetch_transaction sdk rt nd c sig s")
  case (Pair st s1)
  from fetch_shape [OF Pair] obtain e where
    s1: "s1 = s\<lparr>env := e, wire := wire s @ [ReqTransaction (node_tag nd) sig]\<rparr>" by blast
  have np: "\<not> is_panic st" using fetch_no_panic [OF Pair] .
  show ?thesis
  proof (cases st)
    case (Inl f)
    with Pair np assms s1 show ?thesis
      by (cases f) (auto simp: fetch_and_send_one_def bindE_def one_step_def)
  next
    case (Inr t)
    with Pair assms s1 show ?thesis
      by (cases t) (auto simp: fetch_and_send_one_def bindE_def one_step_def chan_send_def)
  qed
qed

definition batch_done ::
  "sdk \<Rightarrow> 'w runtime \<Rightarrow> 'w node \<Rightarrow> commitment \<Rightarrow> signature list
     \<Rightarrow> ('w, 'z) listener_world_scheme \<Rightarrow> ('w, 'z) listener_world_scheme \<Rightarrow> bool" where
  "batch_done sdk rt nd c sigs s s' \<longleftrightarrow>
     (\<exists>e ts zs. s' = s\<lparr>env := e, wire := wire s @ map (ReqTransaction (node_tag nd)) zs, chan := chan s @ ts\<rparr>
        \<and> mset zs = mset sigs \<and> (\<forall>t \<in> set ts. lt_signature t \<in> set sigs)
        \<and> (\<forall>db. answers rt nd c db \<longrightarrow> ts = delivered sdk db zs))"

lemma run_list_fetch:
  assumes "chan_open s"
  shows "list_all (\<lambda>r. \<not> is_panic r) (fst (run_list (fetch_and_send_one sdk rt nd c) zs s))
       \<and> (\<exists>e ts. snd (run_list (fetch_and_send_one sdk rt nd c) zs s)
             = s\<lparr>env := e, wire := wire s @ map (ReqTransaction (node_tag nd)) zs, chan := chan s @ ts\<rparr>
           \<and> (\<forall>t \<in> set ts. lt_signature t \<in> set zs)
           \<and> (\<forall>db. answers rt nd c db \<longrightarrow> ts = delivered sdk db zs))"
  using assms
proof (induction zs arbitrary: s)
  case Nil
  show ?case by (auto intro!: exI [of _ "env s"])
next
  case (Cons z zs)
  obtain r s1 where r: "fetch_and_send_one sdk rt nd c z s = (r, s1)" by fastforce
  obtain st s2 where st: "fetch_transaction sdk rt nd c z s = (st, s2)" by fastforce
  from fetch_and_send_one_step [OF Cons.prems r] st obtain e where np: "\<not> is_panic r" and
    s1: "s1 = s\<lparr>env := e, wire := wire s @ [ReqTransaction (node_tag nd) z], chan := chan s @ ok_tx st\<rparr>"
    by (auto simp: one_step_def)
  then have "chan_open s1" using Cons.prems by simp
  from Cons.IH [OF this] obtain e' ts where
    np': "list_all (\<lambda>r. \<not> is_panic r) (fst (run_list (fetch_and_send_one sdk rt nd c) zs s1))" and
    s': "snd (run_list (fetch_and_send_one sdk rt nd c) zs s1)
             = s1\<lparr>env := e', wire := wire s1 @ map (ReqTransaction (node_tag nd)) zs, chan := chan s1 @ ts\<rparr>" and
    ts: "\<forall>t \<in> set ts. lt_signature t \<in> set zs" and
    db: "\<forall>db. answers rt nd c db \<longrightarrow> ts = delivered sdk db zs" by blast
  have "\<forall>t \<in> set (ok_tx st). lt_signature t = z"
  proof (cases st)
    case (Inr t)
    with st show ?thesis using fetch_signature [of sdk rt nd c z s t s2] by (cases t) auto
  qed simp
  moreover have "answers rt nd c db \<Longrightarrow> st = status_of sdk db z" for db
    using fetch_answers [of rt nd c db sdk z s] st by simp
  ultimately show ?case using r np np' s' s1 ts db
    by (intro conjI exI [of _ e'] exI [of _ "ok_tx st @ ts"])
      (auto simp: case_prod_beta)
qed

lemma fetch_and_send_done:
  assumes "chan_open s"
  shows "\<exists>s'. fetch_and_send sdk rt nd c sigs s = (Inr (), s') \<and> batch_done sdk rt nd c sigs s s'"
proof -
  obtain zs where zs: "mset zs = mset sigs" and
    run: "unordered (pick rt) (fetch_and_send_one sdk rt nd c) sigs s =
          run_list (fetch_and_send_one sdk rt nd c) zs s"
    using unordered_order [of sigs "pick rt" "fetch_and_send_one sdk rt nd c" s] by blast
  from zs have "set zs = set sigs" by (metis set_mset_mset)
  with run_list_fetch [OF assms, of sdk rt nd c zs] zs run show ?thesis
    by (auto simp: fetch_and_send_def batch_done_def case_prod_beta list_ex_iff list_all_iff)
qed

lemma answers_ledger_node: "answers counting_runtime (ledger_node tag hist db) c db"
  by (simp add: answers_def counting_runtime_def ledger_node_def)

section \<open>Properties\<close>

text \<open>
  C37. Exactly when a fetched transaction parses, and what it parses to: the message decodes, the
  metadata has logs and inner instructions, the loaded keys are valid, and every account index
  of every instruction lies within the static keys of the message; then each index is replaced
  by the key it points to, the loaded keys follow the static ones (writable before readonly),
  fee, slot and logs are the node's, and the status is successful if the node reports no error.
  An instruction that refers to a loaded key (an index beyond the static keys) never parses.
\<close>

theorem parse_transaction_iff:
  "parse_transaction sdk sig enc = Inr st \<longleftrightarrow>
     (\<exists>m meta logs inner loaded.
        enc_message enc = Some m \<and> enc_meta enc = Some meta \<and>
        meta_logs meta = SerSome logs \<and> meta_inner meta = SerSome inner \<and>
        loaded_keys sdk (meta_loaded meta) = Inr loaded \<and>
        list_all (in_range (msg_keys m)) (msg_ixs m) \<and>
        status_tx st =
          \<lparr>lt_signature = sig, lt_timestamp = Option.bind (enc_block_time enc) (datetime_of sdk),
           lt_logs = logs, lt_account_keys = msg_keys m @ loaded,
           lt_ixs = map (resolved (msg_keys m)) (msg_ixs m), lt_inner_ixs = inner,
           lt_slot = enc_slot enc, lt_cost = meta_fee meta\<rparr> \<and>
        st = (case meta_err meta of Some e \<Rightarrow> Failed (status_tx st) e | None \<Rightarrow> Successful (status_tx st)))"
  (is "?L \<longleftrightarrow> ?R")
proof
  assume ?L
  then show ?R by (rule parse_transaction_ok) (auto simp: resolve_ixs_eq split: if_splits)
next
  assume ?R
  then obtain m meta logs inner loaded where
    *: "enc_message enc = Some m" "enc_meta enc = Some meta" "meta_logs meta = SerSome logs"
      "meta_inner meta = SerSome inner" "loaded_keys sdk (meta_loaded meta) = Inr loaded"
      "list_all (in_range (msg_keys m)) (msg_ixs m)"
    and tx: "status_tx st =
          \<lparr>lt_signature = sig, lt_timestamp = Option.bind (enc_block_time enc) (datetime_of sdk),
           lt_logs = logs, lt_account_keys = msg_keys m @ loaded,
           lt_ixs = map (resolved (msg_keys m)) (msg_ixs m), lt_inner_ixs = inner,
           lt_slot = enc_slot enc, lt_cost = meta_fee meta\<rparr>"
    and st: "st = (case meta_err meta of Some e \<Rightarrow> Failed (status_tx st) e | None \<Rightarrow> Successful (status_tx st))"
    by blast
  have "parse_transaction sdk sig enc =
      Inr (case meta_err meta of Some e \<Rightarrow> Failed (status_tx st) e | None \<Rightarrow> Successful (status_tx st))"
    by (cases "meta_err meta") (simp_all add: parse_transaction_def * resolve_ixs_eq tx Let_def)
  then show ?L using st by simp
qed

text \<open>
  C38. Fetching a batch delivers, for every order in which the fetches complete, exactly the
  successful transactions of the batch, each once: with the receiver still there the call
  succeeds, one request is made per signature, and the multiset of what is put on the channel is
  that of the successful transactions among the answers; failures to fetch are dropped silently.
\<close>

theorem fetch_and_send_delivers:
  assumes "chan_open s" and "answers rt nd c db"
  shows "\<exists>s' ts zs. fetch_and_send sdk rt nd c sigs s = (Inr (), s') \<and>
    chan s' = chan s @ ts \<and> mset ts = mset (delivered sdk db sigs) \<and>
    wire s' = wire s @ map (ReqTransaction (node_tag nd)) zs \<and> mset zs = mset sigs"
proof -
  obtain s' where run: "fetch_and_send sdk rt nd c sigs s = (Inr (), s')"
    and batch: "batch_done sdk rt nd c sigs s s'"
    using fetch_and_send_done [OF assms(1)] by blast
  from batch obtain e ts zs where
    s': "s' = s\<lparr>env := e, wire := wire s @ map (ReqTransaction (node_tag nd)) zs, chan := chan s @ ts\<rparr>"
    and zs: "mset zs = mset sigs" and ts: "\<forall>db. answers rt nd c db \<longrightarrow> ts = delivered sdk db zs"
    unfolding batch_done_def by blast
  from ts assms(2) have "mset ts = mset (delivered sdk db sigs)"
    using delivered_perm [OF zs] by auto
  with run s' zs show ?thesis by (intro exI [of _ s'] exI [of _ ts] exI [of _ zs]) simp
qed

text \<open>Two confirmed transactions and one that cannot be fetched.\<close>

definition two_of_three :: "signature \<Rightarrow> client_error + encoded_tx" where
  "two_of_three sig =
     (if sig = 3 then Inl (RpcError ''not found'')
      else Inr (plain_tx [8] [\<lparr>ci_program = 0, ci_accounts = [], ci_data = []\<rparr>] (ucast sig)))"

definition open_world :: "nat listener_world" where
  "open_world = \<lparr>env = 0, wire = [], chan = [], chan_open = True\<rparr>"

lemma fetch_and_send_delivers_witness:
  "\<exists>s' ts. fetch_and_send decimal_sdk counting_runtime (ledger_node MainNode (\<lambda>a. []) two_of_three) Finalized
       [1, 2, 3] open_world = (Inr (), s') \<and> chan s' = ts \<and>
     image_mset lt_signature (mset ts) = {#1, 2#}"
proof -
  have "map lt_signature (delivered decimal_sdk two_of_three [1, 2, 3]) = [1, 2]"
    by (simp add: status_of_def two_of_three_def parse_transaction_def plain_tx_def resolve_ix_def
        account_at_def loaded_keys_def Let_def)
  then have "image_mset lt_signature (mset (delivered decimal_sdk two_of_three [1, 2, 3])) = {#1, 2#}"
    by (metis mset_map mset.simps)
  with fetch_and_send_delivers [where s = open_world and sdk = decimal_sdk and sigs = "[1, 2, 3]", OF _
      answers_ledger_node [where tag = MainNode and hist = "\<lambda>a. []" and db = two_of_three and c = Finalized]]
  show ?thesis by (auto simp: open_world_def)
qed

end
