(* ===== verification/Amplifier.thy ===== *)
theory Amplifier
  imports Chain
begin

text \<open>
  The types of the Amplifier API that the relayer fills in, and the channel on which two of its
  components, the event forwarder and the gateway task processor, publish events
  (\<open>AmplifierCommand::PublishEvents\<close>). The constructors are those the code builds.
\<close>

section \<open>Events\<close>

type_synonym task_id = u128

record 'h gateway_message =
  gm_message_id :: string
  gm_source_chain :: string
  gm_source_address :: string
  gm_destination_address :: string
  gm_payload_hash :: 'h

datatype execution_status = SUCCESSFUL | REVERTED

datatype token_manager_type =
  NativeInterchainToken | MintBurnFrom | LockUnlock | LockUnlockFee | MintBurn

record token_definition =
  td_id :: string
  td_name :: string
  td_symbol :: string
  td_decimals :: u8

record 'x event_metadata =
  em_tx_id :: "string option"
  em_timestamp :: "timestamp option"
  em_from_address :: "string option"
  em_finalized :: "bool option"
  em_extra :: 'x

record 'x event_base =
  eb_event_id :: string
  eb_meta :: "'x event_metadata option"

record token =
  tk_token_id :: "string option"
  tk_amount :: int

record executed_extra =
  xe_command_id :: "string option"
  xe_children :: "string list option"

record rotated_extra =
  re_signer_hash :: bytes
  re_epoch :: u64

datatype cannot_execute_reason = InsufficientGas | CannotExecuteError

datatype amp_event =
    AmpCall "string option event_base" "bytes gateway_message" string bytes
  | AmpGasCredit "unit event_base" string string token
  | AmpGasRefunded "unit event_base" string string token token
  | AmpMessageApproved "string option event_base" "bytes gateway_message" token
  | AmpMessageExecuted "executed_extra event_base" string string execution_status token
  | AmpSignersRotated "rotated_extra event_base" string
  | AmpItsInterchainTransfer "unit event_base" string string string int string string string
  | AmpItsTokenMetadataRegistered "unit event_base" string string u8
  | AmpItsLinkTokenStarted "unit event_base" string string string string string token_manager_type
  | AmpItsInterchainTokenDeploymentStarted "unit event_base" string string token_definition
  | AmpCannotExecuteMessageV2 "task_id event_base" cannot_execute_reason string string string

section \<open>Publishing\<close>

text \<open>The Amplifier component's command channel and whether its receiver is still there.\<close>

record 'w amplifier_world = "'w world" +
  published :: "amp_event list list"
  amplifier_open :: bool

definition publish :: "amp_event list \<Rightarrow> (fault, ('w, 'z) amplifier_world_scheme, unit) io" where
  "publish events s =
     (if amplifier_open s then (Inr (), s\<lparr>published := published s @ [events]\<rparr>)
      else (Inl (msg_fault ''send failed because receiver is gone''), s))"

text \<open>Computations that publish nothing.\<close>

definition same_channel :: "('w, 'z) amplifier_world_scheme \<Rightarrow> ('w, 'z) amplifier_world_scheme \<Rightarrow> bool" where
  "same_channel s s' \<longleftrightarrow> published s' = published s \<and> amplifier_open s' = amplifier_open s"

named_theorems silent_rules \<open>computations that publish nothing\<close>

interpretation silent: state_order same_channel
  by unfold_locales (simp_all add: same_channel_def)

lemmas [silent_rules] = silent.rules

lemma same_component_channel: "same_component s s' \<Longrightarrow> same_channel s s'"
  by (auto simp: same_component_def same_channel_def)

lemma confined_silent:
  assumes "confined m"
  shows "moves same_channel m"
  using assms same_component_channel by (rule moves_mono)

lemma publish_ok:
  "publish evs s = (r, s') \<Longrightarrow>
     s' = (if amplifier_open s then s\<lparr>published := published s @ [evs]\<rparr> else s)"
  by (auto simp: publish_def split: if_splits)

lemma publish_sends: "publish evs s = (r, s') \<Longrightarrow> sent k s' = sent k s"
  by (auto simp: publish_def sent_def split: if_splits)

end
