(* ===== verification/CostEstimation.thy ===== *)
theory CostEstimation
  imports MessagePayload TxFetch Amplifier
begin

text \<open>
  \<open>crates/solana-gateway-task-processor/src/component/execution_cost_estimation.rs\<close> and the gas
  estimator of \<open>component.rs\<close>: a task is first run on a fork of the chain (the node \<open>sn\<close>), with
  unit prices from the real one (\<open>nd\<close>); the consumption of its stages is cached when the task
  cannot pay, so that the next attempt only has to price it again.

  The interface of the estimator that the task processor relies on is the locale
  \<open>gas_estimator\<close>.
\<close>

section \<open>Definitions\<close>

record stage_metadata =
  sm_units :: u64
  sm_accounts :: "pubkey list"

record consumption_breakdown =
  bd_initialization :: stage_metadata
  bd_upload :: "stage_metadata list"
  bd_commitment :: stage_metadata
  bd_execution :: stage_metadata
  bd_closure :: stage_metadata

definition no_stage :: stage_metadata where
  "no_stage = \<lparr>sm_units = 0, sm_accounts = []\<rparr>"

definition new_breakdown :: consumption_breakdown where
  "new_breakdown = \<lparr>bd_initialization = no_stage, bd_upload = [], bd_commitment = no_stage,
     bd_execution = no_stage, bd_closure = no_stage\<rparr>"

definition eyre_rpc ::
  "string \<Rightarrow> request \<Rightarrow> ('w \<Rightarrow> (client_error + 'a) \<times> 'w) \<Rightarrow> (fault, ('w, 'z) world_scheme, 'a) io" where
  "eyre_rpc m q f = map_faultE (\<lambda>e. msg_fault m) (call q f)"

definition calculate_compute_unit_price ::
  "'w node \<Rightarrow> pubkey list \<Rightarrow> (fault, ('w, 'z) world_scheme, u64) io" where
  "calculate_compute_unit_price nd accounts =
     (if 128 < length accounts then failE (msg_fault ''Too many accounts, cannot calculate compute unit price'')
      else bindE (eyre_rpc ''Failed to get prioritization fees'' (ReqFees (node_tag nd) accounts) (n_fees nd accounts))
             (\<lambda>fees. retE (fee_average fees)))"

definition build_compute_unit_price_instruction ::
  "sdk \<Rightarrow> 'w node \<Rightarrow> pubkey list \<Rightarrow> (fault, ('w, 'z) world_scheme, instruction) io" where
  "build_compute_unit_price_instruction sdk nd accounts =
     bindE (calculate_compute_unit_price nd accounts) (\<lambda>fee. retE (cu_price_ix sdk fee))"

definition calculate_stage_fee :: "stage_metadata \<Rightarrow> u64 \<Rightarrow> u64" where
  "calculate_stage_fee m price = sat_add 5000 (sat_mul (sm_units m) price)"

definition add_stage ::
  "'w node \<Rightarrow> stage_metadata \<Rightarrow> u64 \<Rightarrow> (fault, ('w, 'z) world_scheme, u64) io" where
  "add_stage nd m fee =
     (if sm_accounts m = [] then retE fee
      else bindE (calculate_compute_unit_price nd (sm_accounts m))
             (\<lambda>price. retE (sat_add fee (calculate_stage_fee m price))))"

definition calculate_cost ::
  "'w node \<Rightarrow> consumption_breakdown \<Rightarrow> (fault, ('w, 'z) world_scheme, u64) io" where
  "calculate_cost nd bd =
     bindE (add_stage nd (bd_initialization bd) 0) (\<lambda>fee.
     bindE (foldE (add_stage nd) (bd_upload bd) fee) (\<lambda>fee.
     bindE (add_stage nd (bd_commitment bd) fee) (\<lambda>fee.
     bindE (add_stage nd (bd_execution bd) fee) (\<lambda>fee.
     add_stage nd (bd_closure bd) fee))))"

definition execute_and_get_cost ::
  "sdk \<Rightarrow> 'w node \<Rightarrow> 'w node \<Rightarrow> pubkey \<Rightarrow> instruction list
     \<Rightarrow> (fault, ('w, 'z) world_scheme, u64 \<times> stage_metadata) io" where
  "execute_and_get_cost sdk sn nd kp ixs =
     bindE (eyre_rpc ''Failed to get blockhash'' (ReqBlockhash (node_tag sn)) (n_blockhash sn)) (\<lambda>hash.
     let ixs1 = cu_limit_ix sdk 1400000 # ixs
     in bindE (build_compute_unit_price_instruction sdk nd (touched ixs1)) (\<lambda>price_ix.
        let ixs2 = price_ix # ixs1;
            tx = \<lparr>tx_ixs = ixs2, tx_payer = kp, tx_hash = hash\<rparr>
        in bindE (eyre_rpc ''Failed to send transaction'' (ReqSend (node_tag sn) tx) (n_send sn tx)) (\<lambda>sig.
           bindE (eyre_rpc ''Failed to get transaction status'' (ReqTransaction (node_tag sn) sig)
                    (n_transaction sn sig Processed)) (\<lambda>enc.
           bindE (ok_or (msg_fault ''Transaction metadata not available'') (enc_meta enc)) (\<lambda>meta.
           case meta_units meta of
             SerSome units \<Rightarrow> retE (meta_fee meta, \<lparr>sm_units = units, sm_accounts = touched ixs2\<rparr>)
           | _ \<Rightarrow> failE (msg_fault ''Missing compute units consumption details''))))))"

definition build_execute_instruction ::
  "'w gateway_libs \<Rightarrow> 'w node \<Rightarrow> pubkey \<Rightarrow> gmp_message \<Rightarrow> bytes \<Rightarrow> pubkey
     \<Rightarrow> (fault, ('w, 'z) world_scheme, instruction) io" where
  "build_execute_instruction libs nd signer message payload destination =
     (let incoming = incoming_message_pda libs (command_id libs (gmp_chain message) (gmp_id message));
          payload_pda = find_message_payload_pda libs incoming signer
      in if destination = its_id libs then
           map_faultE (\<lambda>e. msg_fault ''Failed to build ITS instruction'')
             (call (ReqExternal (node_tag nd))
                (its_execute_ix libs (node_tag nd) signer incoming payload_pda message payload))
         else if destination = governance_id libs then
           lift_eyre (governance_ix libs signer incoming payload_pda message payload)
         else lift_eyre (executable_ix libs signer message payload incoming payload_pda))"

definition estimate_write ::
  "sdk \<Rightarrow> 'w gateway_libs \<Rightarrow> 'w node \<Rightarrow> 'w node \<Rightarrow> pubkey \<Rightarrow> hash256 \<Rightarrow> nat \<times> bytes
     \<Rightarrow> u64 \<times> stage_metadata list \<Rightarrow> (fault, ('w, 'z) world_scheme, u64 \<times> stage_metadata list) io" where
  "estimate_write sdk libs sn nd kp cmd w acc =
     (case w of (index, chunk) \<Rightarrow> case acc of (fee, metas) \<Rightarrow>
        bindE (ok_or (msg_fault ''out of range integral type conversion attempted'')
                 (u64_of_len (min (index * max_chunk_size libs) (2 ^ 64 - 1)))) (\<lambda>off.
        bindE (lift_eyre (write_message_payload libs (gateway_root libs) kp cmd chunk off)) (\<lambda>ix.
        bindE (execute_and_get_cost sdk sn nd kp [ix]) (\<lambda>(cost, meta).
        retE (sat_add fee cost, metas @ [meta])))))"

definition estimate_total_execute_cost ::
  "sdk \<Rightarrow> 'w gateway_libs \<Rightarrow> 'w node \<Rightarrow> 'w node \<Rightarrow> pubkey \<Rightarrow> gmp_message \<Rightarrow> bytes \<Rightarrow> pubkey
     \<Rightarrow> (fault, ('w, 'z) world_scheme, u64 \<times> consumption_breakdown) io" where
  "estimate_total_execute_cost sdk libs sn nd kp message payload destination =
     (let cmd = message_to_command_id libs message in
      bindE (ok_or (msg_fault ''out of range integral type conversion attempted'')
               (u64_of_len (length payload))) (\<lambda>len.
      bindE (lift_eyre (initialize_message_payload libs (gateway_root libs) kp cmd len)) (\<lambda>init_ix.
      bindE (execute_and_get_cost sdk sn nd kp [init_ix]) (\<lambda>(init_cost, init_meta).
      bindE (if max_chunk_size libs = 0 then failE (Panic ''chunk size must be non-zero'')
             else foldE (estimate_write sdk libs sn nd kp cmd)
                    (enumerate 0 (chunks (max_chunk_size libs) payload)) (init_cost, [])) (\<lambda>(fee, uploads).
      bindE (lift_eyre (commit_message_payload libs (gateway_root libs) kp cmd)) (\<lambda>commit_ix.
      bindE (execute_and_get_cost sdk sn nd kp [commit_ix]) (\<lambda>(commit_cost, commit_meta).
      bindE (build_execute_instruction libs sn kp message payload destination) (\<lambda>execute_ix.
      bindE (execute_and_get_cost sdk sn nd kp [execute_ix]) (\<lambda>(execute_cost, execute_meta).
      bindE (lift_eyre (close_message_payload libs (gateway_root libs) kp cmd)) (\<lambda>close_ix.
      bindE (execute_and_get_cost sdk sn nd kp [close_ix]) (\<lambda>(close_cost, close_meta).
      retE (sat_add (sat_add (sat_add fee commit_cost) execute_cost) close_cost,
            \<lparr>bd_initialization = init_meta, bd_upload = uploads, bd_commitment = commit_meta,
             bd_execution = execute_meta, bd_closure = close_meta\<rparr>)))))))))))) "

text \<open>\<open>RealGasEstimator\<close>: its cache lives in the state of the component.\<close>

record 'w processor_world = "'w amplifier_world" +
  gas_cache :: "pubkey \<Rightarrow> consumption_breakdown option"

definition update_program_accounts ::
  "'w node \<Rightarrow> pubkey \<Rightarrow> (fault, ('w, 'z) world_scheme, unit) io" where
  "update_program_accounts sn address s =
     (Inr (), snd (call (ReqProgramAccounts (node_tag sn) address) (n_program_accounts sn address)
                (snd (call (ReqAccount (node_tag sn) address) (n_account sn address) s))))"

definition cache_take ::
  "pubkey \<Rightarrow> (fault, ('w, 'z) processor_world_scheme, consumption_breakdown option) io" where
  "cache_take k s = (Inr (gas_cache s k), s\<lparr>gas_cache := (gas_cache s)(k := None)\<rparr>)"

definition cache_put ::
  "pubkey \<Rightarrow> consumption_breakdown \<Rightarrow> (fault, ('w, 'z) processor_world_scheme, unit) io" where
  "cache_put k bd s = (Inr (), s\<lparr>gas_cache := (gas_cache s)(k \<mapsto> bd)\<rparr>)"

definition ensure_enough_gas ::
  "sdk \<Rightarrow> 'w gateway_libs \<Rightarrow> 'w node \<Rightarrow> 'w node \<Rightarrow> pubkey \<Rightarrow> gmp_message \<Rightarrow> bytes \<Rightarrow> pubkey
     \<Rightarrow> pubkey \<Rightarrow> int \<Rightarrow> (fault, ('w, 'z) processor_world_scheme, unit) io" where
  "ensure_enough_gas sdk libs sn nd kp message payload destination incoming available =
     bindE (cache_take incoming) (\<lambda>maybe_cached.
     bindE (case maybe_cached of
              Some bd \<Rightarrow> bindE (calculate_cost nd bd) (\<lambda>cost. retE (cost, bd))
            | None \<Rightarrow> estimate_total_execute_cost sdk libs sn nd kp message payload destination)
       (\<lambda>(cost, bd).
     if available < uint cost then
       bindE (cache_put incoming bd) (\<lambda>_. failE (Err (InsufficientGasBalance (uint cost) available)))
     else retE ()))"

section \<open>What estimating sends\<close>

text \<open>The transaction of one stage: its instructions behind a price and the largest limit.\<close>

definition stage_tx :: "sdk \<Rightarrow> pubkey \<Rightarrow> instruction list \<Rightarrow> transaction \<Rightarrow> bool" where
  "stage_tx sdk kp ixs tx \<longleftrightarrow>
     (\<exists>price. tx_ixs tx = cu_price_ix sdk price # cu_limit_ix sdk 1400000 # ixs) \<and> tx_payer tx = kp"

lemma issues_eyre_rpc [issues_rules]: "P q \<Longrightarrow> issues P (eyre_rpc m q f)"
  unfolding eyre_rpc_def by (intro moves_map_fault issues_call)

lemma confined_eyre_rpc [confined_rules]: "confined (eyre_rpc m q f)"
  unfolding eyre_rpc_def by (intro confined_rules)

lemma eyre_rpc_ok_iff:
  "eyre_rpc m q f s = (Inr x, s') \<longleftrightarrow>
     (\<exists>e. f (env s) = (Inr x, e) \<and> s' = s\<lparr>env := e, wire := wire s @ [q]\<rparr>)"
  by (auto simp: eyre_rpc_def call_def split: prod.splits)

lemma issues_unit_price_of [issues_rules]:
  "(\<And>ks. P (ReqFees (node_tag nd) ks)) \<Longrightarrow> issues P (calculate_compute_unit_price nd accounts)"
  unfolding calculate_compute_unit_price_def
  by (intro moves_if grow.bind grow.ret grow.fail issues_eyre_rpc) auto

lemma issues_add_stage [issues_rules]:
  "(\<And>ks. P (ReqFees (node_tag nd) ks)) \<Longrightarrow> issues P (add_stage nd m fee)"
  unfolding add_stage_def by (intro moves_if grow.bind grow.ret issues_unit_price_of) auto

lemma issues_calculate_cost [issues_rules]:
  "(\<And>ks. P (ReqFees (node_tag nd) ks)) \<Longrightarrow> issues P (calculate_cost nd bd)"
  unfolding calculate_cost_def by (intro grow.bind grow.fold_list issues_add_stage) auto

lemma confined_unit_price [confined_rules]: "confined (calculate_compute_unit_price nd accounts)"
  unfolding calculate_compute_unit_price_def by (intro confined_rules)

lemma confined_calculate_cost [confined_rules]: "confined (calculate_cost nd bd)"
  unfolding calculate_cost_def add_stage_def by (intro confined_rules)

lemma issues_opt_ser [issues_rules]:
  "(\<And>x. issues P (f x)) \<Longrightarrow> issues P g \<Longrightarrow> issues P h \<Longrightarrow>
   issues P (case r of SerSome x \<Rightarrow> f x | SerNone \<Rightarrow> g | SerSkip \<Rightarrow> h)"
  by (cases r) simp_all

lemma confined_opt_ser [confined_rules]:
  "(\<And>x. confined (f x)) \<Longrightarrow> confined g \<Longrightarrow> confined h \<Longrightarrow>
   confined (case r of SerSome x \<Rightarrow> f x | SerNone \<Rightarrow> g | SerSkip \<Rightarrow> h)"
  by (cases r) simp_all

lemma price_ix_ok:
  assumes "build_compute_unit_price_instruction sdk nd accounts s = (Inr ix, s')"
  shows "\<exists>p. ix = cu_price_ix sdk p"
  using assms by (auto simp: build_compute_unit_price_instruction_def elim!: bindE_okE)

lemma price_ix_only:
  "issues (sends_only tag carrying allowed) (build_compute_unit_price_instruction sdk nd accounts)"
  unfolding build_compute_unit_price_instruction_def
  by (intro grow.bind issues_unit_price_of grow.ret) (simp add: sends_only_def)

lemma execute_only:
  assumes "allowed ixs"
  shows "issues (sends_only (node_tag sn) (stage_tx sdk kp) allowed) (execute_and_get_cost sdk sn nd kp ixs)"
proof -
  have stage: "stage_tx sdk kp ixs
      \<lparr>tx_ixs = ix # cu_limit_ix sdk 1400000 # ixs, tx_payer = kp, tx_hash = hash\<rparr>"
    if "build_compute_unit_price_instruction sdk nd accounts s = (Inr ix, s')" for accounts s ix s' hash
    using price_ix_ok [OF that] by (auto simp: stage_tx_def)
  show ?thesis unfolding execute_and_get_cost_def Let_def
    by (intro grow.bind [OF issues_eyre_rpc] grow.bind_ok [OF price_ix_only] grow.bind [OF grow.okor]
        issues_opt_ser grow.ret grow.fail)
      (auto simp: sends_only_def intro!: exI [of _ ixs] assms intro: stage)
qed

lemma confined_execute [confined_rules]: "confined (execute_and_get_cost sdk sn nd kp ixs)"
  unfolding execute_and_get_cost_def build_compute_unit_price_instruction_def Let_def
  by (intro confined_rules)

text \<open>
  One stage that ran: its transaction was sent to the node, which then reported the transaction's
  fee and consumption; the accounts kept for later pricing are those of the instructions sent.
\<close>

definition stage_ran ::
  "sdk \<Rightarrow> 'w node \<Rightarrow> pubkey \<Rightarrow> instruction \<Rightarrow> transaction \<times> u64 \<times> stage_metadata \<Rightarrow> bool" where
  "stage_ran sdk sn kp ix = (\<lambda>(tx, cost, meta).
     stage_tx sdk kp [ix] tx \<and> sm_accounts meta = touched (tx_ixs tx) \<and>
     (\<exists>e e1 e2 sig enc m. n_send sn tx e = (Inr sig, e1) \<and>
        n_transaction sn sig Processed e1 = (Inr enc, e2) \<and> enc_meta enc = Some m \<and>
        cost = meta_fee m \<and> meta_units m = SerSome (sm_units meta)))"

lemma price_ix_sends:
  assumes "build_compute_unit_price_instruction sdk nd accounts s = (Inr ix, s')"
  shows "sent k s' = sent k s"
proof -
  have "issues (\<lambda>q. send_of k q = []) (build_compute_unit_price_instruction sdk nd accounts)"
    unfolding build_compute_unit_price_instruction_def
    by (intro grow.bind issues_unit_price_of grow.ret) simp
  then show ?thesis using assms by (rule no_send_run)
qed

lemma stage_executed:
  assumes "execute_and_get_cost sdk sn nd kp [ix] s = (Inr (cost, meta), s')"
  shows "\<exists>tx. stage_ran sdk sn kp ix (tx, cost, meta) \<and> sent (node_tag sn) s' = sent (node_tag sn) s @ [tx]"
proof -
  let ?ixs = "\<lambda>price_ix. [price_ix, cu_limit_ix sdk 1400000, ix]"
  let ?tx = "\<lambda>price_ix hash. \<lparr>tx_ixs = ?ixs price_ix, tx_payer = kp, tx_hash = hash\<rparr>"
  from assms obtain hash s1 price_ix s2 sig s3 enc m where
    s1: "eyre_rpc ''Failed to get blockhash'' (ReqBlockhash (node_tag sn)) (n_blockhash sn) s = (Inr hash, s1)"
    and price: "build_compute_unit_price_instruction sdk nd (touched [cu_limit_ix sdk 1400000, ix]) s1 = (Inr price_ix, s2)"
    and s3: "eyre_rpc ''Failed to send transaction'' (ReqSend (node_tag sn) (?tx price_ix hash))
        (n_send sn (?tx price_ix hash)) s2 = (Inr sig, s3)"
    and s4: "eyre_rpc ''Failed to get transaction status'' (ReqTransaction (node_tag sn) sig)
        (n_transaction sn sig Processed) s3 = (Inr enc, s')"
    and meta: "enc_meta enc = Some m" "meta_units m = SerSome (sm_units meta)" "cost = meta_fee m"
      "sm_accounts meta = touched (?ixs price_ix)"
    by (auto simp: execute_and_get_cost_def Let_def ok_or_def elim!: bindE_okE
        split: option.splits opt_ser.splits)
  have "sent (node_tag sn) s' = sent (node_tag sn) s @ [?tx price_ix hash]"
    using s1 s3 s4 price_ix_sends [OF price] by (auto simp: eyre_rpc_ok_iff)
  moreover have "stage_ran sdk sn kp ix (?tx price_ix hash, cost, meta)"
    using price_ix_ok [OF price] s3 s4 meta by (fastforce simp: stage_ran_def stage_tx_def eyre_rpc_ok_iff)
  ultimately show ?thesis by blast
qed

lemma estimate_write_step:
  "estimate_write sdk libs sn nd kp cmd (index, chunk) (fee, metas) =
     bindE (ok_or (msg_fault ''out of range integral type conversion attempted'')
              (u64_of_len (min (index * max_chunk_size libs) (2 ^ 64 - 1)))) (\<lambda>off.
     bindE (lift_eyre (write_message_payload libs (gateway_root libs) kp cmd chunk off)) (\<lambda>ix.
     bindE (execute_and_get_cost sdk sn nd kp [ix]) (\<lambda>(cost, meta).
     retE (sat_add fee cost, metas @ [meta]))))"
  by (simp add: estimate_write_def)

text \<open>The instruction that writes a chunk, given with its index.\<close>

definition chunk_ix :: "'w gateway_libs \<Rightarrow> pubkey \<Rightarrow> hash256 \<Rightarrow> nat \<times> bytes \<Rightarrow> instruction \<Rightarrow> bool" where
  "chunk_ix libs kp cmd = (\<lambda>(index, chunk) ix. \<exists>off.
     u64_of_len (min (index * max_chunk_size libs) (2 ^ 64 - 1)) = Some off \<and>
     write_message_payload libs (gateway_root libs) kp cmd chunk off = Inr ix)"

lemma writes_estimated:
  "foldE (estimate_write sdk libs sn nd kp cmd) ws (fee, metas) s = (Inr (fee', metas'), s') \<Longrightarrow>
   \<exists>ixs rs. list_all2 (chunk_ix libs kp cmd) ws ixs \<and> list_all2 (stage_ran sdk sn kp) ixs rs \<and>
     sent (node_tag sn) s' = sent (node_tag sn) s @ map fst rs \<and>
     fee' = foldl sat_add fee (map (\<lambda>r. fst (snd r)) rs) \<and> metas' = metas @ map (\<lambda>r. snd (snd r)) rs"
proof (induction ws arbitrary: fee metas s)
  case (Cons w ws)
  obtain index chunk where w: "w = (index, chunk)" by fastforce
  from Cons.prems obtain off ix cost meta s1 where
    ix: "u64_of_len (min (index * max_chunk_size libs) (2 ^ 64 - 1)) = Some off"
      "write_message_payload libs (gateway_root libs) kp cmd chunk off = Inr ix"
    and run: "execute_and_get_cost sdk sn nd kp [ix] s = (Inr (cost, meta), s1)"
    and rest: "foldE (estimate_write sdk libs sn nd kp cmd) ws (sat_add fee cost, metas @ [meta]) s1 =
       (Inr (fee', metas'), s')"
    by (auto simp: w estimate_write_step ok_or_def elim!: bindE_okE split: option.splits)
  from stage_executed [OF run] obtain tx where "stage_ran sdk sn kp ix (tx, cost, meta)"
    "sent (node_tag sn) s1 = sent (node_tag sn) s @ [tx]" by blast
  moreover from Cons.IH [OF rest] obtain ixs rs where "list_all2 (chunk_ix libs kp cmd) ws ixs"
    "list_all2 (stage_ran sdk sn kp) ixs rs" "sent (node_tag sn) s' = sent (node_tag sn) s1 @ map fst rs"
    "fee' = foldl sat_add (sat_add fee cost) (map (\<lambda>r. fst (snd r)) rs)"
    "metas' = (metas @ [meta]) @ map (\<lambda>r. snd (snd r)) rs" by blast
  ultimately show ?case using ix
    by (intro exI [of _ "ix # ixs"] exI [of _ "(tx, cost, meta) # rs"]) (auto simp: w chunk_ix_def)
qed auto

lemma built_execute_only:
  "issues (sends_only tag carrying allowed) (build_execute_instruction libs nd signer m payload destination)"
  unfolding build_execute_instruction_def Let_def
  by (intro moves_if moves_map_fault issues_call issues_lift_eyre) (simp add: sends_only_def)

lemma confined_built_execute [confined_rules]:
  "confined (build_execute_instruction libs nd signer m payload destination)"
  unfolding build_execute_instruction_def Let_def by (intro confined_rules)

lemma estimate_only:
  "issues (sends_only (node_tag sn) (stage_tx sdk kp) (\<lambda>ixs. True))
     (estimate_total_execute_cost sdk libs sn nd kp m payload destination)"
  unfolding estimate_total_execute_cost_def estimate_write_def Let_def
  by (intro grow.bind grow.okor issues_lift_eyre execute_only moves_prod moves_if grow.fail
      grow.fold_list grow.ret built_execute_only) simp_all

lemma confined_estimate [confined_rules]:
  "confined (estimate_total_execute_cost sdk libs sn nd kp m payload destination)"
  unfolding estimate_total_execute_cost_def estimate_write_def Let_def
  by (intro confined_rules)

lemma estimate_ok:
  fixes s s' :: "('w, 'z) world_scheme"
  assumes "estimate_total_execute_cost sdk libs sn nd kp m payload destination s = (Inr (fee, bd), s')"
  shows "\<exists>len ix0 ixs ixc ixe ixz r0 rs rc re rz. let cmd = message_to_command_id libs m in
     u64_of_len (length payload) = Some len \<and>
     initialize_message_payload libs (gateway_root libs) kp cmd len = Inr ix0 \<and>
     list_all2 (chunk_ix libs kp cmd) (enumerate 0 (chunks (max_chunk_size libs) payload)) ixs \<and>
     commit_message_payload libs (gateway_root libs) kp cmd = Inr ixc \<and>
     (\<exists>(s1 :: ('w, 'z) world_scheme) s2. build_execute_instruction libs sn kp m payload destination s1 = (Inr ixe, s2)) \<and>
     close_message_payload libs (gateway_root libs) kp cmd = Inr ixz \<and>
     list_all2 (stage_ran sdk sn kp) (ix0 # ixs @ [ixc, ixe, ixz]) (r0 # rs @ [rc, re, rz]) \<and>
     sent (node_tag sn) s' = sent (node_tag sn) s @ map fst (r0 # rs @ [rc, re, rz]) \<and>
     fee = sat_sum (map (\<lambda>r. fst (snd r)) (r0 # rs @ [rc, re, rz])) \<and>
     bd = \<lparr>bd_initialization = snd (snd r0), bd_upload = map (\<lambda>r. snd (snd r)) rs,
        bd_commitment = snd (snd rc), bd_execution = snd (snd re), bd_closure = snd (snd rz)\<rparr>"
proof -
  let ?cmd = "message_to_command_id libs m"
  let ?ws = "enumerate 0 (chunks (max_chunk_size libs) payload)"
  from assms obtain len ix0 c0 m0 s1 f1 ms s2 ixc cc mc s3 ixe s4 ce me s5 ixz cz mz where
    len: "u64_of_len (length payload) = Some len"
    and ix0: "initialize_message_payload libs (gateway_root libs) kp ?cmd len = Inr ix0"
    and r0: "execute_and_get_cost sdk sn nd kp [ix0] s = (Inr (c0, m0), s1)"
    and ws: "foldE (estimate_write sdk libs sn nd kp ?cmd) ?ws (c0, []) s1 = (Inr (f1, ms), s2)"
    and ixc: "commit_message_payload libs (gateway_root libs) kp ?cmd = Inr ixc"
    and rc: "execute_and_get_cost sdk sn nd kp [ixc] s2 = (Inr (cc, mc), s3)"
    and ixe: "build_execute_instruction libs sn kp m payload destination s3 = (Inr ixe, s4)"
    and re: "execute_and_get_cost sdk sn nd kp [ixe] s4 = (Inr (ce, me), s5)"
    and ixz: "close_message_payload libs (gateway_root libs) kp ?cmd = Inr ixz"
    and rz: "execute_and_get_cost sdk sn nd kp [ixz] s5 = (Inr (cz, mz), s')"
    and fee: "fee = sat_add (sat_add (sat_add f1 cc) ce) cz"
    and bd: "bd = \<lparr>bd_initialization = m0, bd_upload = ms, bd_commitment = mc, bd_execution = me, bd_closure = mz\<rparr>"
    by (auto simp: estimate_total_execute_cost_def Let_def ok_or_def elim!: bindE_okE
        split: option.splits if_splits)
  have s4: "sent (node_tag sn) s4 = sent (node_tag sn) s3"
  proof -
    have "issues (\<lambda>q. send_of (node_tag sn) q = []) (build_execute_instruction libs sn kp m payload destination)"
      unfolding build_execute_instruction_def Let_def
      by (intro moves_if moves_map_fault issues_call issues_lift_eyre) simp
    then show ?thesis using ixe by (rule no_send_run)
  qed
  from stage_executed [OF r0] obtain t0 where
    t0: "stage_ran sdk sn kp ix0 (t0, c0, m0)" "sent (node_tag sn) s1 = sent (node_tag sn) s @ [t0]" by blast
  from stage_executed [OF rc] obtain tc where
    tc: "stage_ran sdk sn kp ixc (tc, cc, mc)" "sent (node_tag sn) s3 = sent (node_tag sn) s2 @ [tc]" by blast
  from stage_executed [OF re] obtain te where
    te: "stage_ran sdk sn kp ixe (te, ce, me)" "sent (node_tag sn) s5 = sent (node_tag sn) s4 @ [te]" by blast
  from stage_executed [OF rz] obtain tz where
    tz: "stage_ran sdk sn kp ixz (tz, cz, mz)" "sent (node_tag sn) s' = sent (node_tag sn) s5 @ [tz]" by blast
  obtain ixs rs where writes: "list_all2 (chunk_ix libs kp ?cmd) ?ws ixs" "list_all2 (stage_ran sdk sn kp) ixs rs"
    and s2: "sent (node_tag sn) s2 = sent (node_tag sn) s1 @ map fst rs"
    and f1: "f1 = foldl sat_add c0 (map (\<lambda>r. fst (snd r)) rs)" and ms: "ms = map (\<lambda>r. snd (snd r)) rs"
    using writes_estimated [OF ws] by auto
  let ?rs = "(t0, c0, m0) # rs @ [(tc, cc, mc), (te, ce, me), (tz, cz, mz)]"
  have all: "list_all2 (stage_ran sdk sn kp) (ix0 # ixs @ [ixc, ixe, ixz]) ?rs"
    using t0(1) tc(1) te(1) tz(1) writes(2) by (simp add: list_all2_appendI)
  have total_sent: "sent (node_tag sn) s' = sent (node_tag sn) s @ map fst ?rs"
    by (simp add: t0(2) tc(2) te(2) tz(2) s2 s4)
  have fees: "fee = sat_sum (map (\<lambda>r. fst (snd r)) ?rs)"
    by (simp add: sat_sum_def fee f1)
  have execute: "\<exists>(s1 :: ('w, 'z) world_scheme) s2. build_execute_instruction libs sn kp m payload destination s1 = (Inr ixe, s2)"
    using ixe by blast
  show ?thesis unfolding Let_def
    by (rule exI [of _ len], rule exI [of _ ix0], rule exI [of _ ixs], rule exI [of _ ixc],
        rule exI [of _ ixe], rule exI [of _ ixz], rule exI [of _ "(t0, c0, m0)"],
        rule exI [of _ rs], rule exI [of _ "(tc, cc, mc)"], rule exI [of _ "(te, ce, me)"],
        rule exI [of _ "(tz, cz, mz)"])
      (use all total_sent fees execute in \<open>simp add: len ix0 writes(1) ixc ixz bd ms\<close>)
qed

section \<open>The gas estimator\<close>

text \<open>\<open>RealGasEstimator::new\<close> connects to the fork.\<close>

definition estimator_client :: "'w node \<Rightarrow> 'w node" where
  "estimator_client sn = sn\<lparr>node_tag := SimNode\<rparr>"

lemma estimator_client_tag [simp]: "node_tag (estimator_client sn) = SimNode"
  by (simp add: estimator_client_def)

lemma issues_cache [issues_rules]: "issues P (cache_take k)" "issues P (cache_put k bd)"
  by (simp_all add: moves_def cache_take_def cache_put_def grows_def)

lemma silent_cache [silent_rules]: "moves same_channel (cache_take k)" "moves same_channel (cache_put k bd)"
  by (simp_all add: moves_def cache_take_def cache_put_def same_channel_def)

lemma ensure_only:
  "issues (sends_only (node_tag sn) (stage_tx sdk kp) (\<lambda>ixs. True))
     (ensure_enough_gas sdk libs sn nd kp m payload destination incoming available)"
  unfolding ensure_enough_gas_def
  by (intro grow.bind issues_cache moves_option estimate_only issues_calculate_cost moves_prod moves_if
      grow.ret grow.fail) (simp_all add: sends_only_def)

lemma ensure_silent:
  "moves same_channel (ensure_enough_gas sdk libs sn nd kp m payload destination incoming available)"
  unfolding ensure_enough_gas_def
  by (intro silent_rules silent_cache confined_silent confined_estimate confined_calculate_cost)

text \<open>
  What the task processor relies on: estimating neither sends to the chain that the relayer
  serves nor publishes.
\<close>

locale gas_estimator =
  fixes main :: node_tag
    and ensure :: "gmp_message \<Rightarrow> bytes \<Rightarrow> pubkey \<Rightarrow> pubkey \<Rightarrow> int
                    \<Rightarrow> (fault, ('w, 'z) processor_world_scheme, unit) io"
  assumes ensure_quiet: "issues (\<lambda>q. send_of main q = []) (ensure m payload destination incoming available)"
    and ensure_publishes_nothing: "moves same_channel (ensure m payload destination incoming available)"

lemma sends_only_other: "sends_only tag carrying allowed q \<Longrightarrow> k \<noteq> tag \<Longrightarrow> send_of k q = []"
  by (auto simp: sends_only_def)

interpretation simnet: gas_estimator MainNode "ensure_enough_gas sdk libs (estimator_client sn) nd kp"
  for sdk libs sn nd kp
proof
  show "issues (\<lambda>q. send_of MainNode q = [])
      (ensure_enough_gas sdk libs (estimator_client sn) nd kp m payload destination incoming available)"
    for m payload destination incoming available
    by (rule issues_mono [OF ensure_only]) (auto dest: sends_only_other)
qed (rule ensure_silent)

section \<open>Pricing again\<close>

definition stages :: "consumption_breakdown \<Rightarrow> stage_metadata list" where
  "stages bd = bd_initialization bd # bd_upload bd @ [bd_commitment bd, bd_execution bd, bd_closure bd]"

lemma calculate_cost_stages: "calculate_cost nd bd = foldE (add_stage nd) (stages bd) 0"
  unfolding calculate_cost_def stages_def
  by (simp add: foldE_append) (simp add: bindE_def fun_eq_iff split: sum.splits prod.splits)

lemma add_stage_error:
  "add_stage nd m fee s = (Inl e, s') \<Longrightarrow> \<exists>msg. e = msg_fault msg"
  by (auto simp: add_stage_def calculate_compute_unit_price_def eyre_rpc_def map_faultE_def
      split: if_splits sum.splits prod.splits elim!: bindE_errE)

lemma fold_add_stage_error:
  "foldE (add_stage nd) ms fee s = (Inl e, s') \<Longrightarrow> \<exists>msg. e = msg_fault msg"
  by (induction ms arbitrary: fee s) (auto elim!: bindE_errE dest: add_stage_error)

lemma calculate_cost_error: "calculate_cost nd bd s = (Inl e, s') \<Longrightarrow> \<exists>msg. e = msg_fault msg"
  unfolding calculate_cost_stages by (rule fold_add_stage_error)

lemma fold_add_stage_priced:
  assumes fees: "\<And>ks e. \<exists>e'. n_fees nd ks e = (Inr (recent ks), e')"
    and small: "list_all (\<lambda>m. length (sm_accounts m) \<le> 128) ms"
  shows "\<exists>s'. foldE (add_stage nd) ms fee s =
    (Inr (foldl sat_add fee (map (\<lambda>m. calculate_stage_fee m (fee_average (recent (sm_accounts m))))
       (filter (\<lambda>m. sm_accounts m \<noteq> []) ms))), s')"
  using small
proof (induction ms arbitrary: fee s)
  case (Cons m ms)
  show ?case
  proof (cases "sm_accounts m = []")
    case True
    with Cons show ?thesis by (simp add: add_stage_def)
  next
    case False
    from fees obtain e where "n_fees nd (sm_accounts m) (env s) = (Inr (recent (sm_accounts m)), e)" by blast
    with Cons.prems False obtain s1 where
      "add_stage nd m fee s =
         (Inr (sat_add fee (calculate_stage_fee m (fee_average (recent (sm_accounts m))))), s1)"
      by (simp add: add_stage_def calculate_compute_unit_price_def eyre_rpc_def map_faultE_def call_def bindE_def)
    with Cons False show ?thesis by (simp add: bindE_def)
  qed
qed simp

text \<open>Nodes that accept everything; the fork charges 5000 lamports for every transaction.\<close>

definition easy_node :: "node_tag \<Rightarrow> nat node" where
  "easy_node tag = ledger_node tag (\<lambda>a. []) (\<lambda>sig. Inr (plain_tx [] [] 5000))"

lemma easy_node_tag [simp]: "node_tag (easy_node tag) = tag"
  by (simp add: easy_node_def)

lemma eyre_rpc_apply:
  "f (env s) = (Inr x, e) \<Longrightarrow> eyre_rpc m q f s = (Inr x, s\<lparr>env := e, wire := wire s @ [q]\<rparr>)"
  by (simp add: eyre_rpc_ok_iff)

lemma easy_node_answers:
  "\<exists>h. n_blockhash (easy_node tag) e = (Inr h, Suc e)"
  "\<exists>sig. n_send (easy_node tag) tx e = (Inr sig, Suc e)"
  "n_transaction (easy_node tag) sig c e = (Inr (plain_tx [] [] 5000), Suc e)"
  "n_fees (easy_node tag) ks e = (Inr [100, 200, 300], Suc e)"
  by (simp_all add: easy_node_def ledger_node_def)

lemma touched_budget [simp]:
  "touched (cu_price_ix decimal_sdk p # ixs) = touched ixs"
  "touched (cu_limit_ix decimal_sdk l # ixs) = touched ixs"
  by (simp_all add: touched_def decimal_sdk_def)

lemma easy_price:
  "\<exists>s'. build_compute_unit_price_instruction decimal_sdk (easy_node MainNode) [] s =
     (Inr (cu_price_ix decimal_sdk (fee_average [100, 200, 300])), s')"
  by (simp add: build_compute_unit_price_instruction_def calculate_compute_unit_price_def bindE_def
      eyre_rpc_apply [where f = "n_fees n ks" for n ks] easy_node_answers(4))

lemma easy_execute:
  assumes "touched ixs = []"
  shows "\<exists>s'. execute_and_get_cost decimal_sdk (easy_node SimNode) (easy_node MainNode) kp ixs s =
    (Inr (5000, \<lparr>sm_units = 1000, sm_accounts = []\<rparr>), s')"
proof -
  obtain h where "n_blockhash (easy_node SimNode) (env s) = (Inr h, Suc (env s))"
    using easy_node_answers(1) by blast
  then obtain s1 where
    s1: "eyre_rpc ''Failed to get blockhash'' (ReqBlockhash SimNode) (n_blockhash (easy_node SimNode)) s = (Inr h, s1)"
    using eyre_rpc_apply [where f = "n_blockhash (easy_node SimNode)"] by blast
  let ?price = "cu_price_ix decimal_sdk (fee_average [100, 200, 300])"
  let ?tx = "\<lparr>tx_ixs = ?price # cu_limit_ix decimal_sdk 1400000 # ixs, tx_payer = kp, tx_hash = h\<rparr>"
  obtain s2 where s2: "build_compute_unit_price_instruction decimal_sdk (easy_node MainNode) [] s1 = (Inr ?price, s2)"
    using easy_price by blast
  obtain sig where "n_send (easy_node SimNode) ?tx (env s2) = (Inr sig, Suc (env s2))"
    using easy_node_answers(2) by blast
  then obtain s3 where
    s3: "eyre_rpc ''Failed to send transaction'' (ReqSend SimNode ?tx) (n_send (easy_node SimNode) ?tx) s2 = (Inr sig, s3)"
    using eyre_rpc_apply [where f = "n_send (easy_node SimNode) ?tx"] by blast
  from s1 s2 s3 assms show ?thesis
    by (simp add: execute_and_get_cost_def Let_def bindE_def eyre_rpc_apply [where f = "n_transaction n sig c" for n sig c] easy_node_answers(3))
      (simp add: plain_tx_def)
qed

lemma sample_builders:
  "initialize_message_payload sample_gateway r k c n = tagged_ix 1"
  "write_message_payload sample_gateway r k c b off = tagged_ix 2"
  "commit_message_payload sample_gateway r k c = tagged_ix 3"
  "close_message_payload sample_gateway r k c = tagged_ix 4"
  "executable_ix sample_gateway k m p a a' = tagged_ix 7"
  "its_id sample_gateway = 11" "governance_id sample_gateway = 12"
  "max_chunk_size sample_gateway = 2"
  by (simp_all add: sample_gateway_def max_chunk_size_def)

lemma easy_writes:
  "\<exists>acc' s'. foldE (estimate_write decimal_sdk sample_gateway (easy_node SimNode) (easy_node MainNode) kp cmd)
     (enumerate i cs) acc s = (Inr acc', s')"
  if "(i + length cs) * 2 < 2 ^ 64"
  using that
proof (induction cs arbitrary: i acc s)
  case (Cons c cs)
  obtain fee metas where acc: "acc = (fee, metas)" by fastforce
  have "touched [\<lparr>ix_program = 1, ix_metas = [], ix_data = [2]\<rparr>] = []" by (simp add: touched_def)
  from easy_execute [OF this] obtain s1 where
    s1: "execute_and_get_cost decimal_sdk (easy_node SimNode) (easy_node MainNode) kp
      [\<lparr>ix_program = 1, ix_metas = [], ix_data = [2]\<rparr>] s = (Inr (5000, \<lparr>sm_units = 1000, sm_accounts = []\<rparr>), s1)"
    by blast
  have "estimate_write decimal_sdk sample_gateway (easy_node SimNode) (easy_node MainNode) kp cmd (i, c) acc s =
      (Inr (sat_add fee 5000, metas @ [\<lparr>sm_units = 1000, sm_accounts = []\<rparr>]), s1)"
    using Cons.prems s1 by (simp add: acc estimate_write_step sample_builders tagged_ix_def bindE_def lift_eyre_def)
  moreover obtain acc' s' where "foldE (estimate_write decimal_sdk sample_gateway (easy_node SimNode) (easy_node MainNode) kp cmd)
     (enumerate (Suc i) cs) (sat_add fee 5000, metas @ [\<lparr>sm_units = 1000, sm_accounts = []\<rparr>]) s1 = (Inr acc', s')"
    using Cons.IH [of "Suc i"] Cons.prems by fastforce
  ultimately show ?case by (simp add: bindE_def)
qed simp

lemma length_chunks: "0 < n \<Longrightarrow> length (chunks n xs) \<le> length xs"
proof (induction n xs rule: chunks.induct)
  case (1 n xs)
  show ?case
  proof (cases "xs = []")
    case False
    with 1 have "length (chunks n (drop n xs)) \<le> length xs - n" by simp
    moreover have "0 < length xs" using False by simp
    ultimately have "Suc (length (chunks n (drop n xs))) \<le> length xs" using 1(2) by linarith
    then show ?thesis using 1(2) False by (simp add: chunks.simps [of n xs])
  qed simp
qed

lemma easy_estimate:
  assumes "length payload < 2 ^ 60" and "destination \<noteq> 11" and "destination \<noteq> 12"
  shows "\<exists>fee bd s'. estimate_total_execute_cost decimal_sdk sample_gateway (easy_node SimNode) (easy_node MainNode) kp
    m payload destination s = (Inr (fee, bd), s')"
proof -
  let ?m = "\<lparr>sm_units = 1000, sm_accounts = []\<rparr>"
  let ?run = "execute_and_get_cost decimal_sdk (easy_node SimNode) (easy_node MainNode) kp"
  let ?ix = "\<lambda>b. [\<lparr>ix_program = 1, ix_metas = [], ix_data = [b]\<rparr>]"
  let ?cmd = "message_to_command_id sample_gateway m"
  have "touched (?ix b) = []" for b by (simp add: touched_def)
  note easy = easy_execute [OF this]
  obtain s1 where s1: "?run (?ix 1) s = (Inr (5000, ?m), s1)" using easy by blast
  have "length (chunks 2 payload) * 2 < 2 ^ 64"
    using length_chunks [of 2 payload] assms(1) by simp
  then have "(0 + length (chunks 2 payload)) * 2 < 2 ^ 64" by simp
  then obtain acc s2 where s2: "foldE (estimate_write decimal_sdk sample_gateway (easy_node SimNode) (easy_node MainNode) kp ?cmd)
     (enumerate 0 (chunks 2 payload)) (5000, []) s1 = (Inr acc, s2)"
    using easy_writes [of 0 "chunks 2 payload" kp ?cmd "(5000, [])" s1] by blast
  obtain fee metas where acc: "acc = (fee, metas)" by fastforce
  obtain s4 where s4: "?run (?ix 3) s2 = (Inr (5000, ?m), s4)" using easy by blast
  obtain s5 where s5: "?run (?ix 7) s4 = (Inr (5000, ?m), s5)" using easy by blast
  obtain s6 where s6: "?run (?ix 4) s5 = (Inr (5000, ?m), s6)" using easy by blast
  have "length payload < 2 ^ 64" using assms(1) by simp
  then show ?thesis
    using assms(2,3) by (simp add: estimate_total_execute_cost_def Let_def bindE_def lift_eyre_def
        build_execute_instruction_def sample_builders tagged_ix_def s1 s2 [unfolded acc] s4 s5 s6)
qed

lemma easy_ensure:
  assumes "length payload < 2 ^ 60" and "destination \<noteq> 11" and "destination \<noteq> 12"
    and "gas_cache s incoming = None"
  shows "\<exists>s'. ensure_enough_gas decimal_sdk sample_gateway (easy_node SimNode) (easy_node MainNode) kp
    m payload destination incoming (2 ^ 64) s = (Inr (), s')"
proof -
  from easy_estimate [OF assms(1-3)] obtain fee bd s' where
    "estimate_total_execute_cost decimal_sdk sample_gateway (easy_node SimNode) (easy_node MainNode) kp
      m payload destination (s\<lparr>gas_cache := (gas_cache s)(incoming := None)\<rparr>) = (Inr (fee, bd), s')" by blast
  moreover have "\<not> 2 ^ 64 < uint fee" using uint_lt2p [of fee] by simp
  ultimately show ?thesis using assms(4) by (simp add: ensure_enough_gas_def cache_take_def bindE_def)
qed

definition sample_breakdown :: consumption_breakdown where
  "sample_breakdown = \<lparr>bd_initialization = \<lparr>sm_units = 200000, sm_accounts = [1]\<rparr>, bd_upload = [],
     bd_commitment = no_stage, bd_execution = no_stage, bd_closure = no_stage\<rparr>"

lemma easy_fees: "\<exists>e'. n_fees (easy_node MainNode) ks e = (Inr [100, 200, 300], e')"
  by (simp add: easy_node_def ledger_node_def)

lemma sample_stage_fees:
  "sat_sum (map (\<lambda>m. calculate_stage_fee m (fee_average [100, 200, 300]))
     (filter (\<lambda>m. sm_accounts m \<noteq> []) (stages sample_breakdown))) = 40005000"
proof -
  have "fee_average [100, 200, 300] = 200"
    by (simp add: word_unat_eq_iff fee_average_unat unat_sat_sum)
  then show ?thesis
    by (simp add: sample_breakdown_def stages_def no_stage_def calculate_stage_fee_def sat_sum_def
        sat_add_def sat_mul_def)
qed

lemma sample_sizes: "list_all (\<lambda>m. length (sm_accounts m) \<le> 128) (stages sample_breakdown)"
  by (simp add: sample_breakdown_def stages_def no_stage_def)

lemma sample_price: "\<exists>s'. calculate_cost (easy_node MainNode) sample_breakdown s = (Inr 40005000, s')"
  using fold_add_stage_priced [OF easy_fees sample_sizes, of 0 s] sample_stage_fees
  by (simp add: calculate_cost_stages sat_sum_def)

section \<open>Properties\<close>

text \<open>
  C35. An estimate that succeeds has run the task on the fork, every stage in order: the payload
  account initialized with the payload's length, every chunk written, the payload committed, the
  message executed, the account closed, each stage one transaction that carries its one
  instruction behind a price and the largest limit. The estimate is the saturating sum of the
  fees that the fork reports for these transactions, the breakdown records for each stage the
  units it reports and the accounts touched, and no other node is sent anything.
\<close>

theorem estimation_runs_every_stage:
  fixes s s' :: "('w, 'z) world_scheme"
  assumes "estimate_total_execute_cost sdk libs sn nd kp m payload destination s = (Inr (fee, bd), s')"
  shows "(\<exists>len ix0 ixs ixc ixe ixz r0 rs rc re rz. let cmd = message_to_command_id libs m in
     u64_of_len (length payload) = Some len \<and>
     initialize_message_payload libs (gateway_root libs) kp cmd len = Inr ix0 \<and>
     list_all2 (chunk_ix libs kp cmd) (enumerate 0 (chunks (max_chunk_size libs) payload)) ixs \<and>
     commit_message_payload libs (gateway_root libs) kp cmd = Inr ixc \<and>
     (\<exists>(s1 :: ('w, 'z) world_scheme) s2. build_execute_instruction libs sn kp m payload destination s1 = (Inr ixe, s2)) \<and>
     close_message_payload libs (gateway_root libs) kp cmd = Inr ixz \<and>
     list_all2 (stage_ran sdk sn kp) (ix0 # ixs @ [ixc, ixe, ixz]) (r0 # rs @ [rc, re, rz]) \<and>
     sent (node_tag sn) s' = sent (node_tag sn) s @ map fst (r0 # rs @ [rc, re, rz]) \<and>
     fee = sat_sum (map (\<lambda>r. fst (snd r)) (r0 # rs @ [rc, re, rz])) \<and>
     bd = \<lparr>bd_initialization = snd (snd r0), bd_upload = map (\<lambda>r. snd (snd r)) rs,
        bd_commitment = snd (snd rc), bd_execution = snd (snd re), bd_closure = snd (snd rz)\<rparr>) \<and>
   (\<forall>k. k \<noteq> node_tag sn \<longrightarrow> sent k s' = sent k s)"
  using estimate_ok [OF assms] sends_only_run [OF estimate_only assms] by blast

lemma estimation_runs_every_stage_witness:
  "\<exists>fee bd s'. estimate_total_execute_cost decimal_sdk sample_gateway (easy_node SimNode) (easy_node MainNode) 5
       sample_message [1, 2, 3] 15 start_world = (Inr (fee, bd), s') \<and>
     length (sent SimNode s') = 6 \<and> sent MainNode s' = []"
proof -
  have chunks: "chunks 2 [1, 2, 3 :: u8] = [[1, 2], [3]]" by (simp add: chunks.simps [of 2])
  obtain fee bd s' where run: "estimate_total_execute_cost decimal_sdk sample_gateway (easy_node SimNode)
      (easy_node MainNode) 5 sample_message [1, 2, 3] 15 start_world = (Inr (fee, bd), s')"
    using easy_estimate [of "[1, 2, 3]" 15 5 sample_message start_world] by auto
  from estimation_runs_every_stage [OF run] have "length (sent SimNode s') = 6" "sent MainNode s' = []"
    by (auto simp: Let_def sample_builders chunks sent_def dest!: list_all2_lengthD)
  with run show ?thesis by blast
qed

text \<open>
  C36. Pricing a cached breakdown: the saturating sum, over the stages that touched an account,
  of five thousand lamports plus units times the average recent fee of the accounts. The average
  fee is a price in millionths of a lamport per unit and the product is not divided by a million,
  so a breakdown of 200000 units at a price of 1000 is priced at 200005000 lamports (5200 with
  the division).
\<close>

theorem cached_price_closed_form:
  assumes "\<And>ks e. \<exists>e'. n_fees nd ks e = (Inr (recent ks), e')"
    and "list_all (\<lambda>m. length (sm_accounts m) \<le> 128) (stages bd)"
  shows "\<exists>s'. calculate_cost nd bd s =
    (Inr (sat_sum (map (\<lambda>m. calculate_stage_fee m (fee_average (recent (sm_accounts m))))
       (filter (\<lambda>m. sm_accounts m \<noteq> []) (stages bd)))), s') \<and>
    (\<forall>m p. unat (calculate_stage_fee m p) =
       min (2 ^ 64 - 1) (5000 + min (2 ^ 64 - 1) (unat (sm_units m) * unat p)))"
  using fold_add_stage_priced [OF assms, of 0 s]
  by (auto simp: calculate_cost_stages sat_sum_def calculate_stage_fee_def unat_sat_add unat_sat_mul)

lemma cached_price_closed_form_witness:
  "\<exists>s'. calculate_cost (easy_node MainNode) sample_breakdown start_world = (Inr 40005000, s')"
  using cached_price_closed_form [OF easy_fees sample_sizes, of start_world] sample_stage_fees by auto

text \<open>
  A message whose estimate is cached is never simulated again while the entry lasts: no node
  is sent a transaction. It passes exactly when its price is within the available gas; it fails
  for lack of gas with the entry back in the cache; and when its price cannot be computed the
  entry is lost, so that the next attempt simulates the task again.
\<close>

theorem cached_estimate_reused:
  assumes "gas_cache s incoming = Some bd"
    and "ensure_enough_gas sdk libs sn nd kp m payload destination incoming available s = (r, s')"
  shows "(\<forall>k. sent k s' = sent k s) \<and>
    (case fst (calculate_cost nd bd (s\<lparr>gas_cache := (gas_cache s)(incoming := None)\<rparr>)) of
       Inl e \<Rightarrow> r = Inl e \<and> gas_cache s' = (gas_cache s)(incoming := None)
     | Inr cost \<Rightarrow>
         if uint cost \<le> available then r = Inr () \<and> gas_cache s' = (gas_cache s)(incoming := None)
         else r = Inl (Err (InsufficientGasBalance (uint cost) available)) \<and> gas_cache s' = gas_cache s)"
proof (cases "calculate_cost nd bd (s\<lparr>gas_cache := (gas_cache s)(incoming := None)\<rparr>)")
  case (Pair q s1)
  have "issues (\<lambda>q. send_of k q = []) (calculate_cost nd bd)" for k
    by (intro issues_calculate_cost) simp
  from no_send_run [OF this Pair] have quiet: "sent k s1 = sent k s" for k by (simp add: sent_def)
  have "same_component (s\<lparr>gas_cache := (gas_cache s)(incoming := None)\<rparr>) s1"
    using confined_calculate_cost Pair by (rule movesD)
  then have cache: "gas_cache s1 = (gas_cache s)(incoming := None)"
    by (auto simp: same_component_def)
  show ?thesis
  proof (cases q)
    case (Inl e)
    with assms Pair have "r = Inl e" "s' = s1"
      by (auto simp: ensure_enough_gas_def cache_take_def bindE_def)
    with Pair Inl quiet cache show ?thesis by simp
  next
    case (Inr cost)
    show ?thesis
    proof (cases "uint cost \<le> available")
      case True
      with assms Pair Inr have "r = Inr ()" "s' = s1"
        by (auto simp: ensure_enough_gas_def cache_take_def bindE_def)
      with Pair Inr quiet cache True show ?thesis by simp
    next
      case False
      with assms Pair Inr have "r = Inl (Err (InsufficientGasBalance (uint cost) available))"
        and s': "s' = s1\<lparr>gas_cache := (gas_cache s1)(incoming \<mapsto> bd)\<rparr>"
        by (auto simp: ensure_enough_gas_def cache_take_def cache_put_def bindE_def)
      moreover have "gas_cache s' = gas_cache s" using assms(1) by (auto simp: s' cache fun_upd_idem)
      moreover have "sent k s' = sent k s" for k using quiet by (simp add: s' sent_def)
      ultimately show ?thesis using Pair Inr False by simp
    qed
  qed
qed

lemma cached_estimate_reused_witness:
  "\<exists>s'. ensure_enough_gas decimal_sdk sample_gateway (easy_node SimNode) (easy_node MainNode) 5 sample_message
       [1, 2, 3] 15 8 10
       \<lparr>env = 0, wire = [], published = [], amplifier_open = True, gas_cache = [8 \<mapsto> sample_breakdown]\<rparr> =
       (Inl (Err (InsufficientGasBalance 40005000 10)), s') \<and>
     sent SimNode s' = [] \<and> gas_cache s' 8 = Some sample_breakdown"
proof -
  let ?s = "\<lparr>env = 0, wire = [], published = [], amplifier_open = True, gas_cache = [8 \<mapsto> sample_breakdown]\<rparr>
    :: nat processor_world"
  obtain r s' where run: "ensure_enough_gas decimal_sdk sample_gateway (easy_node SimNode) (easy_node MainNode) 5
      sample_message [1, 2, 3] 15 8 10 ?s = (r, s')" by fastforce
  have cached: "gas_cache ?s 8 = Some sample_breakdown" by simp
  have "fst (calculate_cost (easy_node MainNode) sample_breakdown
      (?s\<lparr>gas_cache := (gas_cache ?s)(8 := None)\<rparr>)) = Inr 40005000"
    using sample_price by (metis fst_conv)
  with cached_estimate_reused [OF cached run] run show ?thesis by (simp add: sent_def)
qed

end
