(* ===== verification/GasComputation.thy ===== *)
theory GasComputation
  imports TxFetch
begin

text \<open>
  \<open>crates/gateway-gas-computation/src/lib.rs\<close>: the lamports spent on an operation of the
  gateway that takes several transactions. The gateway's instruction set and its borsh decoder
  are third-party; the model has the constructors the code matches on and takes the decoders as
  parameters. The paging loop has no bound of its own and is modelled with fuel (one unit per
  request); \<open>fetch_signatures_complete\<close> says how much is enough.
\<close>

section \<open>Definitions\<close>

text \<open>The only field of an instruction the code reads is the \<open>set_size\<close> of an approved message.\<close>

datatype gateway_ix =
    ApproveMessage u64
  | RotateSigners
  | CallContract
  | InitializeConfig
  | InitializePayloadVerificationSession
  | VerifySignature
  | InitializeMessagePayload
  | WriteMessagePayload
  | CommitMessagePayload
  | CloseMessagePayload
  | ValidateMessage
  | TransferOperatorship

record gateway_codec =
  decode_gateway_ix :: "bytes \<Rightarrow> gateway_ix option"
  is_axelar_message :: "bytes \<Rightarrow> bool"

definition page_limit :: nat where
  "page_limit = 1000"

fun fetch_signatures_from ::
  "nat \<Rightarrow> sdk \<Rightarrow> 'w node \<Rightarrow> commitment \<Rightarrow> pubkey \<Rightarrow> signature option \<Rightarrow> signature list
     \<Rightarrow> (fault, ('w, 'z) world_scheme, signature list) io" where
  "fetch_signatures_from 0 sdk nd c a before acc = failE Diverge"
| "fetch_signatures_from (Suc n) sdk nd c a before acc =
     bindE (rpc (ReqSignatures (node_tag nd) a before None page_limit)
              (n_signatures nd a before None page_limit c)) (\<lambda>page.
     if page = [] then retE acc
     else case parse_signature sdk (st_signature (last page)) of
            None \<Rightarrow> failE (msg_fault ''invalid signature'')
          | Some b \<Rightarrow> fetch_signatures_from n sdk nd c a (Some b)
              (acc @ List.map_filter (\<lambda>info. parse_signature sdk (st_signature info)) page))"

definition fetch_signatures ::
  "nat \<Rightarrow> sdk \<Rightarrow> 'w node \<Rightarrow> commitment \<Rightarrow> pubkey
     \<Rightarrow> (fault, ('w, 'z) world_scheme, signature list) io" where
  "fetch_signatures fuel sdk nd c a = fetch_signatures_from fuel sdk nd c a None []"

fun is_verification_ix :: "gateway_ix \<Rightarrow> bool" where
  "is_verification_ix InitializePayloadVerificationSession = True"
| "is_verification_ix VerifySignature = True"
| "is_verification_ix _ = False"

fun is_upload_ix :: "gateway_ix \<Rightarrow> bool" where
  "is_upload_ix InitializeMessagePayload = True"
| "is_upload_ix WriteMessagePayload = True"
| "is_upload_ix CommitMessagePayload = True"
| "is_upload_ix CloseMessagePayload = True"
| "is_upload_ix _ = False"

text \<open>
  The body the two cost functions share: the whole fee of a successful transaction is added
  once for every instruction of the gateway that is of the wanted kind.
\<close>

definition add_ix_cost ::
  "gateway_codec \<Rightarrow> (gateway_ix \<Rightarrow> bool) \<Rightarrow> pubkey \<Rightarrow> u64
     \<Rightarrow> u64 \<Rightarrow> pubkey \<times> pubkey list \<times> bytes \<Rightarrow> u64" where
  "add_ix_cost codec wanted gateway cost tot ix =
     (case ix of (program, accounts, payload) \<Rightarrow>
        (case decode_gateway_ix codec payload of
           None \<Rightarrow> tot
         | Some d \<Rightarrow> if program \<noteq> gateway then tot
                     else if wanted d then sat_add tot cost else tot))"

fun add_tx_cost ::
  "gateway_codec \<Rightarrow> (gateway_ix \<Rightarrow> bool) \<Rightarrow> pubkey \<Rightarrow> u64 \<Rightarrow> tx_status \<Rightarrow> u64" where
  "add_tx_cost codec wanted gateway tot (Failed tx e) = tot"
| "add_tx_cost codec wanted gateway tot (Successful tx) =
     foldl (add_ix_cost codec wanted gateway (lt_cost tx)) tot (lt_ixs tx)"

definition cost_of_signature_verification ::
  "nat \<Rightarrow> sdk \<Rightarrow> gateway_codec \<Rightarrow> 'w runtime \<Rightarrow> 'w node \<Rightarrow> commitment \<Rightarrow> pubkey \<Rightarrow> pubkey
     \<Rightarrow> (fault, ('w, 'z) world_scheme, u64) io" where
  "cost_of_signature_verification fuel sdk codec rt nd c session gateway =
     bindE (fetch_signatures fuel sdk nd c session) (\<lambda>sigs.
     bindE (try_unordered (pick rt) (fetch_transaction sdk rt nd c) sigs) (\<lambda>txs.
     retE (foldl (add_tx_cost codec is_verification_ix gateway) 0 txs)))"

definition cost_of_payload_uploading ::
  "nat \<Rightarrow> sdk \<Rightarrow> gateway_codec \<Rightarrow> 'w runtime \<Rightarrow> 'w node \<Rightarrow> commitment \<Rightarrow> pubkey \<Rightarrow> pubkey
     \<Rightarrow> (fault, ('w, 'z) world_scheme, u64) io" where
  "cost_of_payload_uploading fuel sdk codec rt nd c payload_pda gateway =
     bindE (fetch_signatures fuel sdk nd c payload_pda) (\<lambda>sigs.
     bindE (try_unordered (pick rt) (fetch_transaction sdk rt nd c) sigs) (\<lambda>txs.
     retE (foldl (add_tx_cost codec is_upload_ix gateway) 0 txs)))"

definition nth_account :: "pubkey list \<Rightarrow> nat \<Rightarrow> pubkey option" where
  "nth_account accounts i = (if i < length accounts then Some (accounts ! i) else None)"

definition add_gas ::
  "nat \<Rightarrow> sdk \<Rightarrow> gateway_codec \<Rightarrow> 'w runtime \<Rightarrow> 'w node \<Rightarrow> commitment \<Rightarrow> pubkey
     \<Rightarrow> pubkey \<times> pubkey list \<times> bytes \<Rightarrow> u64 \<Rightarrow> (fault, ('w, 'z) world_scheme, u64) io" where
  "add_gas fuel sdk codec rt nd c gateway ix tot =
     (case ix of (program, accounts, payload) \<Rightarrow>
        if program = gateway then
          (case decode_gateway_ix codec payload of
             Some (ApproveMessage set_size) \<Rightarrow>
               (case nth_account accounts 2 of
                  None \<Rightarrow> retE tot
                | Some session \<Rightarrow>
                    bindE (cost_of_signature_verification fuel sdk codec rt nd c session gateway)
                      (\<lambda>cost. retE (sat_add tot (div_or_zero cost set_size))))
           | Some RotateSigners \<Rightarrow>
               (case nth_account accounts 1 of
                  None \<Rightarrow> retE tot
                | Some session \<Rightarrow>
                    bindE (cost_of_signature_verification fuel sdk codec rt nd c session gateway)
                      (\<lambda>cost. retE (sat_add tot cost)))
           | _ \<Rightarrow> retE tot)
        else if is_axelar_message codec payload then
          (case nth_account accounts 1 of
             None \<Rightarrow> retE tot
           | Some payload_pda \<Rightarrow>
               bindE (cost_of_payload_uploading fuel sdk codec rt nd c payload_pda gateway)
                 (\<lambda>cost. retE (sat_add tot cost)))
        else retE tot)"

definition compute_total_gas ::
  "nat \<Rightarrow> sdk \<Rightarrow> gateway_codec \<Rightarrow> 'w runtime \<Rightarrow> 'w node \<Rightarrow> commitment \<Rightarrow> pubkey \<Rightarrow> solana_tx
     \<Rightarrow> (fault, ('w, 'z) world_scheme, u64) io" where
  "compute_total_gas fuel sdk codec rt nd c gateway tx =
     foldE (add_gas fuel sdk codec rt nd c gateway) (lt_ixs tx) (lt_cost tx)"

section \<open>The paging loop\<close>

lemma issues_fetch_signatures [issues_rules]:
  "(\<And>b. P (ReqSignatures (node_tag nd) a b None page_limit)) \<Longrightarrow>
   issues P (fetch_signatures_from fuel sdk nd c a before acc)"
proof (induction fuel arbitrary: before acc)
  case 0
  show ?case unfolding fetch_signatures_from.simps by (rule grow.fail)
next
  case (Suc n)
  show ?case unfolding fetch_signatures_from.simps
    by (intro grow.bind issues_rpc moves_if grow.ret moves_option grow.fail Suc.IH Suc.prems)
qed

lemma map_filter_status:
  "(\<And>sig. parse_signature sdk (enc sig) = Some sig) \<Longrightarrow>
   List.map_filter (\<lambda>info. parse_signature sdk (st_signature info)) (map (status_entry enc) xs) = map fst xs"
  by (induction xs) (simp_all add: status_entry_def)

text \<open>
  Against a node that serves the documented method, the loop returns the whole history of the
  address, newest first, and one request per thousand entries plus one suffices.
\<close>

lemma fetch_signatures_run:
  assumes srv: "serves sdk nd c enc hist"
    and "length (sig_range (hist a) before None) \<le> page_limit * n"
  shows "fst (fetch_signatures_from (Suc n) sdk nd c a before acc s) =
           Inr (acc @ map fst (sig_range (hist a) before None))"
  using assms(2)
proof (induction n arbitrary: before acc s)
  have enc: "parse_signature sdk (enc sig) = Some sig" for sig
    using srv by (simp add: serves_def)
  {
    fix n before acc s
    define page where "page = take page_limit (sig_range (hist a) before None)"
    obtain r e where run: "n_signatures nd a before None page_limit c (env s) = (r, e)" by fastforce
    with srv have "r = Inr (map (status_entry enc) page)"
      by (metis fst_conv page_def serves_def)
    with run have "rpc (ReqSignatures (node_tag nd) a before None page_limit)
        (n_signatures nd a before None page_limit c) s =
        (Inr (map (status_entry enc) page), s\<lparr>env := e,
           wire := wire s @ [ReqSignatures (node_tag nd) a before None page_limit]\<rparr>)"
      by (simp add: rpc_apply)
    then have "\<exists>s1. fetch_signatures_from (Suc n) sdk nd c a before acc s =
        (if page = [] then retE acc
         else fetch_signatures_from n sdk nd c a (Some (fst (last page))) (acc @ map fst page)) s1"
      by (auto simp: bindE_def last_map map_filter_status enc status_entry_def
          intro!: exI [of _ "s\<lparr>env := e,
           wire := wire s @ [ReqSignatures (node_tag nd) a before None page_limit]\<rparr>"])
  } note step = this
  {
    case 0
    then have "sig_range (hist a) before None = []" by simp
    with step [of 0 before acc s] show ?case by auto
  next
    case (Suc n)
    define page where "page = take page_limit (sig_range (hist a) before None)"
    show ?case
    proof (cases "page = []")
      case True
      then have "sig_range (hist a) before None = []" by (simp add: page_def page_limit_def)
      with True step [of "Suc n" before acc s] show ?thesis by (auto simp: page_def)
    next
      case False
      have "distinct (map fst (hist a))" using srv by (simp add: serves_def)
      from sig_range_next [OF this page_def False]
      have next_range: "sig_range (hist a) (Some (fst (last page))) None =
        drop page_limit (sig_range (hist a) before None)" .
      with Suc.prems have "length (sig_range (hist a) (Some (fst (last page))) None) \<le> page_limit * n"
        by simp
      from Suc.IH [OF this] step [of "Suc n" before acc s] False
      have "fst (fetch_signatures_from (Suc (Suc n)) sdk nd c a before acc s) =
        Inr ((acc @ map fst page) @ map fst (sig_range (hist a) (Some (fst (last page))) None))"
        by (auto simp: page_def)
      also have "(acc @ map fst page) @ map fst (sig_range (hist a) (Some (fst (last page))) None) =
          acc @ map fst (sig_range (hist a) before None)"
        unfolding next_range by (simp add: page_def flip: map_append)
      finally show ?thesis .
    qed
  }
qed

lemma fetch_signatures_result:
  assumes "serves sdk nd c enc hist" and "length (hist a) \<le> page_limit * n"
  shows "fst (fetch_signatures (Suc n) sdk nd c a s) = Inr (map fst (hist a))"
  using fetch_signatures_run [OF assms(1), of a None n "[]" s] assms(2)
  by (simp add: fetch_signatures_def sig_range_def older_than_def newer_than_def)

section \<open>Closed forms\<close>

text \<open>
  What a transaction is charged: its whole fee once per wanted instruction. A transaction that
  carries two of them is therefore charged twice.
\<close>

definition wanted_ix ::
  "gateway_codec \<Rightarrow> (gateway_ix \<Rightarrow> bool) \<Rightarrow> pubkey \<Rightarrow> pubkey \<times> pubkey list \<times> bytes \<Rightarrow> bool" where
  "wanted_ix codec wanted gateway ix =
     (case ix of (program, accounts, payload) \<Rightarrow> program = gateway \<and>
        (case decode_gateway_ix codec payload of None \<Rightarrow> False | Some d \<Rightarrow> wanted d))"

definition wanted_ixs ::
  "gateway_codec \<Rightarrow> (gateway_ix \<Rightarrow> bool) \<Rightarrow> pubkey \<Rightarrow> solana_tx \<Rightarrow> nat" where
  "wanted_ixs codec wanted gateway tx = length (filter (wanted_ix codec wanted gateway) (lt_ixs tx))"

definition session_fees ::
  "gateway_codec \<Rightarrow> (gateway_ix \<Rightarrow> bool) \<Rightarrow> pubkey \<Rightarrow> solana_tx list \<Rightarrow> u64" where
  "session_fees codec wanted gateway txs =
     sat_sum (concat (map (\<lambda>tx. replicate (wanted_ixs codec wanted gateway tx) (lt_cost tx)) txs))"

lemma add_ix_cost_if:
  "add_ix_cost codec wanted gateway cost tot ix =
     (if wanted_ix codec wanted gateway ix then sat_add tot cost else tot)"
  by (cases ix) (simp add: add_ix_cost_def wanted_ix_def split: option.splits)

lemma add_ixs_cost:
  "foldl (add_ix_cost codec wanted gateway cost) tot ixs =
     foldl sat_add tot (replicate (length (filter (wanted_ix codec wanted gateway) ixs)) cost)"
  by (induction ixs arbitrary: tot) (simp_all add: add_ix_cost_if)

lemma add_txs_cost:
  "foldl (add_tx_cost codec wanted gateway) tot sts =
     sat_add tot (session_fees codec wanted gateway (concat (map (\<lambda>st. ok_tx (Inr st)) sts)))"
proof (induction sts arbitrary: tot)
  case Nil
  show ?case by (simp add: session_fees_def sat_sum_def)
next
  case (Cons st sts)
  show ?case
  proof (cases st)
    case (Successful tx)
    have "sat_sum (us @ vs) = sat_add (sat_sum us) (sat_sum vs)" for us vs
      unfolding sat_sum_def foldl_append by (simp add: foldl_sat_add_sum [of "foldl sat_add 0 us"] sat_sum_def)
    with Successful Cons.IH show ?thesis
      by (simp add: session_fees_def add_ixs_cost wanted_ixs_def foldl_sat_add_sum [of tot] sat_add_assoc)
  qed (simp add: Cons.IH)
qed

lemma session_fees_perm:
  "mset xs = mset ys \<Longrightarrow> session_fees codec wanted gateway xs = session_fees codec wanted gateway ys"
proof -
  assume eq: "mset xs = mset ys"
  have "mset (concat (map f zs)) = (\<Sum>z\<in>#mset zs. mset (f z))" for f :: "solana_tx \<Rightarrow> u64 list" and zs
    by (induction zs) auto
  with eq show ?thesis unfolding session_fees_def by (intro sat_sum_perm) simp
qed

text \<open>A ledger whose every signature of \<open>a\<close> can be fetched and parsed.\<close>

definition readable ::
  "sdk \<Rightarrow> (signature \<Rightarrow> client_error + encoded_tx) \<Rightarrow> history \<Rightarrow> bool" where
  "readable sdk db h \<longleftrightarrow> list_all (\<lambda>x. \<not> (case status_of sdk db (fst x) of Inl e \<Rightarrow> True | Inr st \<Rightarrow> False)) h"

definition history_fees ::
  "sdk \<Rightarrow> gateway_codec \<Rightarrow> (gateway_ix \<Rightarrow> bool) \<Rightarrow> pubkey
     \<Rightarrow> (signature \<Rightarrow> client_error + encoded_tx) \<Rightarrow> history \<Rightarrow> u64" where
  "history_fees sdk codec wanted gateway db h =
     session_fees codec wanted gateway (delivered sdk db (map fst h))"

lemma fetched_fees:
  assumes ans: "answers rt nd c db" and ok: "readable sdk db h"
  shows "\<exists>sts s'. try_unordered (pick rt) (fetch_transaction sdk rt nd c) (map fst h) s = (Inr sts, s') \<and>
     foldl (add_tx_cost codec wanted gateway) 0 sts = history_fees sdk codec wanted gateway db h"
proof -
  have "\<exists>ys sts. mset ys = mset (map fst h) \<and> list_all2 (\<lambda>x st. status_of sdk db x = Inr st) ys sts \<and>
     fst (try_unordered (pick rt) (fetch_transaction sdk rt nd c) (map fst h) s) = Inr sts"
    using try_unordered_results [where f = "fetch_transaction sdk rt nd c" and g = "status_of sdk db"
        and xs = "map fst h" and s = s and p = "pick rt", OF fetch_answers [OF ans]] ok
    by (auto simp: readable_def list_all_iff split: sum.splits)
  then obtain ys sts where ys: "mset ys = mset (map fst h)"
    and all: "list_all2 (\<lambda>x st. status_of sdk db x = Inr st) ys sts"
    and run: "fst (try_unordered (pick rt) (fetch_transaction sdk rt nd c) (map fst h) s) = Inr sts"
    by blast
  from all have "concat (map (\<lambda>st. ok_tx (Inr st)) sts) = delivered sdk db ys"
    by (induction rule: list_all2_induct) auto
  then have "foldl (add_tx_cost codec wanted gateway) 0 sts =
      session_fees codec wanted gateway (delivered sdk db ys)"
    by (simp add: add_txs_cost)
  also have "\<dots> = history_fees sdk codec wanted gateway db h"
    unfolding history_fees_def by (rule session_fees_perm) (rule delivered_perm [OF ys])
  finally show ?thesis using run
    by (intro exI [of _ sts] exI [of _ "snd (try_unordered (pick rt) (fetch_transaction sdk rt nd c) (map fst h) s)"])
      (simp add: prod_eq_iff)
qed

lemma cost_of_signature_verification_result:
  assumes srv: "serves sdk nd c enc hist" and ans: "answers rt nd c db"
    and len: "length (hist a) \<le> page_limit * n" and ok: "readable sdk db (hist a)"
  shows "fst (cost_of_signature_verification (Suc n) sdk codec rt nd c a gateway s) =
           Inr (history_fees sdk codec is_verification_ix gateway db (hist a))"
proof -
  obtain s1 where "fetch_signatures (Suc n) sdk nd c a s = (Inr (map fst (hist a)), s1)"
    using fetch_signatures_result [where s = s, OF srv len] by (metis prod.collapse)
  with fetched_fees [OF ans ok, of s1 codec is_verification_ix gateway] show ?thesis
    by (auto simp: cost_of_signature_verification_def bindE_def)
qed

lemma cost_of_payload_uploading_result:
  assumes srv: "serves sdk nd c enc hist" and ans: "answers rt nd c db"
    and len: "length (hist a) \<le> page_limit * n" and ok: "readable sdk db (hist a)"
  shows "fst (cost_of_payload_uploading (Suc n) sdk codec rt nd c a gateway s) =
           Inr (history_fees sdk codec is_upload_ix gateway db (hist a))"
proof -
  obtain s1 where "fetch_signatures (Suc n) sdk nd c a s = (Inr (map fst (hist a)), s1)"
    using fetch_signatures_result [where s = s, OF srv len] by (metis prod.collapse)
  with fetched_fees [OF ans ok, of s1 codec is_upload_ix gateway] show ?thesis
    by (auto simp: cost_of_payload_uploading_def bindE_def)
qed

text \<open>The gas one instruction adds.\<close>

definition ix_gas ::
  "sdk \<Rightarrow> gateway_codec \<Rightarrow> pubkey \<Rightarrow> (signature \<Rightarrow> client_error + encoded_tx) \<Rightarrow> (pubkey \<Rightarrow> history)
     \<Rightarrow> pubkey \<times> pubkey list \<times> bytes \<Rightarrow> u64" where
  "ix_gas sdk codec gateway db hist ix =
     (case ix of (program, accounts, payload) \<Rightarrow>
        let fees = (\<lambda>wanted i. case nth_account accounts i of None \<Rightarrow> 0
                      | Some a \<Rightarrow> history_fees sdk codec wanted gateway db (hist a))
        in if program = gateway then
             (case decode_gateway_ix codec payload of
                Some (ApproveMessage set_size) \<Rightarrow> div_or_zero (fees is_verification_ix 2) set_size
              | Some RotateSigners \<Rightarrow> fees is_verification_ix 1
              | _ \<Rightarrow> 0)
           else if is_axelar_message codec payload then fees is_upload_ix 1 else 0)"

lemma add_gas_result:
  assumes srv: "serves sdk nd c enc hist" and ans: "answers rt nd c db"
    and len: "\<And>a. length (hist a) \<le> page_limit * n" and ok: "\<And>a. readable sdk db (hist a)"
  shows "fst (add_gas (Suc n) sdk codec rt nd c gateway ix tot s) =
     Inr (sat_add tot (ix_gas sdk codec gateway db hist ix))"
proof -
  note costs = cost_of_signature_verification_result [OF srv ans len ok]
    cost_of_payload_uploading_result [OF srv ans len ok]
  have bind: "fst (m s) = Inr x \<Longrightarrow> fst (bindE m (\<lambda>x. retE (f x)) s) = Inr (f x)"
    for m :: "(fault, ('a, 'b) world_scheme, u64) io" and f :: "u64 \<Rightarrow> u64" and x
    by (auto simp: bindE_def split: prod.splits)
  have zero: "div_or_zero 0 k = 0" for k by (simp add: word_unat_eq_iff unat_div_or_zero)
  obtain program accounts payload where ix: "ix = (program, accounts, payload)" by (cases ix) auto
  show ?thesis unfolding add_gas_def ix_gas_def ix
    by (auto simp: Let_def zero bind [OF costs(1)] bind [OF costs(2)]
        split: option.splits gateway_ix.splits)
qed

lemma compute_total_gas_result:
  assumes "serves sdk nd c enc hist" and "answers rt nd c db"
    and "\<And>a. length (hist a) \<le> page_limit * n" and "\<And>a. readable sdk db (hist a)"
  shows "fst (compute_total_gas (Suc n) sdk codec rt nd c gateway tx s) =
     Inr (sat_sum (lt_cost tx # map (ix_gas sdk codec gateway db hist) (lt_ixs tx)))"
proof -
  have "fst (foldE (add_gas (Suc n) sdk codec rt nd c gateway) ixs tot s) =
      Inr (foldl sat_add tot (map (ix_gas sdk codec gateway db hist) ixs))" for ixs tot
  proof (induction ixs arbitrary: tot s)
    case (Cons ix ixs)
    with add_gas_result [OF assms, of codec gateway ix tot s] show ?case
      by (auto simp: bindE_def split: prod.splits)
  qed simp
  then show ?thesis by (simp add: compute_total_gas_def sat_sum_def)
qed

section \<open>The interface of the gas computation\<close>

text \<open>
  What the event forwarder and the gateway component need of it: the result covers the fee of
  the transaction itself, and nothing is sent to compute it.
\<close>

locale gas_oracle =
  fixes gas :: "solana_tx \<Rightarrow> (fault, ('w, 'z) world_scheme, u64) io"
  assumes gas_covers_fee: "gas tx s = (Inr g, s') \<Longrightarrow> lt_cost tx \<le> g"
    and gas_quiet: "issues (\<lambda>q. \<not> is_send q) (gas tx)"
    and gas_confined: "confined (gas tx)"
begin

lemma gas_sends_nothing: "gas tx s = (r, s') \<Longrightarrow> sent k s' = sent k s"
  by (rule no_send_run [OF issues_mono [OF gas_quiet]]) simp_all

end

lemma add_gas_ge: "add_gas fuel sdk codec rt nd c gateway ix tot s = (Inr g, s') \<Longrightarrow> tot \<le> g"
  by (cases ix) (auto simp: add_gas_def word_le_nat_alt sat_add_ge elim!: bindE_okE
      split: if_splits option.splits gateway_ix.splits)

lemma fold_gas_ge:
  "foldE (add_gas fuel sdk codec rt nd c gateway) ixs tot s = (Inr g, s') \<Longrightarrow> tot \<le> g"
proof (induction ixs arbitrary: tot s)
  case (Cons ix ixs)
  then show ?case by (auto elim!: bindE_okE dest!: add_gas_ge Cons.IH)
qed simp

lemma issues_costs [issues_rules]:
  "issues (\<lambda>q. \<not> is_send q) (cost_of_signature_verification fuel sdk codec rt nd c a gateway)"
  "issues (\<lambda>q. \<not> is_send q) (cost_of_payload_uploading fuel sdk codec rt nd c a gateway)"
  unfolding cost_of_signature_verification_def cost_of_payload_uploading_def fetch_signatures_def
  by (intro grow.bind grow.ret issues_fetch_signatures grow.try_all issues_fetch; simp)+

lemma issues_add_gas [issues_rules]:
  "issues (\<lambda>q. \<not> is_send q) (add_gas fuel sdk codec rt nd c gateway ix tot)"
proof (cases ix)
  case (fields program accounts payload)
  have "issues (\<lambda>q. \<not> is_send q) (bindE m (\<lambda>cost. retE (f cost)))"
    if "issues (\<lambda>q. \<not> is_send q) m" for m :: "(fault, ('a, 'b) world_scheme, u64) io" and f :: "u64 \<Rightarrow> u64"
    using that by (intro grow.bind grow.ret)
  note bind = this
  show ?thesis unfolding add_gas_def fields
    by (auto intro: bind issues_costs grow.ret split: option.splits gateway_ix.splits)
qed

lemma confined_fetch_signatures [confined_rules]:
  "confined (fetch_signatures_from fuel sdk nd c a before acc)"
proof (induction fuel arbitrary: before acc)
  case (Suc n)
  then show ?case unfolding fetch_signatures_from.simps by (intro confined_rules Suc)
qed (simp only: fetch_signatures_from.simps same.fail)

lemma confined_costs [confined_rules]:
  "confined (cost_of_signature_verification fuel sdk codec rt nd c a gateway)"
  "confined (cost_of_payload_uploading fuel sdk codec rt nd c a gateway)"
  unfolding cost_of_signature_verification_def cost_of_payload_uploading_def fetch_signatures_def
  by (intro confined_rules)+

lemma confined_add_gas [confined_rules]: "confined (add_gas fuel sdk codec rt nd c gateway ix tot)"
proof (cases ix)
  case (fields program accounts payload)
  have bind: "confined (bindE m (\<lambda>cost. retE (f cost)))" if "confined m"
    for m :: "(fault, ('a, 'b) world_scheme, u64) io" and f :: "u64 \<Rightarrow> u64"
    using that by (intro same.bind same.ret)
  show ?thesis unfolding add_gas_def fields
    by (auto intro: bind confined_costs same.ret split: option.splits gateway_ix.splits)
qed

interpretation gas: gas_oracle "compute_total_gas fuel sdk codec rt nd c gateway"
  for fuel sdk codec rt nd c gateway
proof unfold_locales
  show "issues (\<lambda>q. \<not> is_send q) (compute_total_gas fuel sdk codec rt nd c gateway tx)" for tx
    unfolding compute_total_gas_def by (intro grow.fold_list issues_add_gas)
  show "confined (compute_total_gas fuel sdk codec rt nd c gateway tx)" for tx
    unfolding compute_total_gas_def by (intro same.fold_list confined_add_gas)
qed (simp add: compute_total_gas_def fold_gas_ge)

section \<open>Properties\<close>

text \<open>A ledger with one verification session (address 3) of two transactions.\<close>

definition sample_codec :: gateway_codec where
  "sample_codec =
     \<lparr>decode_gateway_ix = (\<lambda>b. if b = [1] then Some VerifySignature
        else if b = [2] then Some (ApproveMessage 4)
        else if b = [3] then Some WriteMessagePayload else None),
      is_axelar_message = (\<lambda>b. b = [9])\<rparr>"

definition sample_history :: "pubkey \<Rightarrow> history" where
  "sample_history a = (if a = 3 then [(12, 5), (11, 4)] else [])"

definition sample_db :: "signature \<Rightarrow> client_error + encoded_tx" where
  "sample_db sig =
     (if sig = 11 then Inr (plain_tx [8, 3] [\<lparr>ci_program = 0, ci_accounts = [1], ci_data = [1]\<rparr>] 5000)
      else Inr (plain_tx [8, 3] [\<lparr>ci_program = 0, ci_accounts = [1], ci_data = [1]\<rparr>] 7000))"

definition sample_approval :: solana_tx where
  "sample_approval =
     \<lparr>lt_signature = 20, lt_timestamp = None, lt_logs = [], lt_account_keys = [],
      lt_ixs = [(8, [1, 2, 3], [2])], lt_inner_ixs = [], lt_slot = 6, lt_cost = 600\<rparr>"

lemmas sample_eval = sample_history_def sample_db_def sample_approval_def sample_codec_def
  ix_gas_def nth_account_def history_fees_def session_fees_def wanted_ixs_def wanted_ix_def
  delivered_def status_of_def parse_transaction_def resolve_ix_def account_at_def plain_tx_def
  loaded_keys_def Let_def

lemma sample_ledger:
  "distinct (map fst (sample_history a))" "length (sample_history a) \<le> page_limit * 1"
  "readable decimal_sdk sample_db (sample_history a)"
proof -
  have "readable decimal_sdk sample_db [(12, 5), (11, 4)]"
    by (simp add: readable_def sample_eval)
  then show "readable decimal_sdk sample_db (sample_history a)"
    by (simp add: sample_history_def readable_def)
qed (simp_all add: sample_history_def page_limit_def)

lemma sample_serves:
  "serves decimal_sdk (ledger_node MainNode sample_history sample_db) Finalized decimal sample_history"
  by (rule serves_ledger_node) (rule sample_ledger(1))

lemma sample_total:
  "sat_sum (lt_cost sample_approval # map (ix_gas decimal_sdk sample_codec 8 sample_db sample_history)
      (lt_ixs sample_approval)) = 3600"
  by (simp add: sample_eval sat_sum_def sat_add_def div_or_zero_def checked_div_def)

lemma sample_run:
  "\<exists>s'. compute_total_gas (Suc 1) decimal_sdk sample_codec counting_runtime
     (ledger_node MainNode sample_history sample_db) Finalized 8 sample_approval
     start_world = (Inr 3600, s')"
  using compute_total_gas_result [where codec = sample_codec and gateway = 8 and tx = sample_approval
      and s = start_world, OF sample_serves
      answers_ledger_node sample_ledger(2,3), unfolded sample_total]
  by (metis prod.collapse)

text \<open>
  C28. Against a node that serves the documented RPC methods, the paging loop of the gas
  computation ends and returns every signature of the address, newest first and none twice or
  left out: the fuel is one request for each started page of a thousand, and one more.
\<close>

theorem fetch_signatures_complete:
  assumes "serves sdk nd c enc hist" and "length (hist a) \<le> page_limit * n"
  shows "fst (fetch_signatures (Suc n) sdk nd c a s) = Inr (map fst (hist a)) \<and> distinct (map fst (hist a))"
  using assms fetch_signatures_result [OF assms] by (simp add: serves_def)

lemma fetch_signatures_complete_witness:
  "fst (fetch_signatures (Suc 1) decimal_sdk (ledger_node MainNode sample_history sample_db) Finalized 3
     start_world) = Inr [12, 11]"
  using fetch_signatures_complete [OF sample_serves
      sample_ledger(2), of 3 start_world]
  by (simp add: sample_history_def)



text \<open>
  However the node behaves, a total that is returned covers the transaction's own fee.
\<close>

theorem total_gas_covers_fee:
  assumes "compute_total_gas fuel sdk codec rt nd c gateway tx s = (Inr g, s')"
  shows "lt_cost tx \<le> g"
  using assms by (rule gas.gas_covers_fee)

lemma total_gas_covers_fee_witness:
  "\<exists>s'. compute_total_gas (Suc 1) decimal_sdk sample_codec counting_runtime
     (ledger_node MainNode sample_history sample_db) Finalized 8 sample_approval
     start_world = (Inr 3600, s') \<and> lt_cost sample_approval \<le> 3600"
  using sample_run total_gas_covers_fee by blast

text \<open>
  The fee of a transaction that uploads a payload is charged once for each of its upload
  instructions: the fees of a history are the saturating sum of fee times instruction count,
  so that a transaction with two writes counts twice its cost.
\<close>

theorem fees_per_instruction:
  "unat (session_fees codec wanted gateway txs) =
     min (\<Sum>tx\<leftarrow>txs. wanted_ixs codec wanted gateway tx * unat (lt_cost tx)) (2 ^ 64 - 1) \<and>
   session_fees codec wanted gateway txs =
     foldl (add_tx_cost codec wanted gateway) 0 (map Successful txs)"
proof -
  have "sum_list (map unat (concat (map (\<lambda>tx. replicate (wanted_ixs codec wanted gateway tx) (lt_cost tx)) txs))) =
      (\<Sum>tx\<leftarrow>txs. wanted_ixs codec wanted gateway tx * unat (lt_cost tx))"
    by (induction txs) (simp_all add: sum_list_replicate)
  moreover have "concat (map (\<lambda>st. ok_tx (Inr st)) (map Successful txs)) = txs" by (induction txs) simp_all
  ultimately show ?thesis
    by (simp add: add_txs_cost) (simp add: session_fees_def unat_sat_sum)
qed

end
