(* ===== verification/TaskProcessor.thy ===== *)
theory TaskProcessor
  imports CostEstimation GasComputation
begin

text \<open>
  \<open>crates/solana-gateway-task-processor/src/component.rs\<close>: one task of the Amplifier API from
  its receipt to the transactions it sends to the chain and the event that reports its failure.
  The fields of \<open>SolanaTxPusher\<close> and the clients it holds are the record \<open>tx_pusher\<close>; the
  sending function and the gas estimator are among them, as the code is generic in the
  estimator. \<open>new_pusher\<close> builds the one that runs in production.

  What a pusher needs of the two is the locale \<open>task_pusher\<close>, which joins \<open>tx_sender\<close> and
  \<open>gas_estimator\<close>; the theory interprets it on \<open>new_pusher\<close>.
\<close>

section \<open>Tasks\<close>

record execute_task =
  et_message :: "bytes gateway_message"
  et_payload :: bytes
  et_available_gas :: token

record refund_task =
  rf_message :: "bytes gateway_message"
  rf_recipient :: string
  rf_remaining :: token

datatype amp_task =
    GatewayTx bytes
  | Execute execute_task
  | Refund refund_task
  | Verify
  | ConstructProof

record task_item =
  ti_id :: task_id
  ti_task :: amp_task

section \<open>Configuration and the component\<close>

record gateway_config =
  gc_gas_config_pda :: pubkey
  gc_keypair :: pubkey
  gc_gateway :: pubkey
  gc_gas_program :: pubkey
  gc_commitment :: commitment
  gc_estimation_url :: string
  gc_allow_third_party :: bool

definition default_gateway_config :: "'w gateway_libs \<Rightarrow> pubkey \<Rightarrow> pubkey \<Rightarrow> gateway_config" where
  "default_gateway_config libs gas_config_pda keypair =
     \<lparr>gc_gas_config_pda = gas_config_pda, gc_keypair = keypair, gc_gateway = gateway_id libs,
      gc_gas_program = gas_service_id libs, gc_commitment = Finalized,
      gc_estimation_url = ''http://127.0.0.1:8899'', gc_allow_third_party = False\<rparr>"

record config_metadata =
  cm_chain_name :: string
  cm_gateway_root :: pubkey
  cm_gas_config_pda :: pubkey
  cm_commitment :: commitment
  cm_gas_program :: pubkey

record ('w, 's) tx_pusher =
  tp_config :: gateway_config
  tp_name :: string
  tp_node :: "'w node"
  tp_runtime :: "'w runtime"
  tp_sdk :: sdk
  tp_libs :: "'w gateway_libs"
  tp_codec :: gateway_codec
  tp_fuel :: nat
  tp_send :: "instruction list \<Rightarrow> (fault, 's, signature) io"
  tp_ensure :: "gmp_message \<Rightarrow> bytes \<Rightarrow> pubkey \<Rightarrow> pubkey \<Rightarrow> int \<Rightarrow> (fault, 's, unit) io"
  tp_update_accounts :: "pubkey \<Rightarrow> (fault, 's, unit) io"

definition main_client :: "'w node \<Rightarrow> 'w node" where
  "main_client nd = nd\<lparr>node_tag := MainNode\<rparr>"

definition new_pusher ::
  "gateway_config \<Rightarrow> string \<Rightarrow> 'w node \<Rightarrow> 'w node \<Rightarrow> 'w runtime \<Rightarrow> sdk \<Rightarrow> 'w gateway_libs \<Rightarrow> gateway_codec
     \<Rightarrow> nat \<Rightarrow> ('w, ('w, 'z) processor_world_scheme) tx_pusher" where
  "new_pusher cfg name nd sn rt sdk libs codec fuel =
     \<lparr>tp_config = cfg, tp_name = name, tp_node = main_client nd, tp_runtime = rt, tp_sdk = sdk,
      tp_libs = libs, tp_codec = codec, tp_fuel = fuel,
      tp_send = send_transaction sdk rt (main_client nd) (gc_keypair cfg),
      tp_ensure = ensure_enough_gas sdk libs (estimator_client sn) (main_client nd) (gc_keypair cfg),
      tp_update_accounts = update_program_accounts (estimator_client sn)\<rparr>"

definition get_config_metadata :: "('w, 's) tx_pusher \<Rightarrow> config_metadata" where
  "get_config_metadata p =
     \<lparr>cm_chain_name = tp_name p, cm_gateway_root = gateway_root (tp_libs p),
      cm_gas_config_pda = gc_gas_config_pda (tp_config p), cm_commitment = gc_commitment (tp_config p),
      cm_gas_program = gc_gas_program (tp_config p)\<rparr>"

definition ensure_gas_service_authority ::
  "'w gateway_libs \<Rightarrow> 'w node \<Rightarrow> pubkey \<Rightarrow> config_metadata \<Rightarrow> (fault, ('w, 'z) world_scheme, unit) io" where
  "ensure_gas_service_authority libs nd key md =
     bindE (rpc (ReqAccount (node_tag nd) (cm_gas_config_pda md)) (n_account nd (cm_gas_config_pda md))) (\<lambda>acc.
     if acc_owner acc \<noteq> cm_gas_program md then
       failE (msg_fault ''gas service program id is not the owner of the provided gas service config PDA'')
     else bindE (ok_or (msg_fault ''gas service config PDA account not initialized'')
                   (read_gas_config libs (acc_data acc))) (\<lambda>operator.
          if operator \<noteq> key then failE (msg_fault ''relayer is not the gas service operator'')
          else retE ()))"

section \<open>Events that report a failure\<close>

definition message_executed_event ::
  "'w gateway_libs \<Rightarrow> string \<Rightarrow> string \<Rightarrow> string \<Rightarrow> execution_status \<Rightarrow> timestamp option \<Rightarrow> token \<Rightarrow> amp_event" where
  "message_executed_event libs i source_chain message_id status block_time cost =
     AmpMessageExecuted
       \<lparr>eb_event_id = tx_reverted_event_id libs i,
        eb_meta = Some \<lparr>em_tx_id = None, em_timestamp = block_time, em_from_address = None,
          em_finalized = None, em_extra = \<lparr>xe_command_id = None, xe_children = None\<rparr>\<rparr>\<rparr>
       message_id source_chain status cost"

definition cannot_execute_message_event ::
  "'w gateway_libs \<Rightarrow> task_id \<Rightarrow> string \<Rightarrow> string \<Rightarrow> cannot_execute_reason \<Rightarrow> string \<Rightarrow> amp_event" where
  "cannot_execute_message_event libs i source_chain message_id reason details =
     AmpCannotExecuteMessageV2
       \<lparr>eb_event_id = cannot_execute_event_id libs i,
        eb_meta = Some \<lparr>em_tx_id = None, em_timestamp = None, em_from_address = None,
          em_finalized = None, em_extra = i\<rparr>\<rparr>
       reason details message_id source_chain"

section \<open>Executing a message\<close>

definition incoming_message_already_executed ::
  "'w gateway_libs \<Rightarrow> 'w node \<Rightarrow> pubkey \<Rightarrow> (fault, ('w, 'z) world_scheme, bool) io" where
  "incoming_message_already_executed libs nd incoming =
     bindE (rpc (ReqAccount (node_tag nd) incoming) (n_account_data nd incoming))
       (\<lambda>raw. ok_or (msg_fault ''failed to read incoming message'') (read_incoming_message libs raw))"

definition whitelist :: "'w gateway_libs \<Rightarrow> pubkey list" where
  "whitelist libs = [its_id libs, governance_id libs, gateway_id libs, gas_service_id libs, memo_id libs]"

definition verify_destination :: "'w gateway_libs \<Rightarrow> pubkey \<Rightarrow> bool \<Rightarrow> fault + unit" where
  "verify_destination libs destination allow =
     (if allow then Inr ()
      else if destination \<notin> set (whitelist libs) then Inl (msg_fault ''Destination address is not valid'')
      else Inr ())"

definition validate_relayer_not_in_payload :: "'w gateway_libs \<Rightarrow> bytes \<Rightarrow> pubkey \<Rightarrow> fault + unit" where
  "validate_relayer_not_in_payload libs payload signer =
     (case decode_message_payload libs payload of
        Some metas \<Rightarrow>
          if list_ex (\<lambda>acc. am_pubkey acc = signer) metas
          then Inl (msg_fault ''relayer will not execute a transaction where its own key is included'')
          else Inr ()
      | None \<Rightarrow> Inr ())"

definition destination_ix ::
  "('w, ('w, 'z) world_scheme) tx_pusher \<Rightarrow> pubkey \<Rightarrow> pubkey \<Rightarrow> pubkey \<Rightarrow> pubkey \<Rightarrow> gmp_message \<Rightarrow> bytes
     \<Rightarrow> (fault, ('w, 'z) world_scheme, instruction) io" where
  "destination_ix p destination signer incoming payload_pda message payload =
     (let libs = tp_libs p; tag = node_tag (tp_node p)
      in if destination = its_id libs then
           map_faultE Err (call (ReqExternal tag)
             (its_execute_ix libs tag signer incoming payload_pda message payload))
         else if destination = governance_id libs then
           lift_eyre (governance_ix libs signer incoming payload_pda message payload)
         else bindE (liftE (validate_relayer_not_in_payload libs payload signer)) (\<lambda>_.
           lift_eyre (executable_ix libs signer message payload incoming payload_pda)))"

definition send_to_destination_program ::
  "('w, ('w, 'z) world_scheme) tx_pusher \<Rightarrow> pubkey \<Rightarrow> pubkey \<Rightarrow> pubkey \<Rightarrow> pubkey \<Rightarrow> gmp_message \<Rightarrow> bytes
     \<Rightarrow> (fault, ('w, 'z) world_scheme, signature) io" where
  "send_to_destination_program p destination signer incoming payload_pda message payload =
     bindE (destination_ix p destination signer incoming payload_pda message payload) (\<lambda>ix.
     bindE (built ''failed to construct an instruction to close the message payload pda''
              (close_message_payload (tp_libs p) (gateway_root (tp_libs p)) (gc_keypair (tp_config p))
                 (message_to_command_id (tp_libs p) message))) (\<lambda>ix_close.
     tp_send p [ix, ix_close]))"

text \<open>The message of the gateway; a payload hash that is not 32 bytes long becomes zeros.\<close>

definition compose_message :: "config_metadata \<Rightarrow> bytes gateway_message \<Rightarrow> gmp_message" where
  "compose_message md m =
     \<lparr>gmp_chain = gm_source_chain m, gmp_id = gm_message_id m,
      gmp_source_address = gm_source_address m, gmp_destination_chain = cm_chain_name md,
      gmp_destination_address = gm_destination_address m,
      gmp_payload_hash = (if length (gm_payload_hash m) = 32 then gm_payload_hash m else replicate 32 0)\<rparr>"

definition execute_task_with_estimator ::
  "('w, ('w, 'z) processor_world_scheme) tx_pusher \<Rightarrow> config_metadata \<Rightarrow> pubkey \<Rightarrow> execute_task
     \<Rightarrow> (fault, ('w, 'z) processor_world_scheme, unit) io" where
  "execute_task_with_estimator p md signer task =
     (let libs = tp_libs p;
          payload = et_payload task;
          available = tk_amount (et_available_gas task);
          message = compose_message md (et_message task);
          incoming = incoming_message_pda libs (command_id libs (gmp_chain message) (gmp_id message))
      in bindE (incoming_message_already_executed libs (tp_node p) incoming) (\<lambda>executed.
         if executed then retE ()
         else
           bindE (ok_or (Err (Ctx ''Failed to parse destination address'' (Msg ''invalid pubkey'')))
                    (parse_pubkey (tp_sdk p) (gmp_destination_address message))) (\<lambda>destination.
           bindE (liftE (verify_destination libs destination (gc_allow_third_party (tp_config p)))) (\<lambda>_.
           bindE (tp_ensure p message payload destination incoming available) (\<lambda>_.
           bindE (upload (tp_send p) libs (tp_runtime p) (gc_keypair (tp_config p)) message payload) (\<lambda>payload_pda.
           bindE (send_to_destination_program p destination signer incoming payload_pda message payload)
             (\<lambda>_. retE ())))))))"

section \<open>Gateway transactions and refunds\<close>

text \<open>\<open>filter_map(|x| builder(x).ok())\<close>: what cannot be built is left out.\<close>

definition built_ixs :: "('x \<Rightarrow> eyre + instruction) \<Rightarrow> 'x list \<Rightarrow> instruction list" where
  "built_ixs f = List.map_filter (\<lambda>x. case f x of Inr ix \<Rightarrow> Some ix | Inl e \<Rightarrow> None)"

definition verify_ixs :: "'w gateway_libs \<Rightarrow> execute_data \<Rightarrow> instruction list" where
  "verify_ixs libs ed =
     built_ixs (verify_signature_ix libs (gateway_root libs) (verifier_set_pda libs (ed_signing_set_root ed))
                  (verification_pda libs (ed_payload_root ed) (ed_signing_set_root ed)) (ed_payload_root ed))
       (ed_leaves ed)"

definition approve_ix ::
  "'w gateway_libs \<Rightarrow> pubkey \<Rightarrow> execute_data \<Rightarrow> string \<times> string \<times> bytes \<Rightarrow> eyre + instruction" where
  "approve_ix libs signer ed m =
     (case m of (chain, i, merkleised) \<Rightarrow>
        approve_message_ix libs merkleised (ed_payload_root ed) (gateway_root libs) signer
          (verification_pda libs (ed_payload_root ed) (ed_signing_set_root ed))
          (incoming_message_pda libs (command_id libs chain i)))"

definition rotate_ix :: "'w gateway_libs \<Rightarrow> pubkey \<Rightarrow> execute_data \<Rightarrow> hash256 \<Rightarrow> eyre + instruction" where
  "rotate_ix libs signer ed new_root =
     rotate_signers_ix libs (gateway_root libs)
       (verification_pda libs (ed_payload_root ed) (ed_signing_set_root ed))
       (verifier_set_pda libs (ed_signing_set_root ed)) (verifier_set_pda libs new_root) signer new_root"

definition gateway_tx_task ::
  "('w, ('w, 'z) world_scheme) tx_pusher \<Rightarrow> bytes \<Rightarrow> pubkey \<Rightarrow> (fault, ('w, 'z) world_scheme, unit) io" where
  "gateway_tx_task p data signer =
     (let libs = tp_libs p; send = send_gateway_tx (tp_send p) libs
      in bindE (ok_or (msg_fault ''cannot decode execute data'') (decode_execute_data libs data)) (\<lambda>ed.
         bindE (lift_eyre (initialize_session libs signer (gateway_root libs) (ed_payload_root ed)
                  (ed_signing_set_root ed))) (\<lambda>ix.
         bindE (send ix) (\<lambda>_.
         bindE (try_unordered (pick (tp_runtime p)) send (verify_ixs libs ed)) (\<lambda>_.
         case ed_items ed of
           VerifierSetRotation new_root \<Rightarrow>
             bindE (lift_eyre (rotate_ix libs signer ed new_root)) send
         | NewMessages messages \<Rightarrow>
             bindE (try_unordered (pick (tp_runtime p)) send (built_ixs (approve_ix libs signer ed) messages))
               (\<lambda>_. retE ()))))))"

text \<open>\<open>BigInt\<close> to \<open>u64\<close>.\<close>

definition u64_of_int :: "int \<Rightarrow> u64 option" where
  "u64_of_int i = (if 0 \<le> i \<and> i < 2 ^ 64 then Some (word_of_int i) else None)"

definition refund_task ::
  "('w, ('w, 'z) world_scheme) tx_pusher \<Rightarrow> refund_task \<Rightarrow> (fault, ('w, 'z) world_scheme, unit) io" where
  "refund_task p task =
     bindE (ok_or (msg_fault ''invalid pubkey'') (parse_pubkey (tp_sdk p) (rf_recipient task))) (\<lambda>receiver.
     if tk_token_id (rf_remaining task) \<noteq> None then failE (msg_fault ''non-native token refunds are not supported'')
     else
       bindE (ok_or (msg_fault ''refund amount is too large'') (u64_of_int (tk_amount (rf_remaining task)))) (\<lambda>amount.
       bindE (lift_eyre (refund_fees_ix (tp_libs p) (gc_keypair (tp_config p)) receiver
                (gm_message_id (rf_message task)) amount)) (\<lambda>ix.
       bindE (tp_send p [ix]) (\<lambda>_. retE ()))))"

section \<open>Processing a task\<close>

text \<open>A returned \<open>Err\<close> becomes a value; a panic does not.\<close>

definition catch_errE :: "(fault, 's, 'a) io \<Rightarrow> (fault, 's, eyre + 'a) io" where
  "catch_errE m s =
     (case m s of
        (Inl (Err e), s') \<Rightarrow> (Inr (Inl e), s')
      | (Inl f, s') \<Rightarrow> (Inl f, s')
      | (Inr x, s') \<Rightarrow> (Inr (Inr x), s'))"

definition native :: "u64 \<Rightarrow> token" where
  "native amount = \<lparr>tk_token_id = None, tk_amount = uint amount\<rparr>"

definition uploading_event ::
  "'w gateway_libs \<Rightarrow> task_id \<Rightarrow> string \<Rightarrow> string \<Rightarrow> eyre \<Rightarrow> eyre + u64 \<Rightarrow> amp_event" where
  "uploading_event libs i source_chain message_id err maybe_fee =
     (case maybe_fee of
        Inr fee \<Rightarrow>
          if 0 < fee then
            message_executed_event libs (show_task_id libs i) source_chain message_id REVERTED None (native fee)
          else
            cannot_execute_message_event libs i source_chain message_id CannotExecuteError (show_error libs err)
      | Inl e \<Rightarrow>
          cannot_execute_message_event libs i source_chain message_id CannotExecuteError (show_error libs err))"

definition failure_event ::
  "('w, ('w, 'z) world_scheme) tx_pusher \<Rightarrow> config_metadata \<Rightarrow> task_id \<Rightarrow> string \<Rightarrow> string \<Rightarrow> eyre
     \<Rightarrow> (fault, ('w, 'z) world_scheme, amp_event) io" where
  "failure_event p md i source_chain message_id err =
     (let libs = tp_libs p; sdk = tp_sdk p; rt = tp_runtime p; nd = tp_node p in
      case downcast_cb err of
        Some (TransactionError source sig) \<Rightarrow>
          bindE (fetch_transaction sdk rt nd (cm_commitment md) sig) (\<lambda>st.
          let tx = status_tx st in
          bindE (catch_errE (compute_total_gas (tp_fuel p) sdk (tp_codec p) rt nd (cm_commitment md)
                   (gateway_id libs) tx)) (\<lambda>total_fee.
          retE (message_executed_event libs (show_signature libs sig) source_chain message_id REVERTED
                  (lt_timestamp tx) (native (case total_fee of Inr g \<Rightarrow> g | Inl e \<Rightarrow> lt_cost tx)))))
      | _ \<Rightarrow>
          if downcast_gas err \<noteq> None then
            retE (cannot_execute_message_event libs i source_chain message_id InsufficientGas (show_error libs err))
          else
            bindE (catch_errE (cost_of_payload_uploading (tp_fuel p) sdk (tp_codec p) rt nd (cm_commitment md)
                     (find_message_payload_pda libs (incoming_message_pda libs (command_id libs source_chain message_id))
                        (gc_keypair (tp_config p)))
                     (gateway_id libs))) (\<lambda>maybe_fee.
            retE (uploading_event libs i source_chain message_id err maybe_fee)))"

definition process_task ::
  "('w, ('w, 'z) processor_world_scheme) tx_pusher \<Rightarrow> config_metadata \<Rightarrow> task_item
     \<Rightarrow> (fault, ('w, 'z) processor_world_scheme, unit) io" where
  "process_task p md item =
     (let signer = gc_keypair (tp_config p) in
      case ti_task item of
        GatewayTx data \<Rightarrow> gateway_tx_task p data signer
      | Execute task \<Rightarrow>
          bindE (catch_errE (execute_task_with_estimator p md signer task)) (\<lambda>r.
          case r of
            Inr _ \<Rightarrow> retE ()
          | Inl err \<Rightarrow>
              bindE (failure_event p md (ti_id item) (gm_source_chain (et_message task))
                       (gm_message_id (et_message task)) err) (\<lambda>event.
              publish [event]))
      | Refund task \<Rightarrow> refund_task p task
      | Verify \<Rightarrow> retE ()
      | ConstructProof \<Rightarrow> retE ())"

section \<open>Lemmas\<close>

lemma catch_err_cases:
  assumes "catch_errE m s = (r, s')"
  shows "\<exists>q. m s = (q, s') \<and> r = (case q of Inr x \<Rightarrow> Inr (Inr x) | Inl (Err e) \<Rightarrow> Inr (Inl e) | Inl f \<Rightarrow> Inl f)"
proof (cases "m s")
  case (Pair q s1)
  show ?thesis
  proof (cases q)
    case (Inl f)
    with assms Pair show ?thesis by (cases f) (auto simp: catch_errE_def)
  qed (use assms Pair in \<open>auto simp: catch_errE_def\<close>)
qed

lemma catch_err_ok:
  assumes "catch_errE m s = (Inr x, s')"
  shows "(\<exists>e. x = Inl e \<and> m s = (Inl (Err e), s')) \<or> (\<exists>y. x = Inr y \<and> m s = (Inr y, s'))"
proof -
  from catch_err_cases [OF assms] obtain q where q: "m s = (q, s')"
    "Inr x = (case q of Inr x \<Rightarrow> Inr (Inr x) | Inl (Err e) \<Rightarrow> Inr (Inl e) | Inl f \<Rightarrow> Inl f)" by blast
  show ?thesis
  proof (cases q)
    case (Inl f)
    with q show ?thesis by (cases f) auto
  qed (use q in auto)
qed

lemma moves_catch_err: "moves R m \<Longrightarrow> moves R (catch_errE m)"
  by (rule movesI) (blast dest: catch_err_cases movesD)

lemma main_client_tag [simp]: "node_tag (main_client nd) = MainNode"
  by (simp add: main_client_def)

lemma new_pusher_simps [simp]:
  "tp_config (new_pusher cfg name nd sn rt sdk libs codec fuel) = cfg"
  "tp_name (new_pusher cfg name nd sn rt sdk libs codec fuel) = name"
  "tp_node (new_pusher cfg name nd sn rt sdk libs codec fuel) = main_client nd"
  "tp_runtime (new_pusher cfg name nd sn rt sdk libs codec fuel) = rt"
  "tp_sdk (new_pusher cfg name nd sn rt sdk libs codec fuel) = sdk"
  "tp_libs (new_pusher cfg name nd sn rt sdk libs codec fuel) = libs"
  "tp_codec (new_pusher cfg name nd sn rt sdk libs codec fuel) = codec"
  "tp_fuel (new_pusher cfg name nd sn rt sdk libs codec fuel) = fuel"
  "tp_send (new_pusher cfg name nd sn rt sdk libs codec fuel) =
     send_transaction sdk rt (main_client nd) (gc_keypair cfg)"
  "tp_ensure (new_pusher cfg name nd sn rt sdk libs codec fuel) =
     ensure_enough_gas sdk libs (estimator_client sn) (main_client nd) (gc_keypair cfg)"
  "tp_update_accounts (new_pusher cfg name nd sn rt sdk libs codec fuel) = update_program_accounts (estimator_client sn)"
  by (simp_all add: new_pusher_def)

lemma issues_already_executed [issues_rules]:
  "P (ReqAccount (node_tag nd) a) \<Longrightarrow> issues P (incoming_message_already_executed libs nd a)"
  unfolding incoming_message_already_executed_def by (intro grow.bind issues_rpc grow.okor)

lemma confined_already_executed [confined_rules]: "confined (incoming_message_already_executed libs nd a)"
  unfolding incoming_message_already_executed_def by (intro confined_rules)

lemma issues_destination_ix [issues_rules]:
  "P (ReqExternal (node_tag (tp_node p))) \<Longrightarrow>
   issues P (destination_ix p destination signer incoming payload_pda message payload)"
  unfolding destination_ix_def Let_def
  by (intro moves_if moves_map_fault issues_call issues_lift_eyre grow.bind grow.lift)

lemma confined_destination_ix [confined_rules]:
  "confined (destination_ix p destination signer incoming payload_pda message payload)"
  unfolding destination_ix_def Let_def by (intro confined_rules)

lemma validate_relayer_ok_iff:
  "validate_relayer_not_in_payload libs payload signer = Inr () \<longleftrightarrow>
     (\<forall>metas. decode_message_payload libs payload = Some metas \<longrightarrow> signer \<notin> am_pubkey ` set metas)"
  by (auto simp: validate_relayer_not_in_payload_def list_ex_iff image_iff split: option.splits)

lemma verify_destination_ok_iff:
  "verify_destination libs destination allow = Inr () \<longleftrightarrow> allow \<or> destination \<in> set (whitelist libs)"
  by (simp add: verify_destination_def)

lemma destination_ix_own_key:
  assumes "destination_ix p destination signer incoming payload_pda message payload s = (Inr ix, s')"
    and "destination \<noteq> its_id (tp_libs p)" and "destination \<noteq> governance_id (tp_libs p)"
  shows "validate_relayer_not_in_payload (tp_libs p) payload signer = Inr ()"
  using assms by (cases "validate_relayer_not_in_payload (tp_libs p) payload signer")
    (auto simp: destination_ix_def Let_def)

text \<open>What has to hold before anything of a message is sent to the chain.\<close>

definition message_incoming :: "'w gateway_libs \<Rightarrow> execute_task \<Rightarrow> pubkey" where
  "message_incoming libs task =
     incoming_message_pda libs
       (command_id libs (gm_source_chain (et_message task)) (gm_message_id (et_message task)))"

definition recorded_as :: "bool \<Rightarrow> 'w gateway_libs \<Rightarrow> 'w node \<Rightarrow> execute_task \<Rightarrow> bool" where
  "recorded_as executed libs nd task \<longleftrightarrow>
     (\<exists>e e' raw. n_account_data nd (message_incoming libs task) e = (Inr raw, e') \<and>
        read_incoming_message libs raw = Some executed)"

definition allowed_destination ::
  "'w gateway_libs \<Rightarrow> sdk \<Rightarrow> gateway_config \<Rightarrow> execute_task \<Rightarrow> pubkey \<Rightarrow> bool" where
  "allowed_destination libs sdk cfg task destination \<longleftrightarrow>
     parse_pubkey sdk (gm_destination_address (et_message task)) = Some destination \<and>
     (gc_allow_third_party cfg \<or> destination \<in> set (whitelist libs))"

definition gas_checked :: "('w, 's) tx_pusher \<Rightarrow> config_metadata \<Rightarrow> execute_task \<Rightarrow> pubkey \<Rightarrow> 's \<Rightarrow> bool" where
  "gas_checked p md task destination s \<longleftrightarrow>
     (\<exists>s0. tp_ensure p (compose_message md (et_message task)) (et_payload task) destination
        (message_incoming (tp_libs p) task) (tk_amount (et_available_gas task)) s0 = (Inr (), s))"

lemma already_executed_ok:
  assumes "incoming_message_already_executed libs nd a s = (Inr b, s')"
  shows "\<exists>e raw. n_account_data nd a (env s) = (Inr raw, e) \<and> read_incoming_message libs raw = Some b"
proof -
  from assms obtain raw where "rpc (ReqAccount (node_tag nd) a) (n_account_data nd a) s = (Inr raw, s')"
    and "read_incoming_message libs raw = Some b"
    by (auto simp: incoming_message_already_executed_def ok_or_def elim!: bindE_okE split: option.splits)
  then show ?thesis by (auto simp: rpc_ok_iff)
qed

locale task_pusher =
  sending: tx_sender "tp_send p" "node_tag (tp_node p)" carrying +
  estimating: gas_estimator "node_tag (tp_node p)" "tp_ensure p"
  for p :: "('w, ('w, 'z) processor_world_scheme) tx_pusher"
    and carrying :: "instruction list \<Rightarrow> transaction \<Rightarrow> bool"
begin

text \<open>The stages of a message: checks that send nothing, then the upload, then one transaction.\<close>

lemma execute_stages:
  assumes "execute_task_with_estimator p md signer task s = (r, s')"
  shows "sent (node_tag (tp_node p)) s' = sent (node_tag (tp_node p)) s \<and>
      (r = Inr () \<longrightarrow> recorded_as True (tp_libs p) (tp_node p) task)
    \<or> (\<exists>destination s1. recorded_as False (tp_libs p) (tp_node p) task \<and> allowed_destination (tp_libs p) (tp_sdk p) (tp_config p) task destination \<and>
         gas_checked p md task destination s1 \<and> sent (node_tag (tp_node p)) s1 = sent (node_tag (tp_node p)) s \<and>
         bindE (upload (tp_send p) (tp_libs p) (tp_runtime p) (gc_keypair (tp_config p))
             (compose_message md (et_message task)) (et_payload task)) (\<lambda>payload_pda.
           bindE (send_to_destination_program p destination signer (message_incoming (tp_libs p) task) payload_pda
             (compose_message md (et_message task)) (et_payload task)) (\<lambda>_. retE ())) s1 = (r, s'))"
    (is "?quiet s' r \<or> _")
proof -
  let ?k = "node_tag (tp_node p)"
  let ?m = "compose_message md (et_message task)"
  let ?inc = "message_incoming (tp_libs p) task"
  let ?rest = "\<lambda>destination. bindE (upload (tp_send p) (tp_libs p) (tp_runtime p) (gc_keypair (tp_config p)) ?m (et_payload task))
      (\<lambda>payload_pda. bindE (send_to_destination_program p destination signer ?inc payload_pda ?m (et_payload task)) (\<lambda>_. retE ()))"
  have inc: "incoming_message_pda (tp_libs p) (command_id (tp_libs p) (gmp_chain ?m) (gmp_id ?m)) = ?inc"
    and dest: "gmp_destination_address ?m = gm_destination_address (et_message task)"
    by (simp_all add: compose_message_def message_incoming_def)
  obtain q1 s1 where run1: "incoming_message_already_executed (tp_libs p) (tp_node p) ?inc s = (q1, s1)"
    by fastforce
  have quiet1: "sent ?k s1 = sent ?k s"
    by (rule no_send_run [where m = "incoming_message_already_executed (tp_libs p) (tp_node p) ?inc"])
      (use run1 in \<open>auto intro: issues_already_executed\<close>)
  show ?thesis
  proof (cases q1)
    case (Inl f)
    with assms run1 have "r = Inl f" "s' = s1"
      by (auto simp: execute_task_with_estimator_def Let_def inc bindE_def)
    with quiet1 show ?thesis by simp
  next
    case (Inr executed)
    from already_executed_ok [OF run1 [unfolded Inr]] obtain e raw where
      raw: "n_account_data (tp_node p) ?inc (env s) = (Inr raw, e)"
      "read_incoming_message (tp_libs p) raw = Some executed" by blast
    show ?thesis
    proof (cases executed)
      case True
      with assms run1 Inr have "r = Inr ()" "s' = s1"
        by (auto simp: execute_task_with_estimator_def Let_def inc bindE_def)
      with quiet1 raw True show ?thesis by (auto simp: recorded_as_def)
    next
      case False
      with raw have un: "recorded_as False (tp_libs p) (tp_node p) task" by (auto simp: recorded_as_def)
      show ?thesis
      proof (cases "parse_pubkey (tp_sdk p) (gm_destination_address (et_message task))")
        case None
        with assms run1 Inr False have "r \<noteq> Inr ()" "s' = s1"
          by (auto simp: execute_task_with_estimator_def Let_def inc dest bindE_def)
        with quiet1 show ?thesis by simp
      next
        case (Some destination)
        show ?thesis
        proof (cases "verify_destination (tp_libs p) destination (gc_allow_third_party (tp_config p))")
          case (Inl f)
          with assms run1 Inr False Some have "r \<noteq> Inr ()" "s' = s1"
            by (auto simp: execute_task_with_estimator_def Let_def inc dest bindE_def)
          with quiet1 show ?thesis by simp
        next
          case verified: (Inr u)
          obtain q2 s2 where run2: "tp_ensure p ?m (et_payload task) destination ?inc
              (tk_amount (et_available_gas task)) s1 = (q2, s2)" by fastforce
          have quiet2: "sent ?k s2 = sent ?k s"
            using no_send_run [OF estimating.ensure_quiet] run2 quiet1 by metis
          show ?thesis
          proof (cases q2)
            case (Inl f)
            with assms run1 run2 Inr False Some verified have "r = Inl f" "s' = s2"
              by (auto simp: execute_task_with_estimator_def Let_def inc dest bindE_def)
            with quiet2 show ?thesis by simp
          next
            case checked: (Inr v)
            with assms run1 run2 Inr False Some verified have "?rest destination s2 = (r, s')"
              by (simp add: execute_task_with_estimator_def Let_def inc dest bindE_def)
            moreover have "allowed_destination (tp_libs p) (tp_sdk p) (tp_config p) task destination"
              using Some verified by (simp add: allowed_destination_def flip: verify_destination_ok_iff)
            moreover have "gas_checked p md task destination s2"
              using run2 checked by (auto simp: gas_checked_def)
            ultimately show ?thesis using un quiet2 by blast
          qed
        qed
      qed
    qed
  qed
qed

end

lemma destination_ix_sends:
  assumes "destination_ix p destination signer incoming payload_pda m payload s = (r, s')"
  shows "sent k s' = sent k s"
proof -
  have "issues (\<lambda>q. send_of k q = []) (destination_ix p destination signer incoming payload_pda m payload)"
    by (intro issues_destination_ix) simp
  then show ?thesis using assms by (rule no_send_run)
qed

lemma moves_payload:
  "(\<And>h. moves R (f h)) \<Longrightarrow> (\<And>ms. moves R (g ms)) \<Longrightarrow>
   moves R (case items of VerifierSetRotation h \<Rightarrow> f h | NewMessages ms \<Rightarrow> g ms)"
  by (cases items) simp_all

context task_pusher
begin

text \<open>The last transaction of a message: the call of its destination, then the payload's closing.\<close>

lemma destination_program_sends:
  assumes "send_to_destination_program p destination signer incoming payload_pda m payload s = (r, s')"
  shows "sent (node_tag (tp_node p)) s' = sent (node_tag (tp_node p)) s \<and> r \<notin> range Inr
    \<or> (\<exists>ix ixc tx s1. destination_ix p destination signer incoming payload_pda m payload s = (Inr ix, s1) \<and>
         close_message_payload (tp_libs p) (gateway_root (tp_libs p)) (gc_keypair (tp_config p))
           (message_to_command_id (tp_libs p) m) = Inr ixc \<and>
         carrying [ix, ixc] tx \<and> sent (node_tag (tp_node p)) s' = sent (node_tag (tp_node p)) s @ [tx])"
proof (cases "destination_ix p destination signer incoming payload_pda m payload s")
  case (Pair q s1)
  from destination_ix_sends [OF Pair] have quiet: "sent k s1 = sent k s" for k .
  let ?close = "close_message_payload (tp_libs p) (gateway_root (tp_libs p)) (gc_keypair (tp_config p))
    (message_to_command_id (tp_libs p) m)"
  show ?thesis
  proof (cases q)
    case (Inl f)
    with assms Pair quiet show ?thesis by (auto simp: send_to_destination_program_def bindE_def)
  next
    case (Inr ix)
    show ?thesis
    proof (cases ?close)
      case (Inl e)
      with assms Pair Inr quiet show ?thesis
        by (auto simp: send_to_destination_program_def bindE_def built_def)
    next
      case close: (Inr ixc)
      with assms Pair Inr have run: "tp_send p [ix, ixc] s1 = (r, s')"
        by (simp add: send_to_destination_program_def bindE_def built_def)
      show ?thesis
      proof (cases r)
        case (Inl f)
        from sending.send_at_most_one [OF run] quiet Pair Inr close Inl show ?thesis by auto
      next
        case sig: (Inr sig)
        from sending.send_ok [OF run [unfolded sig]] quiet Pair Inr close show ?thesis by auto
      qed
    qed
  qed
qed

lemma execute_ok:
  assumes "execute_task_with_estimator p md signer task s = (Inr (), s')"
  shows "(sent (node_tag (tp_node p)) s' = sent (node_tag (tp_node p)) s \<and>
      recorded_as True (tp_libs p) (tp_node p) task)
    \<or> (\<exists>destination payload_pda s1 s2 s3 ix ixc tx.
         recorded_as False (tp_libs p) (tp_node p) task \<and> allowed_destination (tp_libs p) (tp_sdk p) (tp_config p) task destination \<and> gas_checked p md task destination s1 \<and>
         sent (node_tag (tp_node p)) s1 = sent (node_tag (tp_node p)) s \<and>
         upload (tp_send p) (tp_libs p) (tp_runtime p) (gc_keypair (tp_config p))
           (compose_message md (et_message task)) (et_payload task) s1 = (Inr payload_pda, s2) \<and>
         destination_ix p destination signer (message_incoming (tp_libs p) task) payload_pda
           (compose_message md (et_message task)) (et_payload task) s2 = (Inr ix, s3) \<and>
         close_message_payload (tp_libs p) (gateway_root (tp_libs p)) (gc_keypair (tp_config p))
           (message_to_command_id (tp_libs p) (compose_message md (et_message task))) = Inr ixc \<and>
         carrying [ix, ixc] tx \<and> sent (node_tag (tp_node p)) s' = sent (node_tag (tp_node p)) s2 @ [tx])"
  using execute_stages [OF assms]
proof (elim disjE exE conjE)
  fix destination s1
  assume un: "recorded_as False (tp_libs p) (tp_node p) task" "allowed_destination (tp_libs p) (tp_sdk p) (tp_config p) task destination"
    "gas_checked p md task destination s1"
    "sent (node_tag (tp_node p)) s1 = sent (node_tag (tp_node p)) s"
    and "bindE (upload (tp_send p) (tp_libs p) (tp_runtime p) (gc_keypair (tp_config p))
             (compose_message md (et_message task)) (et_payload task)) (\<lambda>payload_pda.
           bindE (send_to_destination_program p destination signer (message_incoming (tp_libs p) task) payload_pda
             (compose_message md (et_message task)) (et_payload task)) (\<lambda>_. retE ())) s1 = (Inr (), s')"
  then obtain payload_pda s2 sig where
    up: "upload (tp_send p) (tp_libs p) (tp_runtime p) (gc_keypair (tp_config p))
        (compose_message md (et_message task)) (et_payload task) s1 = (Inr payload_pda, s2)"
    and run: "send_to_destination_program p destination signer (message_incoming (tp_libs p) task) payload_pda
             (compose_message md (et_message task)) (et_payload task) s2 = (Inr sig, s')"
    by (auto elim!: bindE_okE)
  show ?thesis using destination_program_sends [OF run] un up by blast
qed simp

text \<open>A payload that names the relayer's key is uploaded at most.\<close>

lemma own_key_uploads_only:
  assumes run: "execute_task_with_estimator p md signer task s = (r, s')"
    and key: "validate_relayer_not_in_payload (tp_libs p) (et_payload task) signer \<noteq> Inr ()"
    and destination: "\<And>d. parse_pubkey (tp_sdk p) (gm_destination_address (et_message task)) = Some d \<Longrightarrow>
      d \<noteq> its_id (tp_libs p) \<and> d \<noteq> governance_id (tp_libs p)"
  shows "\<exists>txs. sent (node_tag (tp_node p)) s' = sent (node_tag (tp_node p)) s @ txs \<and>
    list_all (\<lambda>t. \<exists>ixs. upload_ix (tp_libs p) (gc_keypair (tp_config p))
      (message_to_command_id (tp_libs p) (compose_message md (et_message task))) ixs \<and> carrying ixs t) txs"
  using execute_stages [OF run]
proof (elim disjE exE conjE)
  fix d s1
  let ?m = "compose_message md (et_message task)"
  let ?up = "upload (tp_send p) (tp_libs p) (tp_runtime p) (gc_keypair (tp_config p)) ?m (et_payload task)"
  assume d: "allowed_destination (tp_libs p) (tp_sdk p) (tp_config p) task d"
    and s1: "sent (node_tag (tp_node p)) s1 = sent (node_tag (tp_node p)) s"
    and rest: "bindE ?up (\<lambda>payload_pda.
           bindE (send_to_destination_program p d signer (message_incoming (tp_libs p) task) payload_pda
             ?m (et_payload task)) (\<lambda>_. retE ())) s1 = (r, s')"
  obtain q s2 where up: "?up s1 = (q, s2)" by fastforce
  from sends_only_run [OF sending.upload_only up] obtain txs where
    txs: "sent (node_tag (tp_node p)) s2 = sent (node_tag (tp_node p)) s1 @ txs"
      "list_all (\<lambda>t. \<exists>ixs. upload_ix (tp_libs p) (gc_keypair (tp_config p))
         (message_to_command_id (tp_libs p) ?m) ixs \<and> carrying ixs t) txs" by blast
  have "sent (node_tag (tp_node p)) s' = sent (node_tag (tp_node p)) s2"
  proof (cases q)
    case (Inl f)
    with rest up show ?thesis by (auto simp: bindE_def)
  next
    case (Inr pda)
    obtain q' s3 where run: "send_to_destination_program p d signer (message_incoming (tp_libs p) task) pda
        ?m (et_payload task) s2 = (q', s3)" by fastforce
    with rest up Inr have "s' = s3" by (auto simp: bindE_def split: sum.splits)
    moreover from d have "d \<noteq> its_id (tp_libs p)" "d \<noteq> governance_id (tp_libs p)"
      using destination by (auto simp: allowed_destination_def)
    ultimately show ?thesis using destination_program_sends [OF run] destination_ix_own_key key by blast
  qed
  with s1 txs show ?thesis by auto
qed auto

lemma execute_silent: "moves same_channel (execute_task_with_estimator p md signer task)"
  unfolding execute_task_with_estimator_def send_to_destination_program_def Let_def
  by (intro silent_rules estimating.ensure_publishes_nothing
      confined_silent [OF confined_already_executed] confined_silent [OF sending.upload_confined]
      confined_silent [OF confined_destination_ix] confined_silent [OF confined_built]
      confined_silent [OF sending.send_confined])

lemma confined_gateway_task: "confined (gateway_tx_task p data signer)"
  unfolding gateway_tx_task_def Let_def
  by (intro confined_rules sending.confined_gateway_tx moves_payload)

lemma confined_refund: "confined (refund_task p task)"
  unfolding refund_task_def by (intro confined_rules sending.send_confined)

text \<open>A refund that succeeds sent one transaction; one that fails before sending, none.\<close>

lemma refund_sends:
  assumes "refund_task p task s = (r, s')"
  shows "sent (node_tag (tp_node p)) s' = sent (node_tag (tp_node p)) s \<and> r \<notin> range Inr
    \<or> (\<exists>receiver amount ix tx. parse_pubkey (tp_sdk p) (rf_recipient task) = Some receiver \<and>
         rf_remaining task = native amount \<and>
         refund_fees_ix (tp_libs p) (gc_keypair (tp_config p)) receiver (gm_message_id (rf_message task)) amount = Inr ix \<and>
         carrying [ix] tx \<and> sent (node_tag (tp_node p)) s' = sent (node_tag (tp_node p)) s @ [tx])"
proof (cases "parse_pubkey (tp_sdk p) (rf_recipient task)")
  case None
  with assms show ?thesis by (auto simp: refund_task_def)
next
  case (Some receiver)
  show ?thesis
  proof (cases "tk_token_id (rf_remaining task) = None \<and> 0 \<le> tk_amount (rf_remaining task) \<and>
      tk_amount (rf_remaining task) < 2 ^ 64")
    case False
    with assms Some show ?thesis by (auto simp: refund_task_def u64_of_int_def split: if_splits)
  next
    case True
    define amount :: u64 where "amount = word_of_int (tk_amount (rf_remaining task))"
    from True have amount: "u64_of_int (tk_amount (rf_remaining task)) = Some amount"
      and "uint amount = tk_amount (rf_remaining task)"
      by (simp_all add: u64_of_int_def amount_def word_of_int_inverse)
    with True have token: "rf_remaining task = native amount"
      by (simp add: native_def)
    show ?thesis
    proof (cases "refund_fees_ix (tp_libs p) (gc_keypair (tp_config p)) receiver (gm_message_id (rf_message task)) amount")
      case (Inl e)
      with assms Some True amount show ?thesis by (auto simp: refund_task_def lift_eyre_def)
    next
      case (Inr ix)
      with assms Some True amount obtain q where q: "tp_send p [ix] s = (q, s')"
        and r: "r = (case q of Inl f \<Rightarrow> Inl f | Inr sig \<Rightarrow> Inr ())"
        by (auto simp: refund_task_def lift_eyre_def bindE_def split: prod.splits sum.splits)
      show ?thesis
      proof (cases q)
        case (Inl f)
        with sending.send_at_most_one [OF q] r Some token Inr show ?thesis by auto
      next
        case sig: (Inr sig)
        with sending.send_ok q Some token Inr show ?thesis by blast
      qed
    qed
  qed
qed

end

lemma moves_cb_error:
  "(\<And>r. moves R (f r)) \<Longrightarrow> (\<And>e sig. moves R (g e sig)) \<Longrightarrow> (\<And>e. moves R (h e)) \<Longrightarrow>
   moves R (case x of SimulationError r \<Rightarrow> f r | TransactionError e sig \<Rightarrow> g e sig | Generic e \<Rightarrow> h e)"
  by (cases x) simp_all

lemma confined_failure_event: "confined (failure_event p md i source_chain message_id err)"
  unfolding failure_event_def Let_def
  by (intro moves_option moves_cb_error moves_if same.bind same.ret moves_catch_err confined_costs
      confined_fetch gas.gas_confined)

context tx_sender
begin

text \<open>A completed set of gateway transactions: what each sent.\<close>

lemma gateway_txs_sent:
  "mapE (send_gateway_tx send libs) ixs s = (Inr us, s') \<Longrightarrow>
   \<exists>tss. sent tag s' = sent tag s @ concat tss \<and> list_all2 (\<lambda>ix txs. at_most_one carrying [ix] txs) ixs tss"
proof (induction ixs arbitrary: s us)
  case (Cons ix ixs)
  from Cons.prems obtain s1 vs where one: "send_gateway_tx send libs ix s = (Inr (), s1)"
    and rest: "mapE (send_gateway_tx send libs) ixs s1 = (Inr vs, s')"
    by (auto elim!: bindE_okE)
  from gateway_tx_sends [OF one] Cons.IH [OF rest] obtain txs tss where
    "sent tag s1 = sent tag s @ txs" "at_most_one carrying [ix] txs"
    "sent tag s' = sent tag s1 @ concat tss"
    "list_all2 (\<lambda>ix txs. at_most_one carrying [ix] txs) ixs tss" by blast
  then show ?case by (intro exI [of _ "txs # tss"]) simp
qed simp

lemma gateway_set_sent:
  assumes "try_unordered q (send_gateway_tx send libs) ixs s = (Inr us, s')"
  shows "\<exists>zs tss. mset zs = mset ixs \<and> sent tag s' = sent tag s @ concat tss \<and>
    list_all2 (\<lambda>ix txs. at_most_one carrying [ix] txs) zs tss"
  using try_unordered_order [OF assms] gateway_txs_sent by blast

end

text \<open>The instructions of the last step of a gateway transaction task.\<close>

definition final_ixs :: "'w gateway_libs \<Rightarrow> pubkey \<Rightarrow> execute_data \<Rightarrow> instruction list \<Rightarrow> bool" where
  "final_ixs libs signer ed ixs \<longleftrightarrow>
     (case ed_items ed of
        VerifierSetRotation h \<Rightarrow> (\<exists>ix. rotate_ix libs signer ed h = Inr ix \<and> ixs = [ix])
      | NewMessages ms \<Rightarrow> mset ixs = mset (built_ixs (approve_ix libs signer ed) ms))"

context task_pusher
begin

lemma gateway_task_steps:
  assumes "gateway_tx_task p data signer s = (Inr (), s')"
  shows "\<exists>ed ix0 vs us tss. decode_execute_data (tp_libs p) data = Some ed \<and>
     initialize_session (tp_libs p) signer (gateway_root (tp_libs p)) (ed_payload_root ed)
       (ed_signing_set_root ed) = Inr ix0 \<and>
     mset vs = mset (verify_ixs (tp_libs p) ed) \<and> final_ixs (tp_libs p) signer ed us \<and>
     list_all2 (\<lambda>ix txs. at_most_one carrying [ix] txs) (ix0 # vs @ us) tss \<and>
     sent (node_tag (tp_node p)) s' = sent (node_tag (tp_node p)) s @ concat tss"
proof -
  let ?k = "node_tag (tp_node p)" and ?send = "send_gateway_tx (tp_send p) (tp_libs p)"
  let ?one = "\<lambda>ix txs. at_most_one carrying [ix] txs"
  from assms obtain ed ix0 s1 qs s2 where
    ed: "decode_execute_data (tp_libs p) data = Some ed"
    and ix0: "initialize_session (tp_libs p) signer (gateway_root (tp_libs p)) (ed_payload_root ed)
       (ed_signing_set_root ed) = Inr ix0"
    and s1: "?send ix0 s = (Inr (), s1)"
    and s2: "try_unordered (pick (tp_runtime p)) ?send (verify_ixs (tp_libs p) ed) s1 = (Inr qs, s2)"
    and last: "(case ed_items ed of
           VerifierSetRotation h \<Rightarrow> bindE (lift_eyre (rotate_ix (tp_libs p) signer ed h)) ?send
         | NewMessages ms \<Rightarrow> bindE (try_unordered (pick (tp_runtime p)) ?send
             (built_ixs (approve_ix (tp_libs p) signer ed) ms)) (\<lambda>_. retE ())) s2 = (Inr (), s')"
    by (auto simp: gateway_tx_task_def Let_def ok_or_def elim!: bindE_okE split: option.splits)
  from sending.gateway_tx_sends [OF s1] obtain t0 where
    t0: "sent ?k s1 = sent ?k s @ t0" "?one ix0 t0" by blast
  from sending.gateway_set_sent [OF s2] obtain vs tss where
    vs: "mset vs = mset (verify_ixs (tp_libs p) ed)" "sent ?k s2 = sent ?k s1 @ concat tss"
      "list_all2 ?one vs tss" by blast
  have "\<exists>us uss. final_ixs (tp_libs p) signer ed us \<and> list_all2 ?one us uss \<and>
      sent ?k s' = sent ?k s2 @ concat uss"
  proof (cases "ed_items ed")
    case (VerifierSetRotation h)
    with last obtain ix where ix: "rotate_ix (tp_libs p) signer ed h = Inr ix" and run: "?send ix s2 = (Inr (), s')"
      by (auto elim!: bindE_okE)
    from sending.gateway_tx_sends [OF run] obtain txs where "sent ?k s' = sent ?k s2 @ txs" "?one ix txs" by blast
    with VerifierSetRotation ix show ?thesis
      by (intro exI [of _ "[ix]"] exI [of _ "[txs]"]) (simp add: final_ixs_def)
  next
    case (NewMessages ms)
    with last obtain rs where "try_unordered (pick (tp_runtime p)) ?send
        (built_ixs (approve_ix (tp_libs p) signer ed) ms) s2 = (Inr rs, s')"
      by (auto elim!: bindE_okE)
    from sending.gateway_set_sent [OF this] NewMessages show ?thesis by (auto simp: final_ixs_def)
  qed
  then obtain us uss where "final_ixs (tp_libs p) signer ed us" "list_all2 ?one us uss"
    "sent ?k s' = sent ?k s2 @ concat uss" by blast
  with ed ix0 t0 vs show ?thesis
    by (intro exI [of _ ed] exI [of _ ix0] exI [of _ vs] exI [of _ us] exI [of _ "t0 # tss @ uss"])
      (simp add: list_all2_appendI)
qed

end

section \<open>What is reported\<close>

text \<open>
  The event that an error of executing a message is reported with: a revert with at least the
  fee of the failed transaction when it was rejected on chain; lack of gas; otherwise a revert
  with what the upload cost, if anything, or a plain failure.
\<close>

definition reports ::
  "('w, ('w, 'z) world_scheme) tx_pusher \<Rightarrow> config_metadata \<Rightarrow> task_id \<Rightarrow> execute_task \<Rightarrow> eyre \<Rightarrow> amp_event \<Rightarrow> bool" where
  "reports p md i task err event \<longleftrightarrow>
     (let libs = tp_libs p; chain = gm_source_chain (et_message task); m = gm_message_id (et_message task) in
      case downcast_cb err of
        Some (TransactionError source sig) \<Rightarrow>
          \<exists>(s1 :: ('w, 'z) world_scheme) s2 st g.
             fetch_transaction (tp_sdk p) (tp_runtime p) (tp_node p) (cm_commitment md) sig s1 = (Inr st, s2) \<and>
             lt_cost (status_tx st) \<le> g \<and>
             event = message_executed_event libs (show_signature libs sig) chain m REVERTED
               (lt_timestamp (status_tx st)) (native g)
      | _ \<Rightarrow>
          if downcast_gas err \<noteq> None then
            event = cannot_execute_message_event libs i chain m InsufficientGas (show_error libs err)
          else
            (\<exists>fee. 0 < fee \<and> event = message_executed_event libs (show_task_id libs i) chain m REVERTED None (native fee)) \<or>
            event = cannot_execute_message_event libs i chain m CannotExecuteError (show_error libs err))"

lemma failure_event_reports:
  fixes p :: "('w, ('w, 'z) world_scheme) tx_pusher" and s s' :: "('w, 'z) world_scheme"
  assumes "failure_event p md i (gm_source_chain (et_message task)) (gm_message_id (et_message task)) err s = (Inr event, s')"
  shows "reports p md i task err event"
proof (cases "\<exists>source sig. downcast_cb err = Some (TransactionError source sig)")
  case True
  then obtain source sig where tx: "downcast_cb err = Some (TransactionError source sig)" by blast
  with assms obtain st s1 q s2 where
    fetch: "fetch_transaction (tp_sdk p) (tp_runtime p) (tp_node p) (cm_commitment md) sig s = (Inr st, s1)"
    and gas: "catch_errE (compute_total_gas (tp_fuel p) (tp_sdk p) (tp_codec p) (tp_runtime p) (tp_node p)
        (cm_commitment md) (gateway_id (tp_libs p)) (status_tx st)) s1 = (Inr q, s2)"
    and event: "event = message_executed_event (tp_libs p) (show_signature (tp_libs p) sig)
        (gm_source_chain (et_message task)) (gm_message_id (et_message task)) REVERTED (lt_timestamp (status_tx st))
        (native (case q of Inr g \<Rightarrow> g | Inl e \<Rightarrow> lt_cost (status_tx st)))"
    by (auto simp: failure_event_def Let_def elim!: bindE_okE)
  have "lt_cost (status_tx st) \<le> (case q of Inr g \<Rightarrow> g | Inl e \<Rightarrow> lt_cost (status_tx st))"
    using catch_err_ok [OF gas] gas.gas_covers_fee by (auto split: sum.splits)
  with tx fetch event show ?thesis unfolding reports_def Let_def by (simp, blast)
next
  case False
  show ?thesis
  proof (cases "downcast_gas err = None")
    case True
    with False assms obtain q where "event = uploading_event (tp_libs p) i (gm_source_chain (et_message task))
        (gm_message_id (et_message task)) err q"
      by (auto simp: failure_event_def Let_def elim!: bindE_okE split: option.splits cb_error.splits)
    with False True show ?thesis
      by (auto simp: reports_def uploading_event_def Let_def split: option.splits cb_error.splits sum.splits if_splits)
  next
    case gas: False
    with False assms show ?thesis
      by (auto simp: failure_event_def reports_def Let_def split: option.splits cb_error.splits)
  qed
qed

context task_pusher
begin

lemma process_publishes:
  assumes "process_task p md item s = (r, s')"
  shows "(\<exists>task err s1 event. ti_task item = Execute task \<and>
        execute_task_with_estimator p md (gc_keypair (tp_config p)) task s = (Inl (Err err), s1) \<and>
        r = Inr () \<and> reports p md (ti_id item) task err event \<and> published s' = published s @ [[event]])
    \<or> published s' = published s \<and> (r = Inr () \<longrightarrow> (\<forall>task. ti_task item = Execute task \<longrightarrow>
        (\<exists>s1. execute_task_with_estimator p md (gc_keypair (tp_config p)) task s = (Inr (), s1))))"
proof (cases "ti_task item")
  case (GatewayTx data)
  with assms have "gateway_tx_task p data (gc_keypair (tp_config p)) s = (r, s')"
    by (simp add: process_task_def)
  from movesD [OF confined_silent [OF confined_gateway_task] this] GatewayTx show ?thesis
    by (simp add: same_channel_def)
next
  case (Refund task)
  with assms have "refund_task p task s = (r, s')" by (simp add: process_task_def)
  from movesD [OF confined_silent [OF confined_refund] this] Refund show ?thesis
    by (simp add: same_channel_def)
next
  case (Execute task)
  let ?run = "execute_task_with_estimator p md (gc_keypair (tp_config p)) task"
  let ?event = "failure_event p md (ti_id item) (gm_source_chain (et_message task)) (gm_message_id (et_message task))"
  obtain q s1 where run: "?run s = (q, s1)" by fastforce
  have silent: "published s1 = published s" using movesD [OF execute_silent run] by (simp add: same_channel_def)
  show ?thesis
  proof (cases "\<exists>err. q = Inl (Err err)")
    case False
    with assms Execute run have "s' = s1" "r = Inr () \<longrightarrow> q = Inr ()"
      by (auto simp: process_task_def bindE_def catch_errE_def split: sum.splits fault.splits)
    with silent run Execute show ?thesis by auto
  next
    case True
    then obtain err where err: "q = Inl (Err err)" by blast
    obtain q2 s2 where ev: "?event err s1 = (q2, s2)" by fastforce
    have silent2: "published s2 = published s1"
      using movesD [OF confined_silent [OF confined_failure_event] ev] by (simp add: same_channel_def)
    show ?thesis
    proof (cases q2)
      case (Inl f)
      with assms Execute run err ev have "r = Inl f" "s' = s2"
        by (auto simp: process_task_def bindE_def catch_errE_def)
      with silent silent2 show ?thesis by simp
    next
      case (Inr event)
      with assms Execute run err ev have pub: "publish [event] s2 = (r, s')"
        by (simp add: process_task_def bindE_def catch_errE_def)
      from failure_event_reports [OF ev [unfolded Inr]] pub silent silent2 run err Execute show ?thesis
        by (auto simp: publish_def split: if_splits)
    qed
  qed
qed (use assms in \<open>auto simp: process_task_def\<close>)

end

interpretation pusher: task_pusher "new_pusher cfg name nd sn rt sdk libs codec fuel" "carries sdk (gc_keypair cfg)"
  for cfg name nd sn rt sdk libs codec fuel
proof -
  have "tx_sender (send_transaction sdk rt (main_client nd) (gc_keypair cfg)) MainNode (carries sdk (gc_keypair cfg))"
    using es.tx_sender_axioms [of sdk rt "main_client nd" "gc_keypair cfg"] by simp
  moreover have "gas_estimator MainNode (ensure_enough_gas sdk libs (estimator_client sn) (main_client nd) (gc_keypair cfg))"
    by (rule simnet.gas_estimator_axioms)
  ultimately show "task_pusher (new_pusher cfg name nd sn rt sdk libs codec fuel) (carries sdk (gc_keypair cfg))"
    by (simp add: task_pusher_def)
qed

section \<open>A concrete pusher\<close>

definition sample_config :: gateway_config where
  "sample_config = default_gateway_config sample_gateway 21 5"

abbreviation sample_pusher :: "(nat, (nat, 'z) processor_world_scheme) tx_pusher" where
  "sample_pusher \<equiv> new_pusher sample_config ''solana'' (easy_node MainNode) (easy_node SimNode) counting_runtime
     decimal_sdk sample_gateway sample_codec 1"

definition processor_start :: "nat processor_world" where
  "processor_start = \<lparr>env = 0, wire = [], published = [], amplifier_open = True, gas_cache = Map.empty\<rparr>"

definition sample_task :: "string \<Rightarrow> bytes \<Rightarrow> execute_task" where
  "sample_task destination payload =
     \<lparr>et_message = \<lparr>gm_message_id = ''0x1'', gm_source_chain = ''eth'', gm_source_address = ''0xa'',
        gm_destination_address = destination, gm_payload_hash = []\<rparr>,
      et_payload = payload, et_available_gas = \<lparr>tk_token_id = None, tk_amount = 2 ^ 64\<rparr>\<rparr>"

lemma easy_clients [simp]:
  "main_client (easy_node tag) = easy_node MainNode" "estimator_client (easy_node tag) = easy_node SimNode"
  by (simp_all add: main_client_def estimator_client_def easy_node_def ledger_node_def)

lemma sample_config_simps [simp]:
  "gc_keypair sample_config = 5" "gc_allow_third_party sample_config = False"
  "gc_commitment sample_config = Finalized"
  by (simp_all add: sample_config_def default_gateway_config_def)

lemma sample_gateway_simps [simp]:
  "set (whitelist sample_gateway) = {11, 12, 13, 14, 15}"
  "incoming_message_pda sample_gateway c = c"
  "read_incoming_message sample_gateway raw = Some (raw = [1])"
  "decode_message_payload sample_gateway b =
     Some (map (\<lambda>k. \<lparr>am_pubkey = ucast k, am_signer = False, am_writable = True\<rparr>) b)"
  by (simp_all add: whitelist_def sample_gateway_def)

lemma sample_account [simp]: "n_account_data (easy_node tag) a e = (Inr [], Suc e)"
  by (simp add: easy_node_def ledger_node_def)

lemma easy_send:
  "\<exists>sig s'. send_transaction decimal_sdk rt (easy_node tag) kp ixs s = (Inr sig, s')"
  unfolding easy_node_def by (rule ledger_send_ok)

lemma easy_gateway_tx:
  "\<exists>s'. send_gateway_tx (send_transaction decimal_sdk rt (easy_node tag) kp) libs ix s = (Inr (), s')"
  unfolding easy_node_def by (rule ledger_gateway_tx)

lemma sample_executes:
  assumes "gas_cache s (message_incoming sample_gateway (sample_task ''15'' payload)) = None"
    and "length payload < 2 ^ 60" and "\<forall>b \<in> set payload. b \<noteq> 5"
  shows "\<exists>s'. execute_task_with_estimator (new_pusher sample_config name (easy_node MainNode) (easy_node SimNode) rt
      decimal_sdk sample_gateway codec fuel) md 5 (sample_task ''15'' payload)
    (s :: (nat, 'z) processor_world_scheme) = (Inr (), s')"
proof -
  let ?p = "new_pusher sample_config name (easy_node MainNode) (easy_node SimNode) rt decimal_sdk sample_gateway codec fuel"
  let ?t = "sample_task ''15'' payload"
  let ?m = "compose_message md (et_message ?t)"
  let ?inc = "message_incoming sample_gateway ?t"
  let ?send = "send_transaction decimal_sdk rt (easy_node MainNode) 5"
  obtain s1 where s1: "incoming_message_already_executed sample_gateway (easy_node MainNode) ?inc s = (Inr False, s1)"
    and same: "same_component s s1"
    by (auto simp: incoming_message_already_executed_def bindE_def rpc_def call_def map_faultE_def
        intro: same_component_intro)
  from same assms(1) have "gas_cache s1 ?inc = None" by (auto simp: same_component_def)
  with easy_ensure [of payload 15 s1 ?inc] assms(2) obtain s2 where
    s2: "ensure_enough_gas decimal_sdk sample_gateway (easy_node SimNode) (easy_node MainNode) 5
      ?m payload 15 ?inc (2 ^ 64) s1 = (Inr (), s2)" by fastforce
  have "\<exists>pda s'. upload ?send sample_gateway rt 5 ?m payload s2 = (Inr pda, s')"
    by (rule upload_succeeds) (use assms(2) in \<open>auto simp: easy_gateway_tx sample_builders tagged_ix_def\<close>)
  then obtain pda s3 where s3: "upload ?send sample_gateway rt 5 ?m payload s2 = (Inr pda, s3)" by blast
  have "(5 :: pubkey) \<noteq> ucast b" if "b \<in> set payload" for b :: u8
  proof
    assume "(5 :: pubkey) = ucast b"
    then have "unat (5 :: pubkey) = unat (ucast b :: pubkey)" by simp
    moreover have "unat b < 2 ^ 256"
      using unsigned_less [of b, where ?'a = nat] by (rule less_le_trans) simp
    ultimately have "unat b = 5" by (simp add: unsigned_ucast_eq take_bit_nat_eq_self)
    then have "b = 5" by (simp add: word_unat_eq_iff)
    with assms(3) that show False by blast
  qed
  then have "validate_relayer_not_in_payload sample_gateway payload 5 = Inr ()"
    by (auto simp: validate_relayer_ok_iff)
  moreover obtain sig s4 where "?send [\<lparr>ix_program = 1, ix_metas = [], ix_data = [7]\<rparr>,
      \<lparr>ix_program = 1, ix_metas = [], ix_data = [4]\<rparr>] s3 = (Inr sig, s4)"
    using easy_send by blast
  ultimately have s4: "send_to_destination_program ?p 15 5 ?inc pda ?m payload s3 = (Inr sig, s4)"
    by (simp add: send_to_destination_program_def destination_ix_def Let_def sample_builders
        tagged_ix_def built_def lift_eyre_def bindE_def)
  have "parse_pubkey decimal_sdk ''15'' = Some 15"
    by (simp add: decimal_sdk_def decimal_word_def digit_val_def)
  with s1 s2 s3 s4 show ?thesis
    by (simp add: execute_task_with_estimator_def Let_def bindE_def verify_destination_def
        sample_task_def compose_message_def message_incoming_def)
qed

lemma sample_pusher_run:
  "\<exists>s'. execute_task_with_estimator (sample_pusher :: (nat, nat processor_world) tx_pusher) md 5 (sample_task ''15'' [1, 2, 3]) processor_start = (Inr (), s') \<and>
     sent MainNode s' \<noteq> []"
proof -
  let ?p = "new_pusher sample_config ''solana'' (easy_node MainNode) (easy_node SimNode) counting_runtime
     decimal_sdk sample_gateway sample_codec 1 :: (nat, nat processor_world) tx_pusher"
  obtain s' where run: "execute_task_with_estimator sample_pusher md 5 (sample_task ''15'' [1, 2, 3]) processor_start = (Inr (), s')"
    using sample_executes [where s = processor_start and md = md and payload = "[1, 2, 3]" and name = "''solana''"
        and rt = counting_runtime and codec = sample_codec and fuel = 1]
    by (auto simp: processor_start_def)
  from pusher.execute_ok [OF run [folded sample_config_simps(1)]]
  have "sent MainNode s' \<noteq> []" by (auto simp: recorded_as_def)
  with run show ?thesis by blast
qed

lemma gateway_set_succeeds:
  assumes "\<And>ix s. \<exists>s'. send_gateway_tx send libs ix s = (Inr (), s')"
  shows "\<exists>us s'. try_unordered q (send_gateway_tx send libs) ixs s = (Inr us, s')"
proof (cases "try_unordered q (send_gateway_tx send libs) ixs s")
  case (Pair r s')
  show ?thesis
  proof (cases r)
    case (Inl e)
    from try_unordered_error [OF Pair [unfolded Inl]] obtain ix s0 s1 where
      "send_gateway_tx send libs ix s0 = (Inl e, s1)" by blast
    with assms [of ix s0] show ?thesis by auto
  qed (use Pair in blast)
qed

definition sample_item :: task_item where
  "sample_item = \<lparr>ti_id = 9, ti_task = Execute (sample_task ''x'' [])\<rparr>"

lemma sample_item_fails:
  "\<exists>s'. process_task (sample_pusher :: (nat, nat processor_world) tx_pusher) md sample_item processor_start = (Inr (), s') \<and>
     fst (execute_task_with_estimator (sample_pusher :: (nat, nat processor_world) tx_pusher) md 5 (sample_task ''x'' []) processor_start) =
       Inl (Err (Ctx ''Failed to parse destination address'' (Msg ''invalid pubkey'')))"
proof -
  let ?p = "sample_pusher :: (nat, nat processor_world) tx_pusher"
  have bad: "parse_pubkey decimal_sdk ''x'' = None"
    by (simp add: decimal_sdk_def decimal_word_def digit_val_def)
  obtain s1 where s1: "execute_task_with_estimator ?p md 5 (sample_task ''x'' []) processor_start =
      (Inl (Err (Ctx ''Failed to parse destination address'' (Msg ''invalid pubkey''))), s1)"
    and "same_component processor_start s1"
    by (auto simp: execute_task_with_estimator_def Let_def incoming_message_already_executed_def bindE_def rpc_def
        call_def map_faultE_def sample_task_def compose_message_def bad
        intro: same_component_intro)
  then have "amplifier_open s1" by (auto simp: same_component_def processor_start_def)
  have "\<exists>s2. cost_of_payload_uploading 1 decimal_sdk sample_codec counting_runtime (easy_node MainNode) (cm_commitment md) a g s1 =
      (Inr 0, s2) \<and> same_component s1 s2" for a g
    by (auto simp: cost_of_payload_uploading_def fetch_signatures_def bindE_def rpc_def call_def map_faultE_def
        easy_node_def ledger_node_def sig_range_def older_than_def newer_than_def intro: same_component_intro)
  then obtain s2 where s2: "cost_of_payload_uploading 1 decimal_sdk sample_codec counting_runtime (easy_node MainNode)
      (cm_commitment md) (find_message_payload_pda sample_gateway (command_id sample_gateway ''eth'' ''0x1'') 5)
      (gateway_id sample_gateway) s1 = (Inr 0, s2)" and "same_component s1 s2" by blast
  with \<open>amplifier_open s1\<close> have "amplifier_open s2" by (auto simp: same_component_def)
  with s1 s2 show ?thesis
    by (simp add: process_task_def sample_item_def bindE_def catch_errE_def failure_event_def Let_def publish_def)
      (simp add: sample_task_def catch_errE_def publish_def bindE_def)
qed

section \<open>Properties\<close>

text \<open>
  Nothing of a message is sent to the chain before every check has passed: the gateway's
  account of the message was read and is not executed, the destination parses and is one of the
  five Axelar programs unless third-party calls are enabled, and the gas estimator has accepted
  the available gas, up to which point nothing was sent.
\<close>

theorem nothing_sent_before_checks:
  fixes s s' :: "('w, 'z) processor_world_scheme"
  assumes "execute_task_with_estimator (new_pusher cfg name nd sn rt sdk libs codec fuel) md (gc_keypair cfg) task s = (r, s')"
    and "sent MainNode s' \<noteq> sent MainNode s"
  shows "\<exists>destination (s1 :: ('w, 'z) processor_world_scheme).
    recorded_as False libs (main_client nd) task \<and> allowed_destination libs sdk cfg task destination \<and>
    gas_checked (new_pusher cfg name nd sn rt sdk libs codec fuel) md task destination s1 \<and>
    sent MainNode s1 = sent MainNode s"
  using pusher.execute_stages [OF assms(1)] assms(2) unfolding new_pusher_simps main_client_tag by blast

lemma nothing_sent_before_checks_witness:
  "\<exists>s'. execute_task_with_estimator (sample_pusher :: (nat, nat processor_world) tx_pusher)
       (get_config_metadata (sample_pusher :: (nat, nat processor_world) tx_pusher)) 5
       (sample_task ''15'' [1, 2, 3]) processor_start = (Inr (), s') \<and>
     sent MainNode s' \<noteq> [] \<and> recorded_as False sample_gateway (easy_node MainNode) (sample_task ''15'' [1, 2, 3])"
proof -
  let ?md = "get_config_metadata (sample_pusher :: (nat, nat processor_world) tx_pusher)"
  obtain s' where run: "execute_task_with_estimator sample_pusher ?md 5 (sample_task ''15'' [1, 2, 3]) processor_start =
      (Inr (), s')" and sent: "sent MainNode s' \<noteq> []"
    using sample_pusher_run [of ?md] by blast
  from sent have "sent MainNode s' \<noteq> sent MainNode processor_start" by (simp add: processor_start_def sent_def)
  from nothing_sent_before_checks [OF run [folded sample_config_simps(1)] this] run sent
  show ?thesis by auto
qed

text \<open>
  The relayer never signs a call of a third-party program whose payload names the relayer's
  own key: whatever happens to such a message, the transactions sent to the chain carry upload
  instructions only.
\<close>

theorem own_key_never_called:
  assumes "execute_task_with_estimator (new_pusher cfg name nd sn rt sdk libs codec fuel) md (gc_keypair cfg) task s = (r, s')"
    and "decode_message_payload libs (et_payload task) = Some metas" and "gc_keypair cfg \<in> am_pubkey ` set metas"
    and "parse_pubkey sdk (gm_destination_address (et_message task)) = Some destination"
    and "destination \<noteq> its_id libs" and "destination \<noteq> governance_id libs"
  shows "\<exists>txs. sent MainNode s' = sent MainNode s @ txs \<and>
    list_all (\<lambda>t. \<exists>ixs. upload_ix libs (gc_keypair cfg)
      (message_to_command_id libs (compose_message md (et_message task))) ixs \<and>
      carries sdk (gc_keypair cfg) ixs t) txs"
proof -
  have "validate_relayer_not_in_payload libs (et_payload task) (gc_keypair cfg) \<noteq> Inr ()"
    using assms(2,3) by (auto simp: validate_relayer_ok_iff)
  then show ?thesis using pusher.own_key_uploads_only [OF assms(1)] assms(4-6) by simp
qed

lemma own_key_never_called_witness:
  "\<exists>r s' txs. execute_task_with_estimator (sample_pusher :: (nat, nat processor_world) tx_pusher)
       (get_config_metadata (sample_pusher :: (nat, nat processor_world) tx_pusher)) 5
       (sample_task ''15'' [4, 5]) processor_start = (r, s') \<and> sent MainNode s' = txs \<and>
     list_all (\<lambda>t. \<exists>ixs. upload_ix sample_gateway 5 (message_to_command_id sample_gateway (compose_message
       (get_config_metadata (sample_pusher :: (nat, nat processor_world) tx_pusher))
       (et_message (sample_task ''15'' [4, 5])))) ixs \<and> carries decimal_sdk 5 ixs t) txs"
proof -
  let ?md = "get_config_metadata (sample_pusher :: (nat, nat processor_world) tx_pusher)"
  obtain r s' where run: "execute_task_with_estimator (sample_pusher :: (nat, nat processor_world) tx_pusher) ?md 5
      (sample_task ''15'' [4, 5]) processor_start = (r, s')" by fastforce
  let ?metas = "map (\<lambda>k. \<lparr>am_pubkey = ucast k, am_signer = False, am_writable = True\<rparr>) [4, 5 :: u8]"
  have key: "gc_keypair sample_config \<in> am_pubkey ` set ?metas" by simp
  have dest: "parse_pubkey decimal_sdk (gm_destination_address (et_message (sample_task ''15'' [4, 5]))) = Some 15"
    by (simp add: sample_task_def decimal_sdk_def decimal_word_def digit_val_def)
  have "decode_message_payload sample_gateway (et_payload (sample_task ''15'' [4, 5])) = Some ?metas"
    by (simp add: sample_task_def)
  from own_key_never_called [OF run [folded sample_config_simps(1)] this key dest] run show ?thesis
    by (auto simp: sample_builders processor_start_def sent_def)
qed

text \<open>
  A message that is executed without an error was either executed before, and then nothing
  is sent, or passed every check, was uploaded in full, and then its destination was called and
  its payload account closed in one transaction, the last one sent.
\<close>

theorem executed_after_upload:
  fixes s s' :: "('w, 'z) processor_world_scheme"
  assumes "execute_task_with_estimator (new_pusher cfg name nd sn rt sdk libs codec fuel) md (gc_keypair cfg) task s = (Inr (), s')"
  shows "let m = compose_message md (et_message task) in
    (sent MainNode s' = sent MainNode s \<and> recorded_as True libs (main_client nd) task)
    \<or> (\<exists>destination payload_pda (s1 :: ('w, 'z) processor_world_scheme) s2 s3 ix ixc tx.
         recorded_as False libs (main_client nd) task \<and> allowed_destination libs sdk cfg task destination \<and>
         gas_checked (new_pusher cfg name nd sn rt sdk libs codec fuel) md task destination s1 \<and>
         sent MainNode s1 = sent MainNode s \<and>
         upload (send_transaction sdk rt (main_client nd) (gc_keypair cfg)) libs rt (gc_keypair cfg) m (et_payload task) s1 =
           (Inr payload_pda, s2) \<and>
         destination_ix (new_pusher cfg name nd sn rt sdk libs codec fuel) destination (gc_keypair cfg)
           (message_incoming libs task) payload_pda m (et_payload task) s2 = (Inr ix, s3) \<and>
         close_message_payload libs (gateway_root libs) (gc_keypair cfg) (message_to_command_id libs m) = Inr ixc \<and>
         carries sdk (gc_keypair cfg) [ix, ixc] tx \<and> sent MainNode s' = sent MainNode s2 @ [tx])"
  using pusher.execute_ok [OF assms] unfolding new_pusher_simps main_client_tag Let_def by blast

lemma executed_after_upload_witness:
  "\<exists>s'. execute_task_with_estimator (sample_pusher :: (nat, nat processor_world) tx_pusher)
       (get_config_metadata (sample_pusher :: (nat, nat processor_world) tx_pusher)) 5
       (sample_task ''15'' [1, 2, 3]) processor_start = (Inr (), s') \<and>
     (\<exists>ix ixc. carries decimal_sdk 5 [ix, ixc] (last (sent MainNode s')))"
proof -
  let ?md = "get_config_metadata (sample_pusher :: (nat, nat processor_world) tx_pusher)"
  obtain s' where run: "execute_task_with_estimator sample_pusher ?md 5 (sample_task ''15'' [1, 2, 3]) processor_start =
      (Inr (), s')"
    using sample_pusher_run [of ?md] by blast
  from executed_after_upload [OF run [folded sample_config_simps(1)]]
  have "\<exists>ix ixc. carries decimal_sdk 5 [ix, ixc] (last (sent MainNode s'))"
    by (auto simp: Let_def recorded_as_def) blast
  with run show ?thesis by blast
qed

text \<open>
  C9. Processing a task publishes at most one event, and only for a message that failed: the
  event fits the error (a revert on chain costs at least the fee of the reverted transaction).
  A message task that ends without an error was executed or has been reported.
\<close>

theorem failures_reported_once:
  fixes s s' :: "('w, 'z) processor_world_scheme"
  assumes "process_task (new_pusher cfg name nd sn rt sdk libs codec fuel) md item s = (r, s')"
  shows "let p = new_pusher cfg name nd sn rt sdk libs codec fuel in
    (\<exists>task err (s1 :: ('w, 'z) processor_world_scheme) event. ti_task item = Execute task \<and>
        execute_task_with_estimator p md (gc_keypair cfg) task s = (Inl (Err err), s1) \<and>
        r = Inr () \<and> reports p md (ti_id item) task err event \<and> published s' = published s @ [[event]])
    \<or> published s' = published s \<and> (r = Inr () \<longrightarrow> (\<forall>task. ti_task item = Execute task \<longrightarrow>
        (\<exists>s1 :: ('w, 'z) processor_world_scheme. execute_task_with_estimator p md (gc_keypair cfg) task s = (Inr (), s1))))"
  using pusher.process_publishes [OF assms] unfolding new_pusher_simps Let_def by blast

lemma failures_reported_once_witness:
  "\<exists>s' event. process_task (sample_pusher :: (nat, nat processor_world) tx_pusher)
       (get_config_metadata (sample_pusher :: (nat, nat processor_world) tx_pusher)) sample_item processor_start = (Inr (), s') \<and>
     published s' = [[event]]"
proof -
  let ?md = "get_config_metadata (sample_pusher :: (nat, nat processor_world) tx_pusher)"
  obtain s' where run: "process_task sample_pusher ?md sample_item processor_start = (Inr (), s')"
    and failed: "fst (execute_task_with_estimator (sample_pusher :: (nat, nat processor_world) tx_pusher) ?md 5
      (sample_task ''x'' []) processor_start) = Inl (Err (Ctx ''Failed to parse destination address'' (Msg ''invalid pubkey'')))"
    using sample_item_fails [of ?md] by blast
  from failures_reported_once [OF run] failed
  have "\<exists>event. published s' = published processor_start @ [[event]]"
    by (auto simp: Let_def sample_item_def)
  with run show ?thesis by (auto simp: processor_start_def)
qed

text \<open>
  A refund task sends one transaction, whose only instruction refunds to the recipient the
  amount of the task, a native amount below 2 to the 64, or it fails; a task with a token, with
  an amount out of range or with a bad address is not refunded.
\<close>

theorem refund_native_only:
  assumes "refund_task (new_pusher cfg name nd sn rt sdk libs codec fuel) task s = (r, s')"
  shows "sent MainNode s' = sent MainNode s \<and> r \<notin> range Inr
    \<or> (\<exists>receiver amount ix tx. parse_pubkey sdk (rf_recipient task) = Some receiver \<and>
         rf_remaining task = native amount \<and>
         refund_fees_ix libs (gc_keypair cfg) receiver (gm_message_id (rf_message task)) amount = Inr ix \<and>
         carries sdk (gc_keypair cfg) [ix] tx \<and> sent MainNode s' = sent MainNode s @ [tx])"
  using pusher.refund_sends [OF assms] by simp

lemma refund_native_only_witness:
  "\<exists>s' tx. refund_task (sample_pusher :: (nat, nat processor_world) tx_pusher)
       \<lparr>rf_message = et_message (sample_task ''15'' []), rf_recipient = ''30'', rf_remaining = native 7\<rparr> processor_start =
       (Inr (), s') \<and> sent MainNode s' = [tx]"
proof -
  let ?task = "\<lparr>rf_message = et_message (sample_task ''15'' []), rf_recipient = ''30'', rf_remaining = native 7\<rparr>"
  have parse: "parse_pubkey decimal_sdk ''30'' = Some 30"
    by (simp add: decimal_sdk_def decimal_word_def digit_val_def)
  have ix: "refund_fees_ix sample_gateway k a i n = tagged_ix 12" for k a i n
    by (simp add: sample_gateway_def)
  obtain sig s' where "send_transaction decimal_sdk counting_runtime (easy_node MainNode) 5
      [\<lparr>ix_program = 1, ix_metas = [], ix_data = [12]\<rparr>] processor_start = (Inr sig, s')"
    using easy_send by blast
  then have run: "refund_task (sample_pusher :: (nat, nat processor_world) tx_pusher) ?task processor_start = (Inr (), s')"
    by (simp add: refund_task_def parse native_def u64_of_int_def ix tagged_ix_def lift_eyre_def bindE_def)
  from refund_native_only [OF run] run show ?thesis
    by (auto simp: processor_start_def sent_def)
qed

abbreviation sample_rotation :: execute_data where
  "sample_rotation \<equiv>
     \<lparr>ed_payload_root = 1, ed_signing_set_root = 2, ed_leaves = [[1], [2]], ed_items = VerifierSetRotation 3\<rparr>"

lemma sample_decoders:
  "decode_execute_data sample_gateway b = Some sample_rotation"
  "initialize_session sample_gateway a r x y = tagged_ix 8"
  "verify_signature_ix sample_gateway r t v x l = tagged_ix 9"
  "rotate_signers_ix sample_gateway r v t n a x = tagged_ix 11"
  by (simp_all add: sample_gateway_def)

lemma sample_verify: "length (verify_ixs sample_gateway sample_rotation) = 2"
  by (simp add: verify_ixs_def built_ixs_def sample_decoders tagged_ix_def List.map_filter_def)

lemma sample_rotation_succeeds:
  "\<exists>s'. gateway_tx_task (new_pusher sample_config name (easy_node MainNode) sn rt decimal_sdk
     (sample_gateway\<lparr>gateway_err_proceed := ok\<rparr>) codec fuel) data 5 s = (Inr (), s')"
proof -
  let ?libs = "sample_gateway\<lparr>gateway_err_proceed := ok\<rparr>"
  let ?send = "send_gateway_tx (send_transaction decimal_sdk rt (easy_node MainNode) 5) ?libs"
  obtain s1 where s1: "?send \<lparr>ix_program = 1, ix_metas = [], ix_data = [8]\<rparr> s = (Inr (), s1)"
    using easy_gateway_tx by blast
  obtain us s2 where s2: "try_unordered (pick rt) ?send (verify_ixs ?libs sample_rotation) s1 = (Inr us, s2)"
    using gateway_set_succeeds [OF easy_gateway_tx] by blast
  obtain s3 where s3: "?send \<lparr>ix_program = 1, ix_metas = [], ix_data = [11]\<rparr> s2 = (Inr (), s3)"
    using easy_gateway_tx by blast
  show ?thesis
    using s1 s2 s3 by (simp add: gateway_tx_task_def Let_def sample_decoders tagged_ix_def lift_eyre_def
        bindE_def rotate_ix_def)
qed

text \<open>
  A gateway transaction task that succeeds has opened the verification session, then
  verified the signatures (those whose instruction could be built, in some order), and only then
  rotated the signers or approved the messages; every step sent at most one transaction, which
  carries its instruction, and none only where the simulation failed with an error that the
  gateway marks as safe to pass over.
\<close>

theorem gateway_task_in_order:
  assumes "gateway_tx_task (new_pusher cfg name nd sn rt sdk libs codec fuel) data signer s = (Inr (), s')"
  shows "\<exists>ed ix0 vs us tss. decode_execute_data libs data = Some ed \<and>
     initialize_session libs signer (gateway_root libs) (ed_payload_root ed) (ed_signing_set_root ed) = Inr ix0 \<and>
     mset vs = mset (verify_ixs libs ed) \<and> final_ixs libs signer ed us \<and>
     list_all2 (\<lambda>ix txs. at_most_one (carries sdk (gc_keypair cfg)) [ix] txs) (ix0 # vs @ us) tss \<and>
     sent MainNode s' = sent MainNode s @ concat tss"
  using pusher.gateway_task_steps [OF assms] by simp

lemma gateway_task_in_order_witness:
  "\<exists>s' tss. gateway_tx_task (sample_pusher :: (nat, nat processor_world) tx_pusher) [] 5 processor_start = (Inr (), s') \<and>
     sent MainNode s' = concat tss \<and> length tss = 4"
proof -
  obtain s' where run: "gateway_tx_task (sample_pusher :: (nat, nat processor_world) tx_pusher) [] 5 processor_start = (Inr (), s')"
    using sample_rotation_succeeds [of _ _ _ "gateway_err_proceed sample_gateway"] by simp blast
  from gateway_task_in_order [OF run] obtain ed ix0 vs us tss where
    "decode_execute_data sample_gateway [] = Some ed" and vs: "mset vs = mset (verify_ixs sample_gateway ed)"
    and us: "final_ixs sample_gateway 5 ed us"
    and tss: "list_all2 (\<lambda>ix txs. at_most_one (carries decimal_sdk 5) [ix] txs) (ix0 # vs @ us) tss"
    and sent: "sent MainNode s' = concat tss"
    by (auto simp: processor_start_def sent_def)
  then have ed: "ed = sample_rotation" by (simp add: sample_decoders)
  from us ed have "length us = 1" by (auto simp: final_ixs_def)
  moreover from vs ed sample_verify have "length vs = 2" by (metis mset_eq_length)
  ultimately have "length tss = 4" using list_all2_lengthD [OF tss] by simp
  with run sent show ?thesis by blast
qed

text \<open>
  The component starts exactly when the gas service's configuration account exists, is owned
  by the configured program, can be read, and names the relayer's key as its operator.
\<close>

theorem authority_checked:
  "(\<exists>s'. ensure_gas_service_authority libs nd key md s = (Inr (), s')) \<longleftrightarrow>
     (\<exists>acc e. n_account nd (cm_gas_config_pda md) (env s) = (Inr acc, e) \<and> acc_owner acc = cm_gas_program md \<and>
        read_gas_config libs (acc_data acc) = Some key)"
proof (cases "n_account nd (cm_gas_config_pda md) (env s)")
  case (Pair r e)
  then show ?thesis
    by (cases r; cases "read_gas_config libs (acc_data (projr r))")
      (auto simp: ensure_gas_service_authority_def rpc_def call_def map_faultE_def bindE_def)
qed

end
