(* ===== verification/FileStorage.thy ===== *)
theory FileStorage
  imports Amplifier
begin

text \<open>
  \<open>crates/file-based-storage/src/lib.rs\<close>: three registers kept in a memory-mapped file of 96
  bytes. The state is the mapped bytes, which all clones of the handle share; the operating
  system's answers (open, grow, map, flush) are a parameter. A 512-bit signature and a 128-bit
  task id stand for their bytes, least significant first.

  The traits \<open>SolanaListenerState\<close> and \<open>relayer_amplifier_state::State\<close>, through which the other
  components use the storage, are instances of the locale \<open>register\<close>.
\<close>

section \<open>Little-endian integers\<close>

fun le_bytes :: "nat \<Rightarrow> nat \<Rightarrow> bytes" where
  "le_bytes 0 k = []"
| "le_bytes (Suc n) k = of_nat k # le_bytes n (k div 256)"

fun of_le_bytes :: "bytes \<Rightarrow> nat" where
  "of_le_bytes [] = 0"
| "of_le_bytes (b # bs) = unat b + 256 * of_le_bytes bs"

lemma length_le_bytes [simp]: "length (le_bytes n k) = n"
  by (induction n k rule: le_bytes.induct) simp_all

lemma of_le_bytes_le [simp]: "of_le_bytes (le_bytes n k) = k mod 256 ^ n"
proof (induction n k rule: le_bytes.induct)
  case (2 n k)
  have "k mod (256 * 256 ^ n) = 256 * (k div 256 mod 256 ^ n) + k mod 256"
    by (rule mod_mult2_eq)
  with 2 show ?case by (simp add: unat_of_nat)
qed simp

lemma le_of_le_bytes [simp]: "length bs = n \<Longrightarrow> le_bytes n (of_le_bytes bs) = bs"
proof (induction bs arbitrary: n)
  case (Cons b bs)
  have b: "unat b < 256" using unsigned_less [of b, where ?'a = nat] by simp
  then have "(unat b + 256 * of_le_bytes bs) div 256 = of_le_bytes bs" by simp
  moreover have "of_nat (unat b + 256 * of_le_bytes bs) = b"
    using b by (simp add: word_unat_eq_iff unat_word_ariths unat_of_nat)
  ultimately show ?case using Cons by (cases n) simp_all
qed simp

lemma of_le_bytes_less: "of_le_bytes bs < 256 ^ length bs"
proof (induction bs)
  case (Cons b bs)
  have "unat b < 256" using unsigned_less [of b, where ?'a = nat] by simp
  with Cons show ?case by simp
qed simp

definition put_word :: "nat \<Rightarrow> 'a::len word \<Rightarrow> bytes" where
  "put_word n w = le_bytes n (unat w)"

definition get_word :: "bytes \<Rightarrow> 'a::len word" where
  "get_word bs = of_nat (of_le_bytes bs)"

lemma length_put_word [simp]: "length (put_word n w) = n"
  by (simp add: put_word_def)

lemma get_put_word: "LENGTH('a) = 8 * n \<Longrightarrow> get_word (put_word n w) = (w :: 'a::len word)"
proof -
  assume len: "LENGTH('a) = 8 * n"
  have "unat w < 2 ^ LENGTH('a)" by simp
  with len have "unat w < 256 ^ n" by (simp add: power_mult)
  then show ?thesis by (simp add: get_word_def put_word_def)
qed

lemma put_get_word:
  assumes "LENGTH('a) = 8 * n" and "length bs = n"
  shows "put_word n (get_word bs :: 'a::len word) = bs"
proof -
  have "of_le_bytes bs < 2 ^ LENGTH('a)" using of_le_bytes_less [of bs] assms by (simp add: power_mult)
  then show ?thesis using assms by (simp add: put_word_def get_word_def unat_of_nat)
qed

lemmas words_16_64 [simp] =
  get_put_word [where 'a = 128 and n = 16, simplified] get_put_word [where 'a = 512 and n = 64, simplified]
  put_get_word [where 'a = 128 and n = 16, simplified] put_get_word [where 'a = 512 and n = 64, simplified]

section \<open>Definitions\<close>

record internal_state =
  latest_queried_task_item_id :: task_id
  latest_processed_task_item_id :: task_id
  latest_processed_signature :: signature

definition default_state :: internal_state where
  "default_state = \<lparr>latest_queried_task_item_id = 0, latest_processed_task_item_id = 0,
     latest_processed_signature = 0\<rparr>"

definition state_len :: nat where
  "state_len = 96"

text \<open>The \<open>repr(C)\<close> layout, and the views \<open>bytemuck\<close> gives; a wrong length panics.\<close>

definition bytes_of :: "internal_state \<Rightarrow> bytes" where
  "bytes_of st = put_word 16 (latest_queried_task_item_id st)
     @ put_word 16 (latest_processed_task_item_id st) @ put_word 64 (latest_processed_signature st)"

definition from_bytes :: "bytes \<Rightarrow> fault + internal_state" where
  "from_bytes bs =
     (if length bs = state_len
      then Inr \<lparr>latest_queried_task_item_id = get_word (take 16 bs),
                latest_processed_task_item_id = get_word (take 16 (drop 16 bs)),
                latest_processed_signature = get_word (drop 32 bs)\<rparr>
      else Inl (Panic ''from_bytes: SizeMismatch''))"

record file_os =
  os_open :: "client_error option"
  os_grow :: "client_error option"
  os_map :: "client_error option"
  os_flush :: "bytes \<Rightarrow> client_error option"

definition os_result :: "client_error option \<Rightarrow> fault + unit" where
  "os_result e = (case e of None \<Rightarrow> Inr () | Some c \<Rightarrow> Inl (client_fault c))"

text \<open>\<open>MemmapState::new\<close> on the file's contents (none if it does not exist yet).\<close>

definition memmap_new :: "file_os \<Rightarrow> bytes option \<Rightarrow> fault + bytes" where
  "memmap_new os file =
     (case os_open os of Some e \<Rightarrow> Inl (client_fault e)
      | None \<Rightarrow>
          (let content = (case file of None \<Rightarrow> [] | Some bs \<Rightarrow> bs) in
           case (if length content < state_len
                 then (case os_grow os of Some e \<Rightarrow> Inl (client_fault e) | None \<Rightarrow> Inr (bytes_of default_state))
                 else Inr content) of
             Inl e \<Rightarrow> Inl e
           | Inr mapped \<Rightarrow>
               (case os_map os of Some e \<Rightarrow> Inl (client_fault e)
                | None \<Rightarrow> (case os_flush os mapped of Some e \<Rightarrow> Inl (client_fault e) | None \<Rightarrow> Inr mapped))))"

definition get_task_item_id :: "(internal_state \<Rightarrow> task_id) \<Rightarrow> bytes \<Rightarrow> fault + task_id option" where
  "get_task_item_id accessor mmap =
     (case from_bytes mmap of Inl e \<Rightarrow> Inl e
      | Inr data \<Rightarrow> Inr (if accessor data = 0 then None else Some (accessor data)))"

definition set_task_item_id ::
  "file_os \<Rightarrow> (task_id \<Rightarrow> internal_state \<Rightarrow> internal_state) \<Rightarrow> task_id \<Rightarrow> (fault, bytes, unit) io" where
  "set_task_item_id os mutator value mmap =
     (case from_bytes mmap of Inl e \<Rightarrow> (Inl e, mmap)
      | Inr data \<Rightarrow> (let mmap' = bytes_of (mutator value data) in (os_result (os_flush os mmap'), mmap')))"

definition get_signature :: "(internal_state \<Rightarrow> signature) \<Rightarrow> bytes \<Rightarrow> fault + signature option" where
  "get_signature accessor mmap =
     (case from_bytes mmap of Inl e \<Rightarrow> Inl e
      | Inr data \<Rightarrow> Inr (if accessor data = 0 then None else Some (accessor data)))"

definition set_signature ::
  "file_os \<Rightarrow> (signature \<Rightarrow> internal_state \<Rightarrow> internal_state) \<Rightarrow> signature \<Rightarrow> (fault, bytes, unit) io" where
  "set_signature os mutator value mmap =
     (case from_bytes mmap of Inl e \<Rightarrow> (Inl e, mmap)
      | Inr data \<Rightarrow> (let mmap' = bytes_of (mutator value data) in (os_result (os_flush os mmap'), mmap')))"

definition latest_queried_task_id :: "bytes \<Rightarrow> fault + task_id option" where
  "latest_queried_task_id = get_task_item_id latest_queried_task_item_id"

definition set_latest_queried_task_id :: "file_os \<Rightarrow> task_id \<Rightarrow> (fault, bytes, unit) io" where
  "set_latest_queried_task_id os = set_task_item_id os (\<lambda>v d. d\<lparr>latest_queried_task_item_id := v\<rparr>)"

definition latest_processed_task_id :: "bytes \<Rightarrow> fault + task_id option" where
  "latest_processed_task_id = get_task_item_id latest_processed_task_item_id"

definition set_latest_processed_task_id :: "file_os \<Rightarrow> task_id \<Rightarrow> (fault, bytes, unit) io" where
  "set_latest_processed_task_id os = set_task_item_id os (\<lambda>v d. d\<lparr>latest_processed_task_item_id := v\<rparr>)"

definition processed_signature :: "bytes \<Rightarrow> fault + signature option" where
  "processed_signature = get_signature latest_processed_signature"

definition set_processed_signature :: "file_os \<Rightarrow> signature \<Rightarrow> (fault, bytes, unit) io" where
  "set_processed_signature os = set_signature os (\<lambda>v d. d\<lparr>latest_processed_signature := v\<rparr>)"

section \<open>Layout\<close>

lemma length_bytes_of [simp]: "length (bytes_of st) = state_len"
  by (simp add: bytes_of_def state_len_def)

lemma from_bytes_of [simp]: "from_bytes (bytes_of st) = Inr st"
  by (simp add: from_bytes_def) (simp add: bytes_of_def)

lemma from_bytes_ok_iff: "from_bytes bs = Inr st \<longleftrightarrow> bs = bytes_of st"
proof
  assume *: "from_bytes bs = Inr st"
  then have len: "length bs = 96" by (auto simp: from_bytes_def state_len_def split: if_splits)
  have "drop 32 bs = drop 16 (drop 16 bs)" by simp
  then have "bs = take 16 bs @ take 16 (drop 16 bs) @ drop 32 bs"
    by (simp only: append_take_drop_id)
  with * len show "bs = bytes_of st"
    by (auto simp: from_bytes_def bytes_of_def state_len_def)
qed simp

lemma from_bytes_total: "length bs = state_len \<Longrightarrow> \<exists>st. bs = bytes_of st"
  by (metis from_bytes_def from_bytes_ok_iff)

lemmas storage_defs = get_task_item_id_def set_task_item_id_def get_signature_def set_signature_def
  latest_queried_task_id_def set_latest_queried_task_id_def latest_processed_task_id_def
  set_latest_processed_task_id_def processed_signature_def set_processed_signature_def

section \<open>Registers\<close>

text \<open>
  What the other components rely on: a register holds the last value written, except that the
  nil value reads as nothing; the value is there even when the flush reports an error.
\<close>

locale register =
  fixes get :: "'s \<Rightarrow> fault + 'a option"
    and set_to :: "'a \<Rightarrow> (fault, 's, unit) io"
    and nil :: 'a
    and valid :: "'s \<Rightarrow> bool"
  assumes get_total: "valid s \<Longrightarrow> \<exists>v. get s = Inr v"
    and set_valid: "valid s \<Longrightarrow> valid (snd (set_to x s))"
    and get_set: "valid s \<Longrightarrow> get (snd (set_to x s)) = Inr (if x = nil then None else Some x)"
begin

lemma valid_sets: "valid s \<Longrightarrow> valid (snd (run_list set_to xs s))"
  by (induction xs arbitrary: s) (auto simp: case_prod_beta set_valid)

lemma last_set_wins:
  "valid s \<Longrightarrow> get (snd (run_list set_to (xs @ [x]) s)) = Inr (if x = nil then None else Some x)"
  by (induction xs arbitrary: s) (auto simp: case_prod_beta set_valid get_set)

end

interpretation queried: register latest_queried_task_id "set_latest_queried_task_id os" 0
    "\<lambda>bs. length bs = state_len" for os
  by unfold_locales (auto simp: storage_defs Let_def dest!: from_bytes_total)

interpretation processed: register latest_processed_task_id "set_latest_processed_task_id os" 0
    "\<lambda>bs. length bs = state_len" for os
  by unfold_locales (auto simp: storage_defs Let_def dest!: from_bytes_total)

interpretation signed: register processed_signature "set_processed_signature os" 0
    "\<lambda>bs. length bs = state_len" for os
  by unfold_locales (auto simp: storage_defs Let_def dest!: from_bytes_total)

section \<open>Properties\<close>

text \<open>The abstract storage: three values and three kinds of writes.\<close>

datatype storage_write = WriteQueried task_id | WriteProcessed task_id | WriteSignature signature

fun apply_write :: "storage_write \<Rightarrow> internal_state \<Rightarrow> internal_state" where
  "apply_write (WriteQueried v) st = st\<lparr>latest_queried_task_item_id := v\<rparr>"
| "apply_write (WriteProcessed v) st = st\<lparr>latest_processed_task_item_id := v\<rparr>"
| "apply_write (WriteSignature v) st = st\<lparr>latest_processed_signature := v\<rparr>"

fun do_write :: "file_os \<Rightarrow> storage_write \<Rightarrow> (fault, bytes, unit) io" where
  "do_write os (WriteQueried v) = set_latest_queried_task_id os v"
| "do_write os (WriteProcessed v) = set_latest_processed_task_id os v"
| "do_write os (WriteSignature v) = set_processed_signature os v"

fun as_option :: "'a::zero \<Rightarrow> 'a option" where
  "as_option v = (if v = 0 then None else Some v)"

lemma run_writes: "snd (run_list (do_write os) ws (bytes_of st)) = bytes_of (fold apply_write ws st)"
proof (induction ws arbitrary: st)
  case (Cons w ws)
  then show ?case by (cases w) (auto simp: storage_defs Let_def case_prod_beta)
qed simp

text \<open>
  C15. The storage implements three independent registers: after any sequence of writes, in any
  interleaving and whatever the flushes answer, each getter returns the last value written to
  its own register (nothing for the nil value), and the bytes stay a well-formed file.
\<close>

theorem storage_refines:
  "let bs = snd (run_list (do_write os) ws (bytes_of st)); st' = fold apply_write ws st in
     bs = bytes_of st' \<and> length bs = state_len \<and>
     latest_queried_task_id bs = Inr (as_option (latest_queried_task_item_id st')) \<and>
     latest_processed_task_id bs = Inr (as_option (latest_processed_task_item_id st')) \<and>
     processed_signature bs = Inr (as_option (latest_processed_signature st'))"
  by (simp add: run_writes Let_def storage_defs)

text \<open>
  The layout is a bijection between states and files of exactly 96 bytes: decoding an
  encoded state gives it back, and whatever 96 bytes a file holds, decoding succeeds and
  encoding gives the same bytes.
\<close>

theorem storage_layout:
  "from_bytes (bytes_of st) = Inr st \<and> (from_bytes bs = Inr st \<longleftrightarrow> bs = bytes_of st) \<and>
   ((\<exists>st'. bs = bytes_of st') \<longleftrightarrow> length bs = state_len)"
  using from_bytes_total by (auto simp: from_bytes_ok_iff)

definition fair_os :: file_os where
  "fair_os = \<lparr>os_open = None, os_grow = None, os_map = None, os_flush = (\<lambda>bs. None)\<rparr>"

text \<open>
  Opening a file, when the operating system reports no error: a missing or shorter file
  becomes the empty state (its old bytes are lost), a file of the right length is kept as it
  is, and a longer file is accepted although every later access to it panics.
\<close>

theorem storage_open:
  "memmap_new fair_os file =
     (case file of
        None \<Rightarrow> Inr (bytes_of default_state)
      | Some bs \<Rightarrow> if length bs < state_len then Inr (bytes_of default_state) else Inr bs) \<and>
   (latest_processed_task_id bs' = Inl (Panic ''from_bytes: SizeMismatch'')) = (length bs' \<noteq> state_len) \<and>
   (processed_signature bs' = Inl (Panic ''from_bytes: SizeMismatch'')) = (length bs' \<noteq> state_len)"
  by (auto simp: memmap_new_def fair_os_def state_len_def storage_defs from_bytes_def Let_def
      split: option.splits)

end
