(* ===== verification/RoundRobin.thy ===== *)
theory RoundRobin
  imports Prelude
begin

text \<open>
  \<open>round_robin_two_streams\<close> of
  \<open>crates/solana-listener/src/component/signature_realtime_scanner.rs\<close>. A (fused) stream is the
  list of what its next polls answer; a stream whose list is used up stays pending.
\<close>

section \<open>Definitions\<close>

datatype 'a polled = Item 'a | Ended | Pending

type_synonym 'a source = "'a polled list"

fun poll_source :: "'a source \<Rightarrow> 'a polled \<times> 'a source" where
  "poll_source [] = (Pending, [])"
| "poll_source (Ended # ps) = (Ended, Ended # ps)"
| "poll_source (p # ps) = (p, ps)"

definition poll_round :: "'a source \<Rightarrow> 'a source \<Rightarrow> 'a polled \<times> 'a source \<times> 'a source" where
  "poll_round a b =
     (case poll_source a of
        (Item x, a') \<Rightarrow> (Item x, a', b)
      | (Ended, a') \<Rightarrow> (Ended, a', b)
      | (Pending, a') \<Rightarrow>
          (case poll_source b of
             (Item x, b') \<Rightarrow> (Item x, a', b')
           | (Ended, b') \<Rightarrow> (Ended, a', b')
           | (Pending, b') \<Rightarrow> (Pending, a', b')))"

record 'a round_robin =
  poll_first :: bool
  stream1 :: "'a source"
  stream2 :: "'a source"

definition round_robin_two_streams :: "'a source \<Rightarrow> 'a source \<Rightarrow> 'a round_robin" where
  "round_robin_two_streams s1 s2 = \<lparr>poll_first = False, stream1 = s1, stream2 = s2\<rparr>"

definition poll_next :: "'a round_robin \<Rightarrow> 'a polled \<times> 'a round_robin" where
  "poll_next rr =
     (let first = \<not> poll_first rr in
      if first then
        (case poll_round (stream1 rr) (stream2 rr) of
           (p, a, b) \<Rightarrow> (p, \<lparr>poll_first = first, stream1 = a, stream2 = b\<rparr>))
      else
        (case poll_round (stream2 rr) (stream1 rr) of
           (p, b, a) \<Rightarrow> (p, \<lparr>poll_first = first, stream1 = a, stream2 = b\<rparr>)))"

fun poll_many :: "nat \<Rightarrow> 'a round_robin \<Rightarrow> 'a polled list \<times> 'a round_robin" where
  "poll_many 0 rr = ([], rr)"
| "poll_many (Suc n) rr =
     (case poll_next rr of (p, rr1) \<Rightarrow> case poll_many n rr1 of (ps, rr2) \<Rightarrow> (p # ps, rr2))"

section \<open>Lemmas\<close>

fun items :: "'a polled list \<Rightarrow> 'a list" where
  "items [] = []"
| "items (Item x # ps) = x # items ps"
| "items (p # ps) = items ps"

lemma items_append [simp]: "items (ps @ qs) = items ps @ items qs"
  by (induction ps rule: items.induct) simp_all

lemma poll_source_split:
  "poll_source a = (p, a') \<Longrightarrow> items a = items [p] @ items a'"
  by (cases a rule: poll_source.cases) auto

text \<open>One poll takes at most one item, from the front of one of the streams.\<close>

lemma poll_next_split:
  assumes "poll_next rr = (p, rr')"
  shows "items (stream1 rr) = items [p] @ items (stream1 rr') \<and> items (stream2 rr) = items (stream2 rr')
       \<or> items (stream2 rr) = items [p] @ items (stream2 rr') \<and> items (stream1 rr) = items (stream1 rr')"
proof -
  have round: "items a = items [p] @ items a' \<and> items b = items b' \<or>
      items b = items [p] @ items b' \<and> items a = items a'"
    if "poll_round a b = (p, a', b')" for a b a' b' :: "'a source"
    using that poll_source_split [of a] poll_source_split [of b]
    by (auto simp: poll_round_def split: prod.splits polled.splits)
  show ?thesis using assms
    by (auto simp: poll_next_def Let_def split: if_splits prod.splits dest: round)
qed

lemma shuffles_front1: "zs \<in> shuffles xs ys \<Longrightarrow> us @ zs \<in> shuffles (us @ xs) ys"
  by (induction us) (auto intro: Cons_in_shuffles_leftI)

lemma shuffles_front2: "zs \<in> shuffles xs ys \<Longrightarrow> us @ zs \<in> shuffles xs (us @ ys)"
  by (induction us) (auto intro: Cons_in_shuffles_rightI)

lemma poll_many_split:
  "poll_many n rr = (ps, rr') \<Longrightarrow>
   \<exists>xs ys. items (stream1 rr) = xs @ items (stream1 rr') \<and> items (stream2 rr) = ys @ items (stream2 rr')
     \<and> items ps \<in> shuffles xs ys"
proof (induction n arbitrary: rr ps)
  case (Suc n)
  from Suc.prems obtain p rr1 qs where p: "poll_next rr = (p, rr1)" and
    "poll_many n rr1 = (qs, rr')" and ps: "ps = p # qs"
    by (auto split: prod.splits)
  from Suc.IH [OF this(2)] obtain xs ys where
    *: "items (stream1 rr1) = xs @ items (stream1 rr')" "items (stream2 rr1) = ys @ items (stream2 rr')"
    "items qs \<in> shuffles xs ys" by blast
  have ps': "items ps = items [p] @ items qs" using items_append [of "[p]" qs] ps by simp
  from poll_next_split [OF p] show ?case
  proof
    assume "items (stream1 rr) = items [p] @ items (stream1 rr1) \<and> items (stream2 rr) = items (stream2 rr1)"
    with * ps' shuffles_front1 [OF *(3)] show ?thesis
      by (intro exI [of _ "items [p] @ xs"] exI [of _ ys]) simp
  next
    assume "items (stream2 rr) = items [p] @ items (stream2 rr1) \<and> items (stream1 rr) = items (stream1 rr1)"
    with * ps' shuffles_front2 [OF *(3)] show ?thesis
      by (intro exI [of _ xs] exI [of _ "items [p] @ ys"]) simp
  qed
qed simp

section \<open>Properties\<close>

text \<open>
  The merged stream loses, invents and reorders nothing: after any number of polls, what it
  has yielded is an interleaving of a prefix of each stream, and the rest is still in the
  streams.
\<close>

theorem round_robin_interleaves:
  "\<exists>xs ys. items (stream1 rr) = xs @ items (stream1 (snd (poll_many n rr))) \<and>
     items (stream2 rr) = ys @ items (stream2 (snd (poll_many n rr))) \<and>
     items (fst (poll_many n rr)) \<in> shuffles xs ys"
  using poll_many_split [OF prod.collapse [symmetric]] .

text \<open>
  The merged stream is fair: an item that is ready at the front of either stream is yielded
  within two polls, whatever the other stream does; and when one stream is pending and the other
  has ended, the merged stream ends at the next poll.
\<close>

theorem round_robin_fair:
  "(fst (poll_next \<lparr>poll_first = b, stream1 = Item x # xs, stream2 = ys\<rparr>) = Item x \<or>
    fst (poll_next (snd (poll_next \<lparr>poll_first = b, stream1 = Item x # xs, stream2 = ys\<rparr>))) = Item x) \<and>
   (fst (poll_next \<lparr>poll_first = b, stream1 = ys, stream2 = Item x # xs\<rparr>) = Item x \<or>
    fst (poll_next (snd (poll_next \<lparr>poll_first = b, stream1 = ys, stream2 = Item x # xs\<rparr>))) = Item x) \<and>
   (fst (poll_next \<lparr>poll_first = b, stream1 = Ended # xs, stream2 = []\<rparr>) = Ended) \<and>
   (fst (poll_next \<lparr>poll_first = b, stream1 = [], stream2 = Ended # xs\<rparr>) = Ended)"
  by (cases ys rule: poll_source.cases; cases b) (simp_all add: poll_next_def poll_round_def)

end
