(* ===== verification/TaskLoop.thy ===== *)
theory TaskLoop
  imports TaskProcessor FileStorage RoundRobin
begin

text \<open>
  \<open>SolanaTxPusher::process_internal\<close> of
  \<open>crates/solana-gateway-task-processor/src/component.rs\<close>: after its start-up checks the
  component polls the receiver of tasks and a queue of running futures (\<open>FuturesOrdered\<close>), and
  records the id of every finished task in the order of receipt.

  The receiver is a \<open>source\<close>, the list of what its next polls answer. Which of the running
  futures complete during a poll, and in which order, is the nondeterminism of the inductive
  predicate \<open>background\<close>; the loop is a step relation labelled with what happened. A future
  runs \<open>process_task\<close> in one go when it completes; \<open>TaskSteps\<close> has its requests one by one.
\<close>

section \<open>Definitions\<close>

record 'st task_state =
  latest_task :: "'st \<Rightarrow> fault + task_id option"
  set_latest_task :: "task_id \<Rightarrow> (fault, 'st, unit) io"

definition memmap_tasks :: "file_os \<Rightarrow> bytes task_state" where
  "memmap_tasks os = \<lparr>latest_task = latest_processed_task_id, set_latest_task = set_latest_processed_task_id os\<rparr>"

record ('w, 'st) pusher_world = "'w processor_world" +
  task_store :: 'st

definition save_task :: "'st task_state \<Rightarrow> task_id \<Rightarrow> (fault, ('w, 'st) pusher_world, unit) io" where
  "save_task st i s = (case set_latest_task st i (task_store s) of (r, m) \<Rightarrow> (r, s\<lparr>task_store := m\<rparr>))"

text \<open>An entry of \<open>futures_ordered\<close>: a future that still runs, or its output.\<close>

datatype running = Waiting task_item | Finished task_id "eyre + unit"

text \<open>One poll of the receiver: at most one task joins the queue.\<close>

definition poll_receiver ::
  "task_item source \<Rightarrow> running list \<Rightarrow> task_item list \<times> task_item source \<times> running list" where
  "poll_receiver rx queue =
     (case poll_source rx of
        (Item task, rx') \<Rightarrow> ([task], rx', queue @ [Waiting task])
      | (_, rx') \<Rightarrow> ([], rx', queue))"

datatype loop_event = Received task_item | Processed task_item "eyre + unit" | Recorded task_id

datatype loop_phase = Running "task_item source" "running list" | Halted fault

text \<open>The futures that complete while \<open>futures_ordered\<close> is polled.\<close>

inductive background ::
  "('w, ('w, 'st) pusher_world) tx_pusher \<Rightarrow> config_metadata \<Rightarrow> running list \<times> ('w, 'st) pusher_world
     \<Rightarrow> loop_event list \<Rightarrow> running list \<times> ('w, 'st) pusher_world \<Rightarrow> bool"
  for p md where
  idle: "background p md (queue, s) [] (queue, s)"
| completes:
    "i < length queue \<Longrightarrow> queue ! i = Waiting task \<Longrightarrow>
     catch_errE (process_task p md task) s = (Inr res, s1) \<Longrightarrow>
     background p md (queue[i := Finished (ti_id task) res], s1) evs c \<Longrightarrow>
     background p md (queue, s) (Processed task res # evs) c"

text \<open>
  What the poll yields, and the body of the loop on it. The head of the queue is yielded once it
  has finished; an empty queue ends the stream when the receiver has ended.
\<close>

definition yield_next ::
  "'st task_state \<Rightarrow> bool \<Rightarrow> task_item source \<Rightarrow> running list \<Rightarrow> ('w, 'st) pusher_world
     \<Rightarrow> loop_event list \<times> loop_phase \<times> ('w, 'st) pusher_world" where
  "yield_next st terminated rx queue s =
     (case queue of
        [] \<Rightarrow> ([], if terminated then Halted (msg_fault ''fatal error'') else Running rx [], s)
      | Waiting task # rest \<Rightarrow> ([], Running rx queue, s)
      | Finished i res # rest \<Rightarrow>
          (case save_task st i s of
             (Inl f, s') \<Rightarrow> ([Recorded i], Halted f, s')
           | (Inr _, s') \<Rightarrow> ([Recorded i], Running rx rest, s')))"

inductive loop_step ::
  "('w, ('w, 'st) pusher_world) tx_pusher \<Rightarrow> config_metadata \<Rightarrow> 'st task_state
     \<Rightarrow> loop_phase \<times> ('w, 'st) pusher_world \<Rightarrow> loop_event list \<Rightarrow> loop_phase \<times> ('w, 'st) pusher_world \<Rightarrow> bool"
  for p md st where
  polled:
    "poll_receiver rx queue = (got, rx', queue1) \<Longrightarrow>
     background p md (queue1, s) evs (queue2, s1) \<Longrightarrow>
     yield_next st (fst (poll_source rx) = Ended) rx' queue2 s1 = (out, ph, s2) \<Longrightarrow>
     loop_step p md st (Running rx queue, s) (map Received got @ evs @ out) (ph, s2)"
| panicked:
    "poll_receiver rx queue = (got, rx', queue1) \<Longrightarrow>
     background p md (queue1, s) evs (queue2, s1) \<Longrightarrow>
     i < length queue2 \<Longrightarrow> queue2 ! i = Waiting task \<Longrightarrow>
     catch_errE (process_task p md task) s1 = (Inl f, s2) \<Longrightarrow>
     loop_step p md st (Running rx queue, s) (map Received got @ evs) (Halted f, s2)"

inductive loop_run ::
  "('w, ('w, 'st) pusher_world) tx_pusher \<Rightarrow> config_metadata \<Rightarrow> 'st task_state
     \<Rightarrow> loop_phase \<times> ('w, 'st) pusher_world \<Rightarrow> loop_event list \<Rightarrow> loop_phase \<times> ('w, 'st) pusher_world \<Rightarrow> bool"
  for p md st c where
  start: "loop_run p md st c [] c"
| step: "loop_run p md st c evs c1 \<Longrightarrow> loop_step p md st c1 out c2 \<Longrightarrow> loop_run p md st c (evs @ out) c2"

text \<open>\<open>process_internal\<close>, up to the loop and with it.\<close>

definition pusher_startup ::
  "('w, ('w, 'st) pusher_world) tx_pusher \<Rightarrow> config_metadata \<Rightarrow> (fault, ('w, 'st) pusher_world, unit) io" where
  "pusher_startup p md =
     bindE (ensure_gas_service_authority (tp_libs p) (tp_node p) (gc_keypair (tp_config p)) md)
       (\<lambda>_. tp_update_accounts p (gateway_id (tp_libs p)))"

definition pusher_process ::
  "('w, ('w, 'st) pusher_world) tx_pusher \<Rightarrow> 'st task_state \<Rightarrow> task_item source \<Rightarrow> ('w, 'st) pusher_world
     \<Rightarrow> loop_event list \<Rightarrow> loop_phase \<times> ('w, 'st) pusher_world \<Rightarrow> bool" where
  "pusher_process p st rx s evs c \<longleftrightarrow>
     (case pusher_startup p (get_config_metadata p) s of
        (Inl f, s') \<Rightarrow> evs = [] \<and> c = (Halted f, s')
      | (Inr _, s') \<Rightarrow> loop_run p (get_config_metadata p) st (Running rx [], s') evs c)"

inductive_cases loop_stepE: "loop_step p md st c evs c'"

section \<open>The queue as a contract\<close>

text \<open>What an observer sees of the trace.\<close>

fun received :: "loop_event list \<Rightarrow> task_item list" where
  "received [] = []"
| "received (Received t # evs) = t # received evs"
| "received (_ # evs) = received evs"

fun processed :: "loop_event list \<Rightarrow> task_item list" where
  "processed [] = []"
| "processed (Processed t r # evs) = t # processed evs"
| "processed (_ # evs) = processed evs"

fun recorded_ids :: "loop_event list \<Rightarrow> task_id list" where
  "recorded_ids [] = []"
| "recorded_ids (Recorded i # evs) = i # recorded_ids evs"
| "recorded_ids (_ # evs) = recorded_ids evs"

lemma trace_append [simp]:
  "received (xs @ ys) = received xs @ received ys"
  "processed (xs @ ys) = processed xs @ processed ys"
  "recorded_ids (xs @ ys) = recorded_ids xs @ recorded_ids ys"
  by (induction xs rule: received.induct; simp)+

lemma trace_received [simp]:
  "received (map Received ts) = ts" "processed (map Received ts) = []" "recorded_ids (map Received ts) = []"
  by (induction ts) simp_all

text \<open>
  The contract, one event at a time: a task joins at the end, any waiting task may be processed,
  and only the finished head leaves.
\<close>

inductive queue_trace :: "loop_event list \<Rightarrow> running list \<Rightarrow> bool" where
  empty: "queue_trace [] []"
| joins: "queue_trace evs q \<Longrightarrow> queue_trace (evs @ [Received t]) (q @ [Waiting t])"
| finishes: "queue_trace evs q \<Longrightarrow> i < length q \<Longrightarrow> q ! i = Waiting t \<Longrightarrow>
    queue_trace (evs @ [Processed t r]) (q[i := Finished (ti_id t) r])"
| leaves: "queue_trace evs (Finished i r # q) \<Longrightarrow> queue_trace (evs @ [Recorded i]) q"

lemma queue_trace_prefix: "queue_trace (xs @ ys) q \<Longrightarrow> \<exists>q'. queue_trace xs q'"
proof (induction ys arbitrary: q rule: rev_induct)
  case (snoc y ys)
  from snoc.prems have "\<exists>q'. queue_trace (xs @ ys) q'"
    by (cases rule: queue_trace.cases) (auto simp flip: append_assoc)
  then show ?case using snoc.IH by blast
qed auto

fun entry_of :: "task_item \<Rightarrow> running \<Rightarrow> bool" where
  "entry_of t (Waiting u) = (u = t)"
| "entry_of t (Finished i r) = (i = ti_id t)"

fun is_finished :: "running \<Rightarrow> bool" where
  "is_finished (Waiting t) = False"
| "is_finished (Finished i r) = True"

definition finished_of :: "task_item list \<Rightarrow> running list \<Rightarrow> task_item list" where
  "finished_of ts q = map fst (filter (\<lambda>(t, x). is_finished x) (zip ts q))"

text \<open>The queue holds the received tasks that are not recorded yet, in order of receipt.\<close>

definition queue_sound :: "loop_event list \<Rightarrow> running list \<Rightarrow> bool" where
  "queue_sound evs q \<longleftrightarrow>
     (\<exists>old new. received evs = old @ new \<and> recorded_ids evs = map ti_id old \<and>
        list_all2 entry_of new q \<and> mset (processed evs) = mset old + mset (finished_of new q))"

lemma finished_of_snoc:
  "length ts = length q \<Longrightarrow> finished_of (ts @ [t]) (q @ [x]) = finished_of ts q @ (if is_finished x then [t] else [])"
  by (simp add: finished_of_def)

lemma finished_of_update:
  assumes "list_all2 entry_of ts q" and "i < length q" and "q ! i = Waiting t"
  shows "ts ! i = t \<and> mset (finished_of ts (q[i := Finished j r])) = add_mset t (mset (finished_of ts q))"
  using assms
proof (induction ts q arbitrary: i rule: list_all2_induct)
  case (Cons u ts x q)
  then show ?case by (cases i) (auto simp: finished_of_def)
qed simp

lemma entry_of_update:
  assumes "list_all2 entry_of ts q" and "i < length q" and "q ! i = Waiting t"
  shows "list_all2 entry_of ts (q[i := Finished (ti_id t) r])"
  using assms by (auto simp: list_all2_conv_all_nth nth_list_update)

lemma queue_trace_sound: "queue_trace evs q \<Longrightarrow> queue_sound evs q"
proof (induction rule: queue_trace.induct)
  case empty
  then show ?case by (auto simp: queue_sound_def finished_of_def)
next
  case (joins evs q t)
  then obtain old new where "received evs = old @ new" "recorded_ids evs = map ti_id old"
    "list_all2 entry_of new q" "mset (processed evs) = mset old + mset (finished_of new q)"
    by (auto simp: queue_sound_def)
  then show ?case unfolding queue_sound_def
    by (intro exI [of _ old] exI [of _ "new @ [t]"])
      (simp add: finished_of_snoc list_all2_lengthD list_all2_appendI)
next
  case (finishes evs q i t r)
  then obtain old new where *: "received evs = old @ new" "recorded_ids evs = map ti_id old"
    "list_all2 entry_of new q" "mset (processed evs) = mset old + mset (finished_of new q)"
    by (auto simp: queue_sound_def)
  with finishes finished_of_update [of new q i t "ti_id t" r] entry_of_update [of new q i t r] show ?case
    unfolding queue_sound_def by (intro exI [of _ old] exI [of _ new]) simp
next
  case (leaves evs i r q)
  then obtain old t new where "received evs = old @ t # new" "recorded_ids evs = map ti_id old"
    "list_all2 entry_of (t # new) (Finished i r # q)"
    "mset (processed evs) = mset old + mset (finished_of (t # new) (Finished i r # q))"
    by (auto simp: queue_sound_def list_all2_Cons2)
  then show ?case unfolding queue_sound_def
    by (intro exI [of _ "old @ [t]"] exI [of _ new]) (simp add: finished_of_def)
qed


section \<open>What tasks leave alone\<close>

text \<open>Processing a task touches the fields of \<open>processor_world\<close> only, so not the storage.\<close>

definition keeps_rest :: "('w, 'z) processor_world_scheme \<Rightarrow> ('w, 'z) processor_world_scheme \<Rightarrow> bool" where
  "keeps_rest s s' \<longleftrightarrow> processor_world.more s' = processor_world.more s"

named_theorems keeping_rules \<open>computations that leave the rest of the state alone\<close>

interpretation keeping: state_order keeps_rest
  by unfold_locales (simp_all add: keeps_rest_def)

lemmas [keeping_rules] = keeping.rules

lemma confined_keeps: "confined m \<Longrightarrow> moves keeps_rest m"
  by (erule moves_mono) (auto simp: same_component_def keeps_rest_def)

lemma publish_keeps [keeping_rules]: "moves keeps_rest (publish evs)"
  by (auto simp: moves_def publish_def keeps_rest_def)

lemma cache_keeps [keeping_rules]: "moves keeps_rest (cache_take k)" "moves keeps_rest (cache_put k bd)"
  by (simp_all add: moves_def cache_take_def cache_put_def keeps_rest_def)

lemma ensure_keeps: "moves keeps_rest (ensure_enough_gas sdk libs sn nd kp m payload destination incoming available)"
  unfolding ensure_enough_gas_def
  by (intro keeping_rules confined_keeps confined_estimate confined_calculate_cost)

lemma confined_update_accounts: "confined (update_program_accounts sn address)"
proof (rule movesI)
  fix s r and s' :: "('a, 'b) world_scheme"
  assume run: "update_program_accounts sn address s = (r, s')"
  obtain r1 s1 where 1: "call (ReqAccount (node_tag sn) address) (n_account sn address) s = (r1, s1)" by fastforce
  obtain r2 s2 where 2: "call (ReqProgramAccounts (node_tag sn) address) (n_program_accounts sn address) s1 = (r2, s2)"
    by fastforce
  from run 1 2 have "s' = s2" by (simp add: update_program_accounts_def)
  with movesD [OF confined_call 1] movesD [OF confined_call 2] show "same_component s s'"
    using same.R_trans by blast
qed

lemma confined_authority: "confined (ensure_gas_service_authority libs nd key md)"
  unfolding ensure_gas_service_authority_def by (intro confined_rules)

lemma issues_authority:
  "P (ReqAccount (node_tag nd) (cm_gas_config_pda md)) \<Longrightarrow> issues P (ensure_gas_service_authority libs nd key md)"
  unfolding ensure_gas_service_authority_def by (intro issues_rules moves_if)

lemma issues_update_accounts:
  assumes "\<And>q. node_of q = node_tag sn \<Longrightarrow> \<not> is_send q \<Longrightarrow> P q"
  shows "issues P (update_program_accounts sn address)"
proof (rule movesI)
  fix s r and s' :: "('a, 'b) world_scheme"
  assume "update_program_accounts sn address s = (r, s')"
  then show "grows P s s'"
    using assms by (auto simp: update_program_accounts_def call_def grows_def split: prod.splits)
qed

lemma keeps_store: "keeps_rest s s' \<Longrightarrow> task_store s' = task_store (s :: ('w, 'st) pusher_world)"
  by (cases s; cases s') (simp add: keeps_rest_def)

text \<open>
  What the loop needs of the pusher beyond \<open>task_pusher\<close>: estimating does not touch the storage,
  and warming up the fork only reads.
\<close>

locale looping_pusher = task_pusher p carrying
  for p :: "('w, ('w, 'st) pusher_world) tx_pusher" and carrying +
  assumes ensure_keeps_rest: "moves keeps_rest (tp_ensure p m payload destination incoming available)"
    and update_confined: "confined (tp_update_accounts p address)"
    and update_quiet: "issues (\<lambda>q. \<not> is_send q) (tp_update_accounts p address)"
begin

lemma execute_keeps: "moves keeps_rest (execute_task_with_estimator p md signer task)"
  unfolding execute_task_with_estimator_def send_to_destination_program_def Let_def
  by (intro keeping_rules ensure_keeps_rest
      confined_keeps [OF confined_already_executed] confined_keeps [OF sending.upload_confined]
      confined_keeps [OF confined_destination_ix] confined_keeps [OF confined_built]
      confined_keeps [OF sending.send_confined])

lemma process_keeps: "moves keeps_rest (process_task p md item)"
proof (cases "ti_task item")
  case (Execute task)
  then show ?thesis unfolding process_task_def Let_def
    by (simp, intro keeping_rules moves_catch_err execute_keeps confined_keeps [OF confined_failure_event])
qed (simp_all add: process_task_def keeping.ret confined_keeps [OF confined_gateway_task]
    confined_keeps [OF confined_refund])

lemma process_store: "process_task p md item s = (r, s') \<Longrightarrow> task_store s' = task_store s"
  by (rule keeps_store) (rule movesD [OF process_keeps])

lemma caught_store: "catch_errE (process_task p md item) s = (r, s') \<Longrightarrow> task_store s' = task_store s"
  by (rule keeps_store) (rule movesD [OF moves_catch_err [OF process_keeps]])

lemma startup_confined: "confined (pusher_startup p md)"
  unfolding pusher_startup_def by (intro same.bind confined_authority update_confined)

lemma startup_quiet: "issues (\<lambda>q. \<not> is_send q) (pusher_startup p md)"
  unfolding pusher_startup_def by (intro grow.bind issues_authority update_quiet) simp

lemma startup_store: "pusher_startup p md s = (r, s') \<Longrightarrow> task_store s' = task_store s"
  by (rule keeps_store) (rule movesD [OF confined_keeps [OF startup_confined]])

lemma background_store: "background p md (q, s) evs (q', s') \<Longrightarrow> task_store s' = task_store s"
  by (induction "(q, s)" evs "(q', s')" arbitrary: q s rule: background.induct)
    (auto dest: caught_store)

end

interpretation looping: looping_pusher "new_pusher cfg name nd sn rt sdk libs codec fuel" "carries sdk (gc_keypair cfg)"
  for cfg name nd sn rt sdk libs codec fuel
  by (intro looping_pusher.intro looping_pusher_axioms.intro pusher.task_pusher_axioms)
    (simp_all add: ensure_keeps confined_update_accounts issues_update_accounts)


section \<open>Every run is a trace of the queue\<close>

lemma receive_trace:
  assumes "poll_receiver rx q = (got, rx', q')" and "queue_trace tr q"
  shows "queue_trace (tr @ map Received got) q'"
  using assms by (auto simp: poll_receiver_def intro: queue_trace.joins split: prod.splits polled.splits)

lemma background_trace:
  "background p md (q, s) evs (q', s') \<Longrightarrow> queue_trace tr q \<Longrightarrow> queue_trace (tr @ evs) q'"
proof (induction "(q, s)" evs "(q', s')" arbitrary: q s tr rule: background.induct)
  case (completes i queue task s res s1 evs)
  from queue_trace.finishes [OF completes.prems completes.hyps(1,2), where r = res]
  show ?case using completes.hyps(5) by fastforce
qed simp

lemma background_events: "background p md c evs c' \<Longrightarrow> received evs = [] \<and> recorded_ids evs = []"
  by (induction rule: background.induct) auto

lemma yield_trace:
  assumes "yield_next st terminated rx q s = (out, ph, s')" and "queue_trace tr q"
  shows "\<exists>q'. queue_trace (tr @ out) q' \<and> (\<forall>rx' q''. ph = Running rx' q'' \<longrightarrow> rx' = rx \<and> q'' = q')"
  using assms
  by (auto simp: yield_next_def intro: queue_trace.leaves split: list.splits running.splits prod.splits sum.splits if_splits)

text \<open>
  What a run has done so far: its trace is one of the queue, and the trace's received tasks are
  what has gone from the receiver.
\<close>

abbreviation handed_over :: "task_item source \<Rightarrow> task_item list" where
  "handed_over rx \<equiv> items (takeWhile (\<lambda>x. x \<noteq> Ended) rx)"

definition sofar :: "task_item source \<Rightarrow> loop_event list \<Rightarrow> loop_phase \<Rightarrow> bool" where
  "sofar rx0 evs ph \<longleftrightarrow>
     (\<exists>q. queue_trace evs q \<and> (\<exists>rest. handed_over rx0 = received evs @ rest) \<and>
        (\<forall>rx q'. ph = Running rx q' \<longrightarrow> q' = q \<and>
           handed_over rx0 = received evs @ handed_over rx \<and>
           (Ended \<in> set rx \<longleftrightarrow> Ended \<in> set rx0)))"

lemma receive_items:
  assumes "poll_receiver rx q = (got, rx', q')"
  shows "handed_over rx = got @ handed_over rx'"
    and "Ended \<in> set rx' \<longleftrightarrow> Ended \<in> set rx"
    and "fst (poll_source rx) = Ended \<Longrightarrow> handed_over rx' = [] \<and> Ended \<in> set rx \<and> got = []"
  using assms by (cases rx rule: poll_source.cases; auto simp: poll_receiver_def)+

lemma yield_events: "yield_next st b rx q s = (out, ph, s') \<Longrightarrow> received out = [] \<and> processed out = []"
  by (auto simp: yield_next_def split: list.splits running.splits prod.splits sum.splits)

lemma step_sofar:
  assumes "loop_step p md st (ph, s) out (ph', s')" and "sofar rx0 evs ph"
  shows "sofar rx0 (evs @ out) ph'"
  using assms(1)
proof (cases rule: loop_step.cases)
  case (polled rx queue got rx' queue1 bg queue2 s1 yielded)
  with assms(2) obtain rest where tr: "queue_trace evs queue"
    and rx: "handed_over rx0 = received evs @ handed_over rx"
      "Ended \<in> set rx \<longleftrightarrow> Ended \<in> set rx0"
    by (auto simp: sofar_def)
  from background_trace [OF polled(4) receive_trace [OF polled(3) tr]] yield_trace [OF polled(5)]
  obtain q' where "queue_trace (evs @ out) q'"
    and "\<forall>rx'' q''. ph' = Running rx'' q'' \<longrightarrow> rx'' = rx' \<and> q'' = q'"
    using polled(2) by (metis append.assoc)
  moreover have "received out = got"
    using polled(2) background_events [OF polled(4)] yield_events [OF polled(5)] by simp
  ultimately show ?thesis using rx receive_items [OF polled(3)] by (auto simp: sofar_def)
next
  case (panicked rx queue got rx' queue1 bg queue2 s1 i task f)
  with assms(2) have tr: "queue_trace evs queue"
    and rx: "handed_over rx0 = received evs @ handed_over rx"
    by (auto simp: sofar_def)
  from background_trace [OF panicked(5) receive_trace [OF panicked(4) tr]] panicked(2)
  have "queue_trace (evs @ out) queue2" by simp
  moreover have "received out = got" using panicked(2) background_events [OF panicked(5)] by simp
  ultimately show ?thesis using rx receive_items [OF panicked(4)] panicked(3) by (auto simp: sofar_def)
qed

lemma run_sofar: "loop_run p md st (Running rx0 [], s) evs (ph, s') \<Longrightarrow> sofar rx0 evs ph"
proof (induction evs "(ph, s')" arbitrary: ph s' rule: loop_run.induct)
  case start
  show ?case by (auto simp: sofar_def intro: queue_trace.empty)
next
  case (step evs c1 out)
  then show ?case by (cases c1) (blast intro: step_sofar)
qed

section \<open>What the storage holds\<close>

lemma save_task_store:
  "save_task st i s = (r, s') \<Longrightarrow>
   task_store s' = snd (set_latest_task st i (task_store s)) \<and> r = fst (set_latest_task st i (task_store s))"
  by (auto simp: save_task_def split: prod.splits)

lemma yield_store:
  assumes "yield_next st b rx q s = (out, ph, s')"
  shows "task_store s' = fold (\<lambda>i m. snd (set_latest_task st i m)) (recorded_ids out) (task_store s)"
  using assms by (auto simp: yield_next_def dest: save_task_store split: list.splits running.splits prod.splits sum.splits)

context looping_pusher
begin

lemma step_store:
  assumes "loop_step p md st (ph, s) out (ph', s')"
  shows "task_store s' = fold (\<lambda>i m. snd (set_latest_task st i m)) (recorded_ids out) (task_store s)"
  using assms
proof (cases rule: loop_step.cases)
  case (polled rx queue got rx' queue1 bg queue2 s1 yielded)
  then show ?thesis
    using background_store [OF polled(4)] yield_store [OF polled(5)] background_events [OF polled(4)] by simp
next
  case (panicked rx queue got rx' queue1 bg queue2 s1 i task f)
  then show ?thesis
    using background_store [OF panicked(5)] background_events [OF panicked(5)] caught_store [OF panicked(8)] by simp
qed

lemma run_store:
  "loop_run p md st (ph, s) evs (ph', s') \<Longrightarrow>
   task_store s' = fold (\<lambda>i m. snd (set_latest_task st i m)) (recorded_ids evs) (task_store s)"
proof (induction evs "(ph', s')" arbitrary: ph' s' rule: loop_run.induct)
  case (step evs c1 out)
  then show ?case by (cases c1) (auto dest: step_store)
qed simp

end


lemma run_list_fold: "snd (run_list f xs s) = fold (\<lambda>x s. snd (f x s)) xs s"
  by (induction xs arbitrary: s) (simp_all add: case_prod_beta)

lemma last_recorded:
  assumes "length bs = state_len" and "ids \<noteq> []"
  shows "latest_processed_task_id (fold (\<lambda>i m. snd (set_latest_processed_task_id os i m)) ids bs) =
    Inr (as_option (last ids))"
  using processed.last_set_wins [OF assms(1), of os "butlast ids" "last ids"] assms(2)
  by (simp add: run_list_fold)

section \<open>How the loop ends\<close>

lemma waiting_received:
  assumes "queue_trace evs q" and "i < length q" and "q ! i = Waiting t"
  shows "t \<in> set (received evs)"
proof -
  from queue_trace_sound [OF assms(1)] obtain old new where
    "received evs = old @ new" and new: "list_all2 entry_of new q" by (auto simp: queue_sound_def)
  moreover have "new ! i = t" using list_all2_nthD2 [OF new assms(2)] assms(3) by simp
  moreover have "i < length new" using new assms(2) by (simp add: list_all2_lengthD)
  ultimately show ?thesis by auto
qed

lemma caught_panic: "catch_errE m s = (Inl f, s') \<Longrightarrow> m s = (Inl f, s') \<and> f \<notin> range Err"
  by (cases "fst (m s)"; cases "projl (fst (m s))") (auto simp: catch_errE_def split: prod.splits sum.splits fault.splits)

definition drained :: "task_item source \<Rightarrow> loop_event list \<Rightarrow> bool" where
  "drained rx evs \<longleftrightarrow> queue_trace evs [] \<and> Ended \<in> set rx \<and>
     received evs = handed_over rx"

lemma step_halts:
  assumes "loop_step p md st (Running rx q, s) out (Halted f, s')" and "sofar rx0 evs (Running rx q)"
  shows "(f = msg_fault ''fatal error'' \<and> drained rx0 (evs @ out))
    \<or> (\<exists>i m. recorded_ids out = [i] \<and> fst (set_latest_task st i m) = Inl f)
    \<or> (\<exists>task s1. task \<in> set (received (evs @ out)) \<and> fst (process_task p md task s1) = Inl f \<and> f \<notin> range Err)"
  using assms(1)
proof (cases rule: loop_step.cases)
  case (polled got rx' queue1 bg queue2 s1 yielded)
  show ?thesis
  proof (cases queue2)
    case Nil
    from assms(2) have tr: "queue_trace evs q"
      and rx: "handed_over rx0 = received evs @ handed_over rx"
        "Ended \<in> set rx \<longleftrightarrow> Ended \<in> set rx0"
      by (auto simp: sofar_def)
    from Nil polled(4) have *: "yielded = []" "f = msg_fault ''fatal error''" "fst (poll_source rx) = Ended"
      by (auto simp: yield_next_def split: if_splits)
    have "queue_trace (evs @ out) []"
      using background_trace [OF polled(3) receive_trace [OF polled(2) tr]] polled(1) Nil * by simp
    moreover have "received out = got" using polled(1) background_events [OF polled(3)] * by simp
    ultimately show ?thesis using * rx receive_items [OF polled(2)] by (simp add: drained_def)
  next
    case (Cons x rest)
    with polled(4) obtain i where i: "yielded = [Recorded i]" and "fst (save_task st i s1) = Inl f"
      by (auto simp: yield_next_def split: running.splits prod.splits sum.splits)
    then have "fst (set_latest_task st i (task_store s1)) = Inl f"
      by (auto simp: save_task_def split: prod.splits)
    moreover have "recorded_ids out = [i]" using polled(1) background_events [OF polled(3)] i by simp
    ultimately show ?thesis by blast
  qed
next
  case (panicked got rx' queue1 bg queue2 s1 i task)
  from assms(2) have tr: "queue_trace evs q" by (auto simp: sofar_def)
  have "queue_trace (evs @ out) queue2"
    using background_trace [OF panicked(3) receive_trace [OF panicked(2) tr]] panicked(1) by simp
  with panicked(4,5) have "task \<in> set (received (evs @ out))" by (blast intro: waiting_received)
  with caught_panic [OF panicked(6)] show ?thesis by (metis fst_conv)
qed

lemma run_halts:
  assumes "loop_run p md st (Running rx0 [], s) evs (Halted f, s')"
  shows "(f = msg_fault ''fatal error'' \<and> drained rx0 evs)
    \<or> (\<exists>i m. i \<in> set (recorded_ids evs) \<and> fst (set_latest_task st i m) = Inl f)
    \<or> (\<exists>task s1. task \<in> set (received evs) \<and> fst (process_task p md task s1) = Inl f \<and> f \<notin> range Err)"
  using assms
proof (cases rule: loop_run.cases)
  case (step evs1 c1 out)
  from step(3) obtain rx q s1 where c1: "c1 = (Running rx q, s1)" by (cases rule: loop_step.cases) auto
  from step_halts [OF step(3) [unfolded c1] run_sofar [OF step(2) [unfolded c1]]] step(1)
  show ?thesis by auto
qed

lemma drained_all:
  assumes "drained rx evs"
  shows "recorded_ids evs = map ti_id (handed_over rx) \<and>
    mset (processed evs) = mset (handed_over rx)"
  using assms queue_trace_sound [of evs "[]"] by (auto simp: drained_def queue_sound_def finished_of_def)


lemma finished_subset: "length ts = length q \<Longrightarrow> mset (finished_of ts q) \<subseteq># mset ts"
  by (induction ts q rule: list_induct2) (auto simp: finished_of_def subset_mset.add_increasing2 intro: subset_mset.order_trans)

lemma queue_sound_split:
  assumes "queue_trace (e1 @ e2) q"
  shows "\<exists>old new. received e1 = old @ new \<and> recorded_ids e1 = map ti_id old \<and>
    mset old \<subseteq># mset (processed e1) \<and> mset (processed e1) \<subseteq># mset (received e1)"
proof -
  from queue_trace_prefix [OF assms] obtain q' where "queue_trace e1 q'" by blast
  from queue_trace_sound [OF this] obtain old new where
    *: "received e1 = old @ new" "recorded_ids e1 = map ti_id old" "list_all2 entry_of new q'"
      "mset (processed e1) = mset old + mset (finished_of new q')"
    by (auto simp: queue_sound_def)
  with finished_subset [OF list_all2_lengthD [OF *(3)]] show ?thesis by auto
qed

section \<open>The loop can always finish\<close>

text \<open>
  From every state that the loop can reach, it can go on to its end, with everything recorded, when
  the receiver ends, the storage takes the writes and the processing of what is still to do does
  not panic.
\<close>

fun running_id :: "running \<Rightarrow> task_id" where
  "running_id (Waiting t) = ti_id t"
| "running_id (Finished i r) = i"

definition waiting_tasks :: "running list \<Rightarrow> task_item set" where
  "waiting_tasks q = {t. Waiting t \<in> set q}"

definition never_panics ::
  "('w, ('w, 'st) pusher_world) tx_pusher \<Rightarrow> config_metadata \<Rightarrow> task_item \<Rightarrow> bool" where
  "never_panics p md task \<longleftrightarrow> (\<forall>s f s'. process_task p md task s = (Inl f, s') \<longrightarrow> f \<in> range Err)"

definition writable :: "'st task_state \<Rightarrow> ('st \<Rightarrow> bool) \<Rightarrow> bool" where
  "writable st valid \<longleftrightarrow>
     (\<forall>i m. valid m \<longrightarrow> fst (set_latest_task st i m) = Inr () \<and> valid (snd (set_latest_task st i m)))"

lemma loop_run_append:
  assumes "loop_run p md st c1 e2 c2" and "loop_run p md st c e1 c1"
  shows "loop_run p md st c (e1 @ e2) c2"
  using assms(1)
proof induction
  case (step evs c1' out c2)
  from loop_run.step [OF step.IH step.hyps(2)] show ?case by simp
qed (simp add: assms(2))

lemma caught_ok:
  assumes "never_panics p md task"
  shows "\<exists>res s'. catch_errE (process_task p md task) s = (Inr res, s')"
proof -
  obtain r s' where r: "catch_errE (process_task p md task) s = (r, s')" by fastforce
  show ?thesis
  proof (cases r)
    case (Inl f)
    from caught_panic [OF r [unfolded Inl]] have "process_task p md task s = (Inl f, s')" and "f \<notin> range Err" by simp_all
    with assms show ?thesis unfolding never_panics_def by blast
  qed (use r in blast)
qed

lemma background_trans:
  "background p md c e1 c1 \<Longrightarrow> background p md c1 e2 c2 \<Longrightarrow> background p md c (e1 @ e2) c2"
  by (induction rule: background.induct) (auto intro: background.completes)

lemma complete_one:
  assumes "i < length q" and "q ! i = Waiting t" and "never_panics p md t"
  shows "\<exists>res s1. background p md (q, s) [Processed t res] (q[i := Finished (ti_id t) res], s1)"
proof -
  from caught_ok [OF assms(3)] obtain res s1 where "catch_errE (process_task p md t) s = (Inr res, s1)" by blast
  from background.completes [OF assms(1,2) this background.idle] show ?thesis by blast
qed

text \<open>A poll in which everything that runs completes, one entry after the other.\<close>

lemma complete_all:
  assumes "\<forall>t \<in> waiting_tasks q. never_panics p md t"
  shows "\<exists>evs q' s'. background p md (q, s) evs (q', s') \<and> list_all is_finished q' \<and> map running_id q' = map running_id q"
  using assms
proof (induction "length (filter (\<lambda>x. \<not> is_finished x) q)" arbitrary: q s)
  case 0
  then have "list_all is_finished q" by (auto simp: list_all_iff filter_empty_conv)
  then show ?case using background.idle by blast
next
  case (Suc n)
  then obtain x where "x \<in> set q" "\<not> is_finished x" by (metis filter_False length_0_conv nat.distinct(1))
  then obtain i where "i < length q" "q ! i = x" by (auto simp: in_set_conv_nth)
  with \<open>\<not> is_finished x\<close> obtain t where i: "i < length q" "q ! i = Waiting t" by (cases x) auto
  then have "t \<in> waiting_tasks q" by (auto simp: waiting_tasks_def in_set_conv_nth intro: exI [of _ i])
  with Suc.prems complete_one [OF i] obtain res s1 where
    one: "background p md (q, s) [Processed t res] (q[i := Finished (ti_id t) res], s1)" by blast
  let ?q = "q[i := Finished (ti_id t) res]"
  have split: "q = take i q @ Waiting t # drop (Suc i) q" "?q = take i q @ Finished (ti_id t) res # drop (Suc i) q"
    using i id_take_nth_drop [of i q] by (simp_all add: upd_conv_take_nth_drop)
  have "n = length (filter (\<lambda>x. \<not> is_finished x) ?q)"
    using Suc.hyps(2) by (subst split(2), subst (asm) split(1)) simp
  moreover have "\<forall>t \<in> waiting_tasks ?q. never_panics p md t"
    using Suc.prems set_update_subset_insert [of q i "Finished (ti_id t) res"] by (auto simp: waiting_tasks_def)
  ultimately obtain evs q' s' where "background p md (?q, s1) evs (q', s')" "list_all is_finished q'"
    "map running_id q' = map running_id ?q" using Suc.hyps(1) by blast
  moreover have "map running_id ?q = map running_id q" using i by (simp add: map_update list_update_same_conv)
  ultimately show ?case using background_trans [OF one] by metis
qed

context looping_pusher
begin

lemma drain_queue:
  assumes "list_all is_finished q" and "writable st valid" and "valid (task_store s)" and "rx = Ended # ps"
  shows "\<exists>evs s'. loop_run p md st (Running rx q, s) evs (Halted (msg_fault ''fatal error''), s') \<and>
    recorded_ids evs = map running_id q"
  using assms
proof (induction q arbitrary: s)
  case Nil
  have "loop_step p md st (Running rx [], s) (map Received [] @ [] @ []) (Halted (msg_fault ''fatal error''), s)"
    by (rule loop_step.polled [OF _ background.idle]) (simp add: poll_receiver_def Nil.prems(4), simp add: yield_next_def Nil.prems(4))
  from loop_run.step [OF loop_run.start this] show ?case by (intro exI conjI) (assumption, simp)
next
  case (Cons x q)
  then obtain i res where x: "x = Finished i res" by (cases x) auto
  obtain r m where written: "set_latest_task st i (task_store s) = (r, m)" by fastforce
  with Cons.prems(2,3) have "r = Inr ()" and "valid m" unfolding writable_def by (metis fst_conv, metis snd_conv)
  with written obtain s1 where s1: "save_task st i s = (Inr (), s1)" and v: "valid (task_store s1)" by (simp add: save_task_def)
  have "loop_step p md st (Running rx (x # q), s) (map Received [] @ [] @ [Recorded i]) (Running rx q, s1)"
    by (rule loop_step.polled [OF _ background.idle])
      (simp add: poll_receiver_def Cons.prems(4), simp add: yield_next_def x s1 Cons.prems(4))
  note one = loop_run.step [OF loop_run.start this]
  from Cons.IH [OF _ Cons.prems(2) v Cons.prems(4)] Cons.prems(1) obtain evs s' where
    "loop_run p md st (Running rx q, s1) evs (Halted (msg_fault ''fatal error''), s')" "recorded_ids evs = map running_id q"
    by auto
  with loop_run_append [OF this(1) one] x show ?case by (intro exI conjI) (assumption, simp)
qed

text \<open>While the receiver has items, a poll takes one and may complete everything that runs.\<close>

lemma yields_on:
  assumes "list_all is_finished q" and "writable st valid" and "valid (task_store s)" and "q = [] \<longrightarrow> \<not> b"
  shows "\<exists>out q' s'. yield_next st b rx q s = (out, Running rx q', s') \<and> list_all is_finished q' \<and>
    valid (task_store s') \<and> map running_id q = recorded_ids out @ map running_id q'"
proof (cases q)
  case Nil
  with assms(3,4) show ?thesis by (intro exI [of _ "[]"] exI [of _ s]) (simp add: yield_next_def)
next
  case (Cons x rest)
  with assms(1) obtain i res where q: "q = Finished i res # rest" "list_all is_finished rest" by (cases x) auto
  obtain r m where written: "set_latest_task st i (task_store s) = (r, m)" by fastforce
  with assms(2,3) have "r = Inr ()" and "valid m" unfolding writable_def by (metis fst_conv, metis snd_conv)
  with written q show ?thesis
    by (intro exI [of _ "[Recorded i]"] exI [of _ rest] exI [of _ "s\<lparr>task_store := m\<rparr>"])
      (simp add: yield_next_def save_task_def)
qed

lemma one_round:
  assumes "poll_receiver rx q = (got, rx', q1)" and "\<forall>t \<in> waiting_tasks q1. never_panics p md t"
    and "writable st valid" and "valid (task_store s)" and "q1 = [] \<longrightarrow> fst (poll_source rx) \<noteq> Ended"
  shows "\<exists>out q' s'. loop_step p md st (Running rx q, s) out (Running rx' q', s') \<and> list_all is_finished q' \<and>
    valid (task_store s') \<and> map running_id q1 = recorded_ids out @ map running_id q'"
proof -
  from complete_all [OF assms(2)] obtain bg q2 s2 where bg: "background p md (q1, s) bg (q2, s2)"
    and q2: "list_all is_finished q2" "map running_id q2 = map running_id q1" by blast
  from background_store [OF bg] assms(4) have "valid (task_store s2)" by simp
  moreover from q2(2) assms(5) have "q2 = [] \<longrightarrow> fst (poll_source rx) \<noteq> Ended" by (metis map_is_Nil_conv)
  ultimately obtain out q' s' where y: "yield_next st (fst (poll_source rx) = Ended) rx' q2 s2 = (out, Running rx' q', s')"
    and q': "list_all is_finished q'" "valid (task_store s')" "map running_id q2 = recorded_ids out @ map running_id q'"
    using yields_on [OF q2(1) assms(3)] by metis
  from loop_step.polled [OF assms(1) bg y] q' q2(2) background_events [OF bg] show ?thesis
    by (intro exI conjI) (assumption | simp)+
qed

lemma waiting_finished: "list_all is_finished q \<Longrightarrow> waiting_tasks q = {}"
  by (auto simp: waiting_tasks_def list_all_iff)

lemma loop_drains:
  assumes "Ended \<in> set rx" and "writable st valid" and "valid (task_store s)"
    and "\<forall>t \<in> waiting_tasks q \<union> set (handed_over rx). never_panics p md t"
  shows "\<exists>evs s'. loop_run p md st (Running rx q, s) evs (Halted (msg_fault ''fatal error''), s') \<and>
    recorded_ids evs = map running_id q @ map ti_id (handed_over rx)"
  using assms(1,3,4)
proof (induction rx arbitrary: q s)
  case (Cons x rx)
  obtain got rx' q1 where poll: "poll_receiver (x # rx) q = (got, rx', q1)" by (cases "poll_receiver (x # rx) q")
  then have shape: "rx' = (if x = Ended then x # rx else rx)"
    "q1 = (case x of Item t \<Rightarrow> q @ [Waiting t] | _ \<Rightarrow> q)"
    by (cases x; simp add: poll_receiver_def)+
  show ?case
  proof (cases "x = Ended \<and> q = []")
    case True
    then show ?thesis using drain_queue [of "[]" st valid s "x # rx" rx] assms(2) Cons.prems(2) by simp
  next
    case False
    have "\<forall>t \<in> waiting_tasks q1. never_panics p md t"
      using Cons.prems(3) by (cases x) (auto simp: shape waiting_tasks_def)
    moreover have "q1 = [] \<longrightarrow> fst (poll_source (x # rx)) \<noteq> Ended"
      using False by (cases x) (auto simp: shape)
    ultimately obtain out q' s1 where step: "loop_step p md st (Running (x # rx) q, s) out (Running rx' q', s1)"
      and q': "list_all is_finished q'" "valid (task_store s1)" "map running_id q1 = recorded_ids out @ map running_id q'"
      using one_round [OF poll _ assms(2) Cons.prems(2)] by blast
    note one = loop_run.step [OF loop_run.start step]
    have "\<exists>evs s'. loop_run p md st (Running rx' q', s1) evs (Halted (msg_fault ''fatal error''), s') \<and>
      recorded_ids evs = map running_id q' @ map ti_id (handed_over rx')"
    proof (cases "x = Ended")
      case True
      with drain_queue [OF q'(1) assms(2) q'(2), of rx' rx] shape show ?thesis by simp
    next
      case False
      then show ?thesis
        using Cons.IH [of s1 q'] Cons.prems q' waiting_finished [OF q'(1)] shape by (cases x) auto
    qed
    then obtain evs s' where "loop_run p md st (Running rx' q', s1) evs (Halted (msg_fault ''fatal error''), s')"
      "recorded_ids evs = map running_id q' @ map ti_id (handed_over rx')" by blast
    moreover have "map running_id q1 @ map ti_id (handed_over rx') = map running_id q @ map ti_id (handed_over (x # rx))"
      by (cases x) (simp_all add: shape)
    ultimately show ?thesis using loop_run_append [OF _ one] q'(3) by (metis append_assoc trace_append(3) append_Nil)
  qed
qed simp

end

section \<open>A concrete run\<close>

definition gas_node :: "nat node" where
  "gas_node = (easy_node MainNode)\<lparr>n_account := \<lambda>a w. (Inr \<lparr>acc_owner = 14, acc_data = [0, 0, 0, 0, 0]\<rparr>, Suc w)\<rparr>"

abbreviation gas_pusher :: "(nat, (nat, bytes) pusher_world) tx_pusher" where
  "gas_pusher \<equiv> new_pusher sample_config ''solana'' gas_node (easy_node SimNode) counting_runtime
     decimal_sdk sample_gateway sample_codec 1"

definition loop_start :: "(nat, bytes) pusher_world" where
  "loop_start = \<lparr>env = 0, wire = [], published = [], amplifier_open = True, gas_cache = Map.empty,
     task_store = bytes_of default_state\<rparr>"

text \<open>Two tasks that do nothing; the second one completes first.\<close>

definition task7 :: task_item where
  "task7 = \<lparr>ti_id = 7, ti_task = Verify\<rparr>"

definition task8 :: task_item where
  "task8 = \<lparr>ti_id = 8, ti_task = ConstructProof\<rparr>"

definition sample_trace :: "loop_event list" where
  "sample_trace = [Received task7, Received task8, Processed task8 (Inr ()), Processed task7 (Inr ()),
     Recorded 7, Recorded 8]"

lemma save_task_ok:
  assumes "length (task_store s) = state_len"
  shows "\<exists>s'. save_task (memmap_tasks fair_os) i s = (Inr (), s') \<and> length (task_store s') = state_len"
  using from_bytes_total [OF assms]
  by (auto simp: save_task_def memmap_tasks_def storage_defs Let_def fair_os_def os_result_def)

lemma sample_tasks_run:
  "catch_errE (process_task p md task7) s = (Inr (Inr ()), s)" "catch_errE (process_task p md task8) s = (Inr (Inr ()), s)"
  by (simp_all add: task7_def task8_def process_task_def catch_errE_def)

lemma gas_pusher_starts:
  "\<exists>s1. pusher_startup gas_pusher (get_config_metadata gas_pusher) loop_start = (Inr (), s1) \<and>
     task_store s1 = bytes_of default_state"
proof -
  obtain s1 where run: "pusher_startup gas_pusher (get_config_metadata gas_pusher) loop_start = (Inr (), s1)"
    by (auto simp: pusher_startup_def ensure_gas_service_authority_def get_config_metadata_def sample_config_def
        default_gateway_config_def sample_gateway_def gas_node_def main_client_def bindE_def rpc_def call_def
        map_faultE_def ok_or_def update_program_accounts_def)
  with looping.startup_store [OF run] show ?thesis by (simp add: loop_start_def)
qed

lemma sample_loop:
  "\<exists>s'. pusher_process gas_pusher (memmap_tasks fair_os) [Item task7, Item task8, Ended] loop_start sample_trace
     (Halted (msg_fault ''fatal error''), s')"
proof -
  let ?p = gas_pusher and ?md = "get_config_metadata gas_pusher" and ?st = "memmap_tasks fair_os"
  obtain s1 where start: "pusher_startup ?p ?md loop_start = (Inr (), s1)"
    and "length (task_store s1) = state_len" using gas_pusher_starts by auto
  then obtain s2 where s2: "save_task ?st 7 s1 = (Inr (), s2)" and "length (task_store s2) = state_len"
    using save_task_ok by blast
  then obtain s3 where s3: "save_task ?st 8 s2 = (Inr (), s3)" using save_task_ok by blast
  have "loop_step ?p ?md ?st (Running [Item task7, Item task8, Ended] [], s1)
      (map Received [task7] @ [] @ []) (Running [Item task8, Ended] [Waiting task7], s1)"
    by (rule loop_step.polled [OF _ background.idle]) (simp add: poll_receiver_def, simp add: yield_next_def)
  note 1 = loop_run.step [OF loop_run.start this]
  have both: "background ?p ?md ([Waiting task7, Waiting task8], s1) [Processed task8 (Inr ()), Processed task7 (Inr ())]
      ([Finished 7 (Inr ()), Finished 8 (Inr ())], s1)"
    by (rule background.completes [where i = 1, OF _ _ sample_tasks_run(2)], simp, simp,
        rule background.completes [where i = 0, OF _ _ sample_tasks_run(1)])
      (simp_all add: task7_def task8_def background.idle)
  have "loop_step ?p ?md ?st (Running [Item task8, Ended] [Waiting task7], s1)
      (map Received [task8] @ [Processed task8 (Inr ()), Processed task7 (Inr ())] @ [Recorded 7])
      (Running [Ended] [Finished 8 (Inr ())], s2)"
    by (rule loop_step.polled [OF _ both]) (simp add: poll_receiver_def, simp add: yield_next_def s2)
  note 2 = loop_run.step [OF 1 this]
  have "loop_step ?p ?md ?st (Running [Ended] [Finished 8 (Inr ())], s2)
      (map Received [] @ [] @ [Recorded 8]) (Running [Ended] [], s3)"
    by (rule loop_step.polled [OF _ background.idle]) (simp add: poll_receiver_def, simp add: yield_next_def s3)
  note 3 = loop_run.step [OF 2 this]
  have "loop_step ?p ?md ?st (Running [Ended] [], s3) (map Received [] @ [] @ []) (Halted (msg_fault ''fatal error''), s3)"
    by (rule loop_step.polled [OF _ background.idle]) (simp add: poll_receiver_def, simp add: yield_next_def)
  note 4 = loop_run.step [OF 3 this]
  have "sample_trace = ((([] @ map Received [task7] @ [] @ []) @
      map Received [task8] @ [Processed task8 (Inr ()), Processed task7 (Inr ())] @ [Recorded 7]) @
      map Received [] @ [] @ [Recorded 8]) @ map Received [] @ [] @ []"
    by (simp add: sample_trace_def)
  with 4 start show ?thesis unfolding pusher_process_def by auto
qed

section \<open>Properties\<close>

text \<open>
  C10. Task ids are recorded in the order of receipt. Whatever completes when, at every moment of a
  run the recorded ids are those of the first tasks received, each of which has been processed
  before (failures included), and no task is processed twice; the storage holds the last
  recorded id.
\<close>

theorem tasks_recorded_in_order:
  fixes s s' :: "('w, bytes) pusher_world"
  assumes "pusher_process (new_pusher cfg name nd sn rt sdk libs codec fuel) (memmap_tasks os) rx s evs (ph, s')"
    and "length (task_store s) = state_len"
  shows "(\<exists>rest. handed_over rx = received evs @ rest) \<and>
    (\<forall>e1 e2. evs = e1 @ e2 \<longrightarrow> (\<exists>old new. received e1 = old @ new \<and> recorded_ids e1 = map ti_id old \<and>
       mset old \<subseteq># mset (processed e1) \<and> mset (processed e1) \<subseteq># mset (received e1))) \<and>
    latest_processed_task_id (task_store s') =
      (if recorded_ids evs = [] then latest_processed_task_id (task_store s)
       else Inr (as_option (last (recorded_ids evs))))"
proof -
  let ?p = "new_pusher cfg name nd sn rt sdk libs codec fuel :: ('w, ('w, bytes) pusher_world) tx_pusher"
  obtain r s0 where start: "pusher_startup ?p (get_config_metadata ?p) s = (r, s0)" by fastforce
  have store: "task_store s0 = task_store s" by (rule looping.startup_store [OF start])
  show ?thesis
  proof (cases r)
    case (Inl f)
    with assms(1) start store show ?thesis by (simp add: pusher_process_def)
  next
    case (Inr u)
    with assms(1) start have run: "loop_run ?p (get_config_metadata ?p) (memmap_tasks os) (Running rx [], s0) evs (ph, s')"
      by (simp add: pusher_process_def)
    from run_sofar [OF run] obtain q where "queue_trace evs q" and "\<exists>rest. handed_over rx = received evs @ rest"
      by (auto simp: sofar_def)
    moreover have "task_store s' = fold (\<lambda>i m. snd (set_latest_processed_task_id os i m)) (recorded_ids evs) (task_store s)"
      using looping.run_store [OF run] store by (simp add: memmap_tasks_def)
    ultimately show ?thesis
      using last_recorded [OF assms(2), of "recorded_ids evs" os] queue_sound_split by (auto simp del: as_option.simps)
  qed
qed

lemma tasks_recorded_in_order_witness:
  "\<exists>s'. pusher_process gas_pusher (memmap_tasks fair_os) [Item task7, Item task8, Ended] loop_start sample_trace
       (Halted (msg_fault ''fatal error''), s') \<and>
     processed sample_trace = [task8, task7] \<and> latest_processed_task_id (task_store s') = Inr (Some 8)"
proof -
  obtain s' where run: "pusher_process gas_pusher (memmap_tasks fair_os) [Item task7, Item task8, Ended] loop_start
      sample_trace (Halted (msg_fault ''fatal error''), s')"
    using sample_loop by blast
  have "length (task_store loop_start) = state_len" by (simp add: loop_start_def)
  from tasks_recorded_in_order [OF run this] run show ?thesis by (auto simp: sample_trace_def)
qed

text \<open>
  C19. The component never ends because a task failed. It ends when its start-up checks fail; when
  the receiver has ended, and then every task handed over was processed once and recorded; when
  a write to the storage fails; or when the processing of a received task panics.
\<close>

theorem task_loop_ends:
  fixes s s' :: "('w, bytes) pusher_world"
  assumes "pusher_process (new_pusher cfg name nd sn rt sdk libs codec fuel) (memmap_tasks os) rx s evs (Halted f, s')"
  shows "let p = new_pusher cfg name nd sn rt sdk libs codec fuel; md = get_config_metadata p in
    (fst (pusher_startup p md s) = Inl f \<and> evs = [])
    \<or> (f = msg_fault ''fatal error'' \<and> Ended \<in> set rx \<and> recorded_ids evs = map ti_id (handed_over rx) \<and>
        mset (processed evs) = mset (handed_over rx))
    \<or> (\<exists>i m. i \<in> set (recorded_ids evs) \<and> fst (set_latest_processed_task_id os i m) = Inl f)
    \<or> (\<exists>task (s1 :: ('w, bytes) pusher_world). task \<in> set (received evs) \<and>
        fst (process_task p md task s1) = Inl f \<and> f \<notin> range Err)"
proof -
  let ?p = "new_pusher cfg name nd sn rt sdk libs codec fuel :: ('w, ('w, bytes) pusher_world) tx_pusher"
  obtain r s0 where start: "pusher_startup ?p (get_config_metadata ?p) s = (r, s0)" by fastforce
  show ?thesis
  proof (cases r)
    case (Inl g)
    with assms start show ?thesis by (simp add: pusher_process_def Let_def)
  next
    case (Inr u)
    with assms start have "loop_run ?p (get_config_metadata ?p) (memmap_tasks os) (Running rx [], s0) evs (Halted f, s')"
      by (simp add: pusher_process_def)
    from run_halts [OF this] show ?thesis
      using drained_all [of rx evs] by (simp add: Let_def memmap_tasks_def drained_def) blast
  qed
qed

lemma task_loop_ends_witness:
  "\<exists>s'. pusher_process gas_pusher (memmap_tasks fair_os) [Item task7, Item task8, Ended] loop_start sample_trace
       (Halted (msg_fault ''fatal error''), s') \<and> mset (processed sample_trace) = {#task7, task8#}"
proof -
  obtain s' where run: "pusher_process gas_pusher (memmap_tasks fair_os) [Item task7, Item task8, Ended] loop_start
      sample_trace (Halted (msg_fault ''fatal error''), s')"
    using sample_loop by blast
  from task_loop_ends [OF run] have "mset (processed sample_trace) = {#task7, task8#}"
    using gas_pusher_starts by (auto simp: Let_def sample_trace_def)
  with run show ?thesis by blast
qed

lemma entries_of:
  assumes "list_all2 entry_of ts q"
  shows "map running_id q = map ti_id ts \<and> waiting_tasks q \<subseteq> set ts"
  using assms
proof (induction rule: list_all2_induct)
  case (Cons t ts x q)
  then show ?case by (cases x) (auto simp: waiting_tasks_def)
qed (simp add: waiting_tasks_def)

lemma writable_memmap:
  assumes "\<forall>bs. os_flush os bs = None"
  shows "writable (memmap_tasks os) (\<lambda>bs. length bs = state_len)"
  unfolding writable_def memmap_tasks_def
  using assms from_bytes_total by (fastforce simp: storage_defs Let_def os_result_def)

text \<open>
  C20. The task processor never gets stuck. Wherever a run has come to, as long as the loop has
  not ended, the run can go on to the end of the receiver's tasks with every one of them recorded,
  in the order of receipt, provided that the file can be written and that no task panics.
\<close>

theorem task_loop_never_stuck:
  fixes s s1 :: "('w, bytes) pusher_world"
  assumes "pusher_process (new_pusher cfg name nd sn rt sdk libs codec fuel) (memmap_tasks os) rx s evs (Running rx1 q, s1)"
    and "length (task_store s) = state_len" and "Ended \<in> set rx" and "\<forall>bs. os_flush os bs = None"
    and "let p = new_pusher cfg name nd sn rt sdk libs codec fuel in
      \<forall>t \<in> set (handed_over rx). never_panics (p :: ('w, ('w, bytes) pusher_world) tx_pusher) (get_config_metadata p) t"
  shows "\<exists>evs' s'. pusher_process (new_pusher cfg name nd sn rt sdk libs codec fuel) (memmap_tasks os) rx s (evs @ evs')
      (Halted (msg_fault ''fatal error''), s') \<and>
    recorded_ids (evs @ evs') = map ti_id (handed_over rx)"
proof -
  let ?p = "new_pusher cfg name nd sn rt sdk libs codec fuel :: ('w, ('w, bytes) pusher_world) tx_pusher"
  from assms(1) obtain s0 where start: "pusher_startup ?p (get_config_metadata ?p) s = (Inr (), s0)"
    and run: "loop_run ?p (get_config_metadata ?p) (memmap_tasks os) (Running rx [], s0) evs (Running rx1 q, s1)"
    by (auto simp: pusher_process_def split: prod.splits sum.splits)
  from run_sofar [OF run] have trace: "queue_trace evs q" and rx: "handed_over rx = received evs @ handed_over rx1"
    and "Ended \<in> set rx1" using assms(3) by (auto simp: sofar_def)
  from queue_trace_sound [OF trace] obtain old new where
    sound: "received evs = old @ new" "recorded_ids evs = map ti_id old" "list_all2 entry_of new q"
    by (auto simp: queue_sound_def)
  have "task_store s0 = task_store s" by (rule looping.startup_store [OF start])
  with looping.run_store [OF run] assms(2) processed.valid_sets have "length (task_store s1) = state_len"
    by (metis memmap_tasks_def run_list_fold task_state.select_convs(2))
  moreover have "\<forall>t \<in> waiting_tasks q \<union> set (handed_over rx1). never_panics ?p (get_config_metadata ?p) t"
    using assms(5) entries_of [OF sound(3)] sound(1) rx by (auto simp: Let_def)
  ultimately obtain evs' s' where rest: "loop_run ?p (get_config_metadata ?p) (memmap_tasks os) (Running rx1 q, s1) evs'
      (Halted (msg_fault ''fatal error''), s')" "recorded_ids evs' = map running_id q @ map ti_id (handed_over rx1)"
    using looping.loop_drains [OF \<open>Ended \<in> set rx1\<close> writable_memmap [OF assms(4)]] by blast
  with loop_run_append [OF rest(1) run] start entries_of [OF sound(3)] sound rx show ?thesis
    by (intro exI [of _ evs'] exI [of _ s']) (simp add: pusher_process_def)
qed

lemma task_loop_never_stuck_witness:
  "\<exists>evs s'. pusher_process gas_pusher (memmap_tasks fair_os) [Item task7, Pending, Item task8, Ended] loop_start evs
      (Halted (msg_fault ''fatal error''), s') \<and> recorded_ids evs = [7, 8]"
proof -
  obtain s1 where "pusher_startup gas_pusher (get_config_metadata gas_pusher) loop_start = (Inr (), s1)"
    using gas_pusher_starts by blast
  then have "pusher_process gas_pusher (memmap_tasks fair_os) [Item task7, Pending, Item task8, Ended] loop_start []
      (Running [Item task7, Pending, Item task8, Ended] [], s1)"
    by (simp add: pusher_process_def loop_run.start)
  moreover have "length (task_store loop_start) = state_len" by (simp add: loop_start_def)
  moreover have "let p = gas_pusher in \<forall>t \<in> set (handed_over [Item task7, Pending, Item task8, Ended]).
      never_panics p (get_config_metadata p) t"
    by (simp add: Let_def never_panics_def process_task_def task7_def task8_def)
  ultimately show ?thesis
    using task_loop_never_stuck [of sample_config "''solana''" gas_node "easy_node SimNode" counting_runtime decimal_sdk
        sample_gateway sample_codec 1 fair_os "[Item task7, Pending, Item task8, Ended]" loop_start "[]"]
    by (fastforce simp: fair_os_def task7_def task8_def)
qed

end
