(* ===== verification/EventForwarder.thy ===== *)
theory EventForwarder
  imports GasComputation Amplifier
begin

text \<open>
  \<open>crates/solana-event-forwarder\<close> (\<open>component.rs\<close>, \<open>utils.rs\<close>): a transaction received from
  the listener is parsed into events by a third-party parser, the events are converted one by
  one to Amplifier API events, the cost of the transaction is divided among them, and they are
  published as one command. Base64, RFC 3339, the decimal parser of 512-bit integers (which
  panics on bad input), the rendering of keys and the event parser are third-party code and
  parameters of the model.
\<close>

section \<open>Data\<close>

record core_metadata =
  cm_tx_id :: "string option"
  cm_from_address :: "string option"
  cm_finalized :: "bool option"
  cm_timestamp :: string

record 'm core_common =
  cc_event_id :: string
  cc_meta :: "'m option"

record approved_metadata =
  am_common :: core_metadata
  am_command_id :: "string option"

record executed_metadata =
  xm_common :: core_metadata
  xm_command_id :: "string option"
  xm_children :: "string list option"

record rotated_metadata =
  rm_common :: core_metadata
  rm_signers_hash :: "string option"
  rm_epoch :: "u64 option"

record core_amount =
  ca_token_id :: "string option"
  ca_amount :: string

datatype core_event =
    CoreCall "core_metadata core_common" "string gateway_message" string string
  | CoreGasCredit "core_metadata core_common" string string core_amount
  | CoreGasRefunded "core_metadata core_common" string string core_amount core_amount
  | CoreMessageApproved "approved_metadata core_common" "string gateway_message" core_amount
  | CoreMessageExecuted "executed_metadata core_common" string string execution_status core_amount
  | CoreSignersRotated "rotated_metadata core_common" string
  | CoreITSInterchainTransfer "core_metadata core_common" string string core_amount string string string
  | CoreITSTokenMetadataRegistered "core_metadata core_common" string string u8
  | CoreITSLinkTokenStarted "core_metadata core_common" string string string string string token_manager_type
  | CoreITSInterchainTokenDeploymentStarted "core_metadata core_common" string string token_definition
  | CoreCannotExecuteMessageV2 "core_metadata core_common"

record parser_transaction =
  pt_signature :: signature
  pt_timestamp :: "timestamp option"
  pt_logs :: "string list"
  pt_slot :: int
  pt_cost_units :: u64
  pt_account_keys :: "string list"
  pt_ixs :: "inner_ixs list"

record forward_libs =
  b64_decode :: "string \<Rightarrow> bytes option"
  parse_rfc3339 :: "string \<Rightarrow> timestamp option"
  parse_i512 :: "string \<Rightarrow> int option"
  show_pubkey :: "pubkey \<Rightarrow> string"
  parse_events :: "string \<Rightarrow> pubkey \<Rightarrow> pubkey \<Rightarrow> parser_transaction \<Rightarrow> eyre + core_event list"

section \<open>Conversions\<close>

definition convert_to_parser_transaction :: "forward_libs \<Rightarrow> solana_tx \<Rightarrow> parser_transaction" where
  "convert_to_parser_transaction libs tx =
     \<lparr>pt_signature = lt_signature tx, pt_timestamp = lt_timestamp tx, pt_logs = lt_logs tx,
      pt_slot = sint (lt_slot tx), pt_cost_units = lt_cost tx,
      pt_account_keys = map (show_pubkey libs) (lt_account_keys tx), pt_ixs = lt_inner_ixs tx\<rparr>"

definition token_from_amount :: "forward_libs \<Rightarrow> core_amount \<Rightarrow> fault + token" where
  "token_from_amount libs a =
     (case parse_i512 libs (ca_amount a) of
        None \<Rightarrow> Inl (Panic ''attempt to parse integer from string containing invalid digit'')
      | Some n \<Rightarrow> Inr \<lparr>tk_token_id = ca_token_id a, tk_amount = n\<rparr>)"

definition convert_event_metadata ::
  "forward_libs \<Rightarrow> 'x \<Rightarrow> core_metadata option \<Rightarrow> 'x event_metadata option" where
  "convert_event_metadata libs extra = map_option (\<lambda>m.
     \<lparr>em_tx_id = cm_tx_id m, em_timestamp = parse_rfc3339 libs (cm_timestamp m),
      em_from_address = cm_from_address m, em_finalized = cm_finalized m, em_extra = extra\<rparr>)"

definition convert_base_meta :: "forward_libs \<Rightarrow> string \<Rightarrow> core_metadata option \<Rightarrow> unit event_base" where
  "convert_base_meta libs event_id meta =
     \<lparr>eb_event_id = event_id, eb_meta = convert_event_metadata libs () meta\<rparr>"

definition convert_gateway_message ::
  "forward_libs \<Rightarrow> string gateway_message \<Rightarrow> bytes gateway_message option" where
  "convert_gateway_message libs msg =
     (case b64_decode libs (gm_payload_hash msg) of
        None \<Rightarrow> None
      | Some hash \<Rightarrow> Some
          \<lparr>gm_message_id = gm_message_id msg, gm_source_chain = gm_source_chain msg,
           gm_source_address = gm_source_address msg,
           gm_destination_address = gm_destination_address msg, gm_payload_hash = hash\<rparr>)"

definition convert_call ::
  "forward_libs \<Rightarrow> core_metadata core_common \<Rightarrow> string gateway_message \<Rightarrow> string \<Rightarrow> string
     \<Rightarrow> amp_event option" where
  "convert_call libs common message destination_chain payload_b64 =
     (case b64_decode libs payload_b64 of
        None \<Rightarrow> None
      | Some payload \<Rightarrow>
          (case convert_gateway_message libs message of
             None \<Rightarrow> None
           | Some msg \<Rightarrow> Some (AmpCall
               \<lparr>eb_event_id = cc_event_id common,
                eb_meta = convert_event_metadata libs None (cc_meta common)\<rparr>
               msg destination_chain payload)))"

definition convert_message_approved ::
  "forward_libs \<Rightarrow> approved_metadata core_common \<Rightarrow> string gateway_message \<Rightarrow> core_amount
     \<Rightarrow> fault + amp_event option" where
  "convert_message_approved libs common message cost =
     (let (meta_common, command_id) =
        (case cc_meta common of Some m \<Rightarrow> (Some (am_common m), am_command_id m) | None \<Rightarrow> (None, None))
      in case convert_gateway_message libs message of
           None \<Rightarrow> Inr None
         | Some msg \<Rightarrow>
             (case token_from_amount libs cost of
                Inl e \<Rightarrow> Inl e
              | Inr c \<Rightarrow> Inr (Some (AmpMessageApproved
                  \<lparr>eb_event_id = cc_event_id common,
                   eb_meta = convert_event_metadata libs command_id meta_common\<rparr> msg c))))"

definition convert_message_executed ::
  "forward_libs \<Rightarrow> executed_metadata core_common \<Rightarrow> string \<Rightarrow> string \<Rightarrow> execution_status \<Rightarrow> core_amount
     \<Rightarrow> fault + amp_event" where
  "convert_message_executed libs common message_id source_chain status cost =
     (let (meta_common, command_id, children) =
        (case cc_meta common of
           Some m \<Rightarrow> (Some (xm_common m), xm_command_id m, xm_children m)
         | None \<Rightarrow> (None, None, None))
      in case token_from_amount libs cost of
           Inl e \<Rightarrow> Inl e
         | Inr c \<Rightarrow> Inr (AmpMessageExecuted
             \<lparr>eb_event_id = cc_event_id common,
              eb_meta = convert_event_metadata libs
                \<lparr>xe_command_id = command_id, xe_children = children\<rparr> meta_common\<rparr>
             message_id source_chain
             (case status of SUCCESSFUL \<Rightarrow> SUCCESSFUL | REVERTED \<Rightarrow> REVERTED) c))"

definition convert_signers_rotated ::
  "forward_libs \<Rightarrow> rotated_metadata core_common \<Rightarrow> string \<Rightarrow> amp_event option" where
  "convert_signers_rotated libs common message_id =
     (let (meta_common, signers_hash, epoch) =
        (case cc_meta common of
           Some m \<Rightarrow> (Some (rm_common m), rm_signers_hash m, rm_epoch m)
         | None \<Rightarrow> (None, None, None))
      in case signers_hash of
           None \<Rightarrow> None
         | Some hash_b64 \<Rightarrow>
             (case b64_decode libs hash_b64 of
                None \<Rightarrow> None
              | Some hash \<Rightarrow>
                  (case epoch of
                     None \<Rightarrow> None
                   | Some e \<Rightarrow> Some (AmpSignersRotated
                       \<lparr>eb_event_id = cc_event_id common,
                        eb_meta = convert_event_metadata libs
                          \<lparr>re_signer_hash = hash, re_epoch = e\<rparr> meta_common\<rparr> message_id))))"

definition convert_its_interchain_transfer ::
  "forward_libs \<Rightarrow> core_metadata core_common \<Rightarrow> string \<Rightarrow> string \<Rightarrow> core_amount \<Rightarrow> string \<Rightarrow> string \<Rightarrow> string
     \<Rightarrow> fault + amp_event option" where
  "convert_its_interchain_transfer libs common message_id destination_chain spent source_address
       destination_address data_hash =
     (case ca_token_id spent of
        None \<Rightarrow> Inr None
      | Some token_id \<Rightarrow>
          (case token_from_amount libs spent of
             Inl e \<Rightarrow> Inl e
           | Inr t \<Rightarrow> Inr (Some (AmpItsInterchainTransfer
               (convert_base_meta libs (cc_event_id common) (cc_meta common)) message_id destination_chain
               token_id (tk_amount t) source_address destination_address data_hash))))"

definition convert_its_token_metadata_registered ::
  "forward_libs \<Rightarrow> core_metadata core_common \<Rightarrow> string \<Rightarrow> string \<Rightarrow> u8 \<Rightarrow> amp_event" where
  "convert_its_token_metadata_registered libs common message_id address decimals =
     AmpItsTokenMetadataRegistered (convert_base_meta libs (cc_event_id common) (cc_meta common))
       message_id address decimals"

definition convert_token_manager_type :: "token_manager_type \<Rightarrow> token_manager_type" where
  "convert_token_manager_type t =
     (case t of
        NativeInterchainToken \<Rightarrow> NativeInterchainToken
      | MintBurnFrom \<Rightarrow> MintBurnFrom
      | LockUnlock \<Rightarrow> LockUnlock
      | LockUnlockFee \<Rightarrow> LockUnlockFee
      | MintBurn \<Rightarrow> MintBurn)"

definition convert_its_link_token_started ::
  "forward_libs \<Rightarrow> core_metadata core_common \<Rightarrow> string \<Rightarrow> string \<Rightarrow> string \<Rightarrow> string \<Rightarrow> string
     \<Rightarrow> token_manager_type \<Rightarrow> amp_event" where
  "convert_its_link_token_started libs common message_id token_id destination_chain source_token
       destination_token manager =
     AmpItsLinkTokenStarted (convert_base_meta libs (cc_event_id common) (cc_meta common))
       message_id token_id destination_chain source_token destination_token
       (convert_token_manager_type manager)"

definition convert_its_interchain_token_deployment_started ::
  "forward_libs \<Rightarrow> core_metadata core_common \<Rightarrow> string \<Rightarrow> string \<Rightarrow> token_definition \<Rightarrow> amp_event" where
  "convert_its_interchain_token_deployment_started libs common message_id destination_chain tok =
     AmpItsInterchainTokenDeploymentStarted
       (convert_base_meta libs (cc_event_id common) (cc_meta common)) message_id destination_chain
       \<lparr>td_id = td_id tok, td_name = td_name tok, td_symbol = td_symbol tok, td_decimals = td_decimals tok\<rparr>"

definition mapR :: "('a \<Rightarrow> 'b) \<Rightarrow> 'f + 'a \<Rightarrow> 'f + 'b" where
  "mapR f r = (case r of Inl e \<Rightarrow> Inl e | Inr x \<Rightarrow> Inr (f x))"

fun convert_core_event_to_amp ::
  "forward_libs \<Rightarrow> u64 \<Rightarrow> core_event \<Rightarrow> fault + amp_event option" where
  "convert_core_event_to_amp libs adj (CoreCall common message destination_chain payload) =
     Inr (convert_call libs common message destination_chain payload)"
| "convert_core_event_to_amp libs adj (CoreGasCredit common message_id refund_address payment) =
     mapR (\<lambda>t. Some (AmpGasCredit (convert_base_meta libs (cc_event_id common) (cc_meta common))
       message_id refund_address t)) (token_from_amount libs payment)"
| "convert_core_event_to_amp libs adj (CoreGasRefunded common message_id recipient refunded cost) =
     (case token_from_amount libs refunded of
        Inl e \<Rightarrow> Inl e
      | Inr r \<Rightarrow> mapR (\<lambda>c. Some (AmpGasRefunded
          (convert_base_meta libs (cc_event_id common) (cc_meta common)) message_id recipient r c))
          (token_from_amount libs (cost\<lparr>ca_amount := show_u64 adj\<rparr>)))"
| "convert_core_event_to_amp libs adj (CoreMessageApproved common message cost) =
     convert_message_approved libs common message (cost\<lparr>ca_amount := show_u64 adj\<rparr>)"
| "convert_core_event_to_amp libs adj (CoreMessageExecuted common message_id source_chain status cost) =
     mapR Some (convert_message_executed libs common message_id source_chain status
       (cost\<lparr>ca_amount := show_u64 adj\<rparr>))"
| "convert_core_event_to_amp libs adj (CoreSignersRotated common message_id) =
     Inr (convert_signers_rotated libs common message_id)"
| "convert_core_event_to_amp libs adj (CoreITSInterchainTransfer common message_id destination_chain
       spent source_address destination_address data_hash) =
     convert_its_interchain_transfer libs common message_id destination_chain spent source_address
       destination_address data_hash"
| "convert_core_event_to_amp libs adj (CoreITSTokenMetadataRegistered common message_id address decimals) =
     Inr (Some (convert_its_token_metadata_registered libs common message_id address decimals))"
| "convert_core_event_to_amp libs adj (CoreITSLinkTokenStarted common message_id token_id
       destination_chain source_token destination_token manager) =
     Inr (Some (convert_its_link_token_started libs common message_id token_id destination_chain
       source_token destination_token manager))"
| "convert_core_event_to_amp libs adj (CoreITSInterchainTokenDeploymentStarted common message_id
       destination_chain tok) =
     Inr (Some (convert_its_interchain_token_deployment_started libs common message_id
       destination_chain tok))"
| "convert_core_event_to_amp libs adj (CoreCannotExecuteMessageV2 common) = Inr None"

definition map_core_events_to_amplifier ::
  "forward_libs \<Rightarrow> core_event list \<Rightarrow> u64 \<Rightarrow> fault + amp_event list" where
  "map_core_events_to_amplifier libs events total_cost =
     (case u64_of_len (length events) of
        None \<Rightarrow> Inl (Panic ''number of events should fit into u64'')
      | Some n \<Rightarrow>
          mapR (List.map_filter id)
            (traverse (convert_core_event_to_amp libs (div_or_zero total_cost n)) events))"

section \<open>The component\<close>

record forwarder_config =
  fc_source_chain_name :: string
  fc_gateway :: pubkey
  fc_gas_service :: pubkey
  fc_commitment :: commitment

definition new_forwarder_config ::
  "pubkey \<Rightarrow> commitment \<Rightarrow> pubkey \<Rightarrow> string \<Rightarrow> forwarder_config" where
  "new_forwarder_config listener_gateway listener_commitment gas_service chain =
     \<lparr>fc_source_chain_name = chain, fc_gateway = listener_gateway, fc_gas_service = gas_service,
      fc_commitment = listener_commitment\<rparr>"

text \<open>One message of the listener; \<open>gas\<close> is \<open>compute_total_gas\<close> of the configured gateway.\<close>

definition forward_one ::
  "forward_libs \<Rightarrow> forwarder_config \<Rightarrow> (solana_tx \<Rightarrow> (fault, ('w, 'z) amplifier_world_scheme, u64) io)
     \<Rightarrow> solana_tx \<Rightarrow> (fault, ('w, 'z) amplifier_world_scheme, unit) io" where
  "forward_one libs cfg gas message =
     bindE (gas message) (\<lambda>total_cost.
     let tx = convert_to_parser_transaction libs message in
     bindE (liftE (case parse_events libs (fc_source_chain_name cfg) (fc_gas_service cfg) (fc_gateway cfg) tx of
                     Inl e \<Rightarrow> Inl (Err e) | Inr es \<Rightarrow> Inr es)) (\<lambda>events.
     bindE (liftE (map_core_events_to_amplifier libs events total_cost)) publish))"

text \<open>The loop ends with an error when the listener's channel is closed and used up.\<close>

definition forward_all ::
  "forward_libs \<Rightarrow> forwarder_config \<Rightarrow> (solana_tx \<Rightarrow> (fault, ('w, 'z) amplifier_world_scheme, u64) io)
     \<Rightarrow> solana_tx list \<Rightarrow> (fault, ('w, 'z) amplifier_world_scheme, unit) io" where
  "forward_all libs cfg gas messages =
     bindE (foldE (\<lambda>message _. forward_one libs cfg gas message) messages ())
       (\<lambda>_. failE (msg_fault ''Listener has stopped unexpectedly''))"

section \<open>Conversion of events\<close>

fun core_event_id :: "core_event \<Rightarrow> string" where
  "core_event_id (CoreCall c _ _ _) = cc_event_id c"
| "core_event_id (CoreGasCredit c _ _ _) = cc_event_id c"
| "core_event_id (CoreGasRefunded c _ _ _ _) = cc_event_id c"
| "core_event_id (CoreMessageApproved c _ _) = cc_event_id c"
| "core_event_id (CoreMessageExecuted c _ _ _ _) = cc_event_id c"
| "core_event_id (CoreSignersRotated c _) = cc_event_id c"
| "core_event_id (CoreITSInterchainTransfer c _ _ _ _ _ _) = cc_event_id c"
| "core_event_id (CoreITSTokenMetadataRegistered c _ _ _) = cc_event_id c"
| "core_event_id (CoreITSLinkTokenStarted c _ _ _ _ _ _) = cc_event_id c"
| "core_event_id (CoreITSInterchainTokenDeploymentStarted c _ _ _) = cc_event_id c"
| "core_event_id (CoreCannotExecuteMessageV2 c) = cc_event_id c"

fun amp_event_id :: "amp_event \<Rightarrow> string" where
  "amp_event_id (AmpCall b _ _ _) = eb_event_id b"
| "amp_event_id (AmpGasCredit b _ _ _) = eb_event_id b"
| "amp_event_id (AmpGasRefunded b _ _ _ _) = eb_event_id b"
| "amp_event_id (AmpMessageApproved b _ _) = eb_event_id b"
| "amp_event_id (AmpMessageExecuted b _ _ _ _) = eb_event_id b"
| "amp_event_id (AmpSignersRotated b _) = eb_event_id b"
| "amp_event_id (AmpItsInterchainTransfer b _ _ _ _ _ _ _) = eb_event_id b"
| "amp_event_id (AmpItsTokenMetadataRegistered b _ _ _) = eb_event_id b"
| "amp_event_id (AmpItsLinkTokenStarted b _ _ _ _ _ _) = eb_event_id b"
| "amp_event_id (AmpItsInterchainTokenDeploymentStarted b _ _ _) = eb_event_id b"
| "amp_event_id (AmpCannotExecuteMessageV2 b _ _ _ _) = eb_event_id b"

text \<open>The cost an event reports to the Amplifier, for the kinds that report one.\<close>

fun amp_cost :: "amp_event \<Rightarrow> int" where
  "amp_cost (AmpGasRefunded _ _ _ _ c) = tk_amount c"
| "amp_cost (AmpMessageApproved _ _ c) = tk_amount c"
| "amp_cost (AmpMessageExecuted _ _ _ _ c) = tk_amount c"
| "amp_cost _ = 0"

text \<open>Which events survive the conversion.\<close>

fun kept :: "forward_libs \<Rightarrow> core_event \<Rightarrow> bool" where
  "kept libs (CoreCall c m d p) = (b64_decode libs p \<noteq> None \<and> b64_decode libs (gm_payload_hash m) \<noteq> None)"
| "kept libs (CoreMessageApproved c m a) = (b64_decode libs (gm_payload_hash m) \<noteq> None)"
| "kept libs (CoreSignersRotated c i) =
     (case cc_meta c of None \<Rightarrow> False
      | Some m \<Rightarrow> Option.bind (rm_signers_hash m) (b64_decode libs) \<noteq> None \<and> rm_epoch m \<noteq> None)"
| "kept libs (CoreITSInterchainTransfer c i d sp sa da h) = (ca_token_id sp \<noteq> None)"
| "kept libs (CoreCannotExecuteMessageV2 c) = False"
| "kept libs _ = True"

lemma mapR_simps [simp]: "mapR f (Inl e) = Inl e" "mapR f (Inr x) = Inr (f x)"
  by (simp_all add: mapR_def)

lemma mapR_Inr_iff: "mapR f r = Inr y \<longleftrightarrow> (\<exists>x. r = Inr x \<and> y = f x)"
  by (cases r) auto

lemma token_Inr_iff:
  "token_from_amount libs a = Inr t \<longleftrightarrow>
     (\<exists>n. parse_i512 libs (ca_amount a) = Some n \<and> t = \<lparr>tk_token_id = ca_token_id a, tk_amount = n\<rparr>)"
  by (auto simp: token_from_amount_def split: option.splits)

lemma convert_event:
  assumes "convert_core_event_to_amp libs adj e = Inr r"
  shows "(r \<noteq> None) = kept libs e \<and> (\<forall>a. r = Some a \<longrightarrow> amp_event_id a = core_event_id e \<and>
     (amp_cost a = 0 \<or> parse_i512 libs (show_u64 adj) = Some (amp_cost a)))"
proof (cases e)
  case (CoreCall c m d p)
  with assms show ?thesis
    by (auto simp: convert_call_def convert_gateway_message_def split: option.splits)
next
  case (CoreGasCredit c i a p)
  with assms show ?thesis by (auto simp: mapR_Inr_iff convert_base_meta_def)
next
  case (CoreGasRefunded c i a rf co)
  with assms show ?thesis
    by (auto simp: mapR_Inr_iff token_Inr_iff convert_base_meta_def split: sum.splits)
next
  case (CoreMessageApproved c m co)
  obtain mc cid where mc: "(case cc_meta c of Some m \<Rightarrow> (Some (am_common m), am_command_id m) | None \<Rightarrow> (None, None)) = (mc, cid)"
    by fastforce
  from assms CoreMessageApproved show ?thesis
    by (auto simp: convert_message_approved_def mc convert_gateway_message_def token_Inr_iff
        split: option.splits sum.splits)
next
  case (CoreMessageExecuted c i sc st co)
  obtain mc cid ch where mc: "(case cc_meta c of Some m \<Rightarrow> (Some (xm_common m), xm_command_id m, xm_children m)
      | None \<Rightarrow> (None, None, None)) = (mc, cid, ch)" by (rule prod_cases3)
  from assms CoreMessageExecuted show ?thesis
    by (auto simp: convert_message_executed_def mc mapR_Inr_iff token_Inr_iff split: sum.splits)
next
  case (CoreSignersRotated c i)
  with assms show ?thesis
    by (cases "cc_meta c") (auto simp: convert_signers_rotated_def split: option.splits)
next
  case (CoreITSInterchainTransfer c i d sp sa da h)
  with assms show ?thesis
    by (auto simp: convert_its_interchain_transfer_def convert_base_meta_def split: option.splits sum.splits)
next
  case (CoreITSTokenMetadataRegistered c i a d)
  with assms show ?thesis
    by (auto simp: convert_its_token_metadata_registered_def convert_base_meta_def)
next
  case (CoreITSLinkTokenStarted c i t d st dt m)
  with assms show ?thesis by (auto simp: convert_its_link_token_started_def convert_base_meta_def)
next
  case (CoreITSInterchainTokenDeploymentStarted c i d t)
  with assms show ?thesis
    by (auto simp: convert_its_interchain_token_deployment_started_def convert_base_meta_def)
next
  case (CoreCannotExecuteMessageV2 c)
  with assms show ?thesis by auto
qed

lemma map_events:
  assumes "map_core_events_to_amplifier libs events total_cost = Inr amps"
  shows "map amp_event_id amps = map core_event_id (filter (kept libs) events) \<and>
     length events < 2 ^ 64 \<and>
     (\<forall>a \<in> set amps. amp_cost a = 0 \<or>
        parse_i512 libs (show_u64 (div_or_zero total_cost (of_nat (length events)))) = Some (amp_cost a))"
proof -
  define adj where "adj = div_or_zero total_cost (of_nat (length events))"
  from assms have len: "length events < 2 ^ 64"
    by (auto simp: map_core_events_to_amplifier_def u64_of_len_def split: if_splits)
  with assms obtain rs where rs: "traverse (convert_core_event_to_amp libs adj) events = Inr rs"
    and amps: "amps = List.map_filter id rs"
    by (auto simp: map_core_events_to_amplifier_def adj_def mapR_Inr_iff)
  from rs have "list_all2 (\<lambda>e r. convert_core_event_to_amp libs adj e = Inr r) events rs"
    by (simp add: traverse_ok_iff)
  then have "map amp_event_id (List.map_filter id rs) = map core_event_id (filter (kept libs) events) \<and>
     (\<forall>a \<in> set (List.map_filter id rs). amp_cost a = 0 \<or> parse_i512 libs (show_u64 adj) = Some (amp_cost a))"
  proof (induction rule: list_all2_induct)
    case (Cons e es r rs)
    from convert_event [OF Cons(1)] Cons(3) show ?case
      by (cases r) (auto simp: List.map_filter_simps)
  qed (simp add: List.map_filter_simps)
  with amps len show ?thesis by (simp add: adj_def)
qed

lemma sum_bounded: "(\<And>x. x \<in> set xs \<Longrightarrow> f x \<le> (c :: int)) \<Longrightarrow> 0 \<le> c \<Longrightarrow> sum_list (map f xs) \<le> int (length xs) * c"
proof (induction xs)
  case (Cons x xs)
  then have "f x \<le> c" "sum_list (map f xs) \<le> int (length xs) * c" by auto
  then show ?case by (simp add: algebra_simps)
qed simp

lemma map_costs:
  assumes "map_core_events_to_amplifier libs events total_cost = Inr amps"
    and dec: "\<And>n. parse_i512 libs (show_u64 n) = Some (uint n)"
  shows "sum_list (map amp_cost amps) \<le> uint total_cost \<and>
     (\<forall>a \<in> set amps. amp_cost a \<in> {0, uint total_cost div int (length events)})"
proof -
  from map_events [OF assms(1)] have len: "length events < 2 ^ 64"
    and ids: "map amp_event_id amps = map core_event_id (filter (kept libs) events)" by auto
  define c where "c = uint total_cost div int (length events)"
  have "unat (of_nat (length events) :: u64) = length events" using len by (simp add: unat_of_nat)
  then have "int (unat (div_or_zero total_cost (of_nat (length events)))) = int (unat total_cost) div int (length events)"
    by (simp only: unat_div_or_zero zdiv_int)
  then have "uint (div_or_zero total_cost (of_nat (length events))) = c" by (simp add: c_def)
  with map_events [OF assms(1)] dec have costs: "\<forall>a \<in> set amps. amp_cost a \<in> {0, c}" by auto
  have c0: "0 \<le> c" by (simp add: c_def pos_imp_zdiv_nonneg_iff div_int_pos_iff)
  have "sum_list (map amp_cost amps) \<le> int (length amps) * c"
    by (rule sum_bounded) (use costs c0 in auto)
  also have "\<dots> \<le> int (length events) * c"
  proof -
    from ids have "length amps = length (filter (kept libs) events)" by (metis length_map)
    then have "int (length amps) \<le> int (length events)" by simp
    with c0 show ?thesis by (intro mult_right_mono)
  qed
  also have "\<dots> \<le> uint total_cost"
    unfolding c_def minus_mod_eq_mult_div [symmetric]
    using pos_mod_sign [of "int (length events)" "uint total_cost"] by (cases "events = []") simp_all
  finally show ?thesis using costs by (simp add: c_def)
qed

section \<open>Forwarding\<close>

text \<open>What is published for a transaction: its converted events, at a cost that covers its fee.\<close>

definition published_for ::
  "forward_libs \<Rightarrow> forwarder_config \<Rightarrow> solana_tx \<Rightarrow> amp_event list \<Rightarrow> bool" where
  "published_for libs cfg message amps \<longleftrightarrow>
     (\<exists>total_cost events.
        lt_cost message \<le> total_cost \<and>
        parse_events libs (fc_source_chain_name cfg) (fc_gas_service cfg) (fc_gateway cfg)
          (convert_to_parser_transaction libs message) = Inr events \<and>
        map_core_events_to_amplifier libs events total_cost = Inr amps)"

context gas_oracle
begin

lemma gas_frame: "gas tx s = (r, s') \<Longrightarrow> \<exists>e q. s' = s\<lparr>env := e, wire := q\<rparr>"
  using movesD [OF gas_confined] by (auto simp: same_component_def)

end

locale forwarder_gas = gas_oracle gas
  for gas :: "solana_tx \<Rightarrow> (fault, ('w, 'z) amplifier_world_scheme, u64) io"
begin

lemma forward_one_cases:
  assumes "forward_one libs cfg gas message s = (r, s')"
  shows "(\<forall>k. sent k s' = sent k s) \<and> amplifier_open s' = amplifier_open s \<and>
     (r = Inr () \<and> (\<exists>amps. published_for libs cfg message amps \<and> published s' = published s @ [amps])
      \<or> (\<exists>e. r = Inl e) \<and> published s' = published s)"
proof -
  obtain g s1 where g: "gas message s = (g, s1)" by fastforce
  from gas_frame [OF g] obtain e q where s1: "s1 = s\<lparr>env := e, wire := q\<rparr>" by blast
  then have frame: "published s1 = published s" "amplifier_open s1 = amplifier_open s" by simp_all
  have sent1: "\<forall>k. sent k s1 = sent k s" using gas_sends_nothing [OF g] by blast
  show ?thesis
  proof (cases g)
    case (Inl f)
    with assms g frame sent1 show ?thesis by (auto simp: forward_one_def bindE_def)
  next
    case (Inr total_cost)
    with g have fee: "lt_cost message \<le> total_cost" by (auto intro: gas_covers_fee)
    let ?events = "parse_events libs (fc_source_chain_name cfg) (fc_gas_service cfg) (fc_gateway cfg)
          (convert_to_parser_transaction libs message)"
    show ?thesis
    proof (cases ?events)
      case (Inl x)
      with assms g Inr frame sent1 show ?thesis by (auto simp: forward_one_def bindE_def Let_def)
    next
      case events: (Inr events)
      show ?thesis
      proof (cases "map_core_events_to_amplifier libs events total_cost")
        case (Inl x)
        with assms g Inr events frame sent1 show ?thesis by (auto simp: forward_one_def bindE_def Let_def)
      next
        case amps: (Inr amps)
        then have for_message: "published_for libs cfg message amps"
          using fee events by (auto simp: published_for_def)
        from assms g Inr events amps have "publish amps s1 = (r, s')"
          by (simp add: forward_one_def bindE_def Let_def)
        with for_message frame sent1 show ?thesis
          by (auto simp: publish_def sent_def split: if_splits)
      qed
    qed
  qed
qed

lemma forward_fold:
  "foldE (\<lambda>message _. forward_one libs cfg gas message) messages () s = (r, s') \<Longrightarrow>
   (\<forall>k. sent k s' = sent k s) \<and>
   (\<exists>handled rest cmds. messages = handled @ rest \<and> published s' = published s @ cmds \<and>
      list_all2 (published_for libs cfg) handled cmds \<and> (rest = []) = (r = Inr ()))"
proof (induction messages arbitrary: s)
  case Nil
  then show ?case by (auto intro!: exI [of _ "[]"])
next
  case (Cons message messages)
  obtain q s1 where q: "forward_one libs cfg gas message s = (q, s1)" by fastforce
  from forward_one_cases [OF q] consider
      amps where "q = Inr ()" "published_for libs cfg message amps" "published s1 = published s @ [amps]"
    | e where "q = Inl e" "published s1 = published s" by blast
  then show ?case
  proof cases
    case 1
    with Cons.prems q have "foldE (\<lambda>message _. forward_one libs cfg gas message) messages () s1 = (r, s')"
      by (simp add: bindE_def)
    from Cons.IH [OF this] obtain handled rest cmds where
      *: "messages = handled @ rest" "published s' = published s1 @ cmds"
        "list_all2 (published_for libs cfg) handled cmds" "(rest = []) = (r = Inr ())"
      and sent: "\<forall>k. sent k s' = sent k s1" by blast
    with 1 forward_one_cases [OF q] show ?thesis
      by (intro conjI exI [of _ "message # handled"] exI [of _ rest] exI [of _ "amps # cmds"]) auto
  next
    case 2
    with Cons.prems q have "r = Inl e" "s' = s1" by (auto simp: bindE_def)
    with 2 forward_one_cases [OF q] show ?thesis
      by (intro conjI exI [of _ "[]"] exI [of _ "message # messages"]) auto
  qed
qed

lemma forward_all_result:
  assumes "forward_all libs cfg gas messages s = (r, s')"
  shows "(\<forall>k. sent k s' = sent k s) \<and> (\<exists>e. r = Inl e) \<and>
   (\<exists>handled rest cmds. messages = handled @ rest \<and> published s' = published s @ cmds \<and>
      list_all2 (published_for libs cfg) handled cmds)"
proof -
  obtain q s1 where q: "foldE (\<lambda>message _. forward_one libs cfg gas message) messages () s = (q, s1)"
    by fastforce
  with assms have "s' = s1" "\<exists>e. r = Inl e"
    by (auto simp: forward_all_def bindE_def split: sum.splits)
  with forward_fold [OF q] show ?thesis by blast
qed

end

interpretation forward: forwarder_gas "compute_total_gas fuel sdk codec rt nd c gateway"
  for fuel sdk codec rt nd c gateway
  by unfold_locales (auto intro: gas.gas_covers_fee gas.gas_quiet gas.gas_confined)

section \<open>Properties\<close>

text \<open>
  C25. The events published for a transaction are those of the parser, in its order and under
  their own ids, less the ones that are skipped: calls and approvals whose base64 does not
  decode, signer rotations without a decodable hash or an epoch, interchain transfers without a
  token id, and \<open>CannotExecuteMessageV2\<close>.
\<close>

theorem events_kept_in_order:
  "map_core_events_to_amplifier libs events total_cost = Inr amps \<Longrightarrow>
   map amp_event_id amps = map core_event_id (filter (kept libs) events)"
  using map_events by blast

text \<open>Concrete parsers: base64 of nothing but digits, and decimal numbers.\<close>

definition sample_libs :: forward_libs where
  "sample_libs =
     \<lparr>b64_decode = (\<lambda>str. map_option (\<lambda>n. [of_nat n]) (read_digits 0 str)),
      parse_rfc3339 = (\<lambda>str. None),
      parse_i512 = (\<lambda>str. map_option int (read_digits 0 str)),
      show_pubkey = decimal,
      parse_events = (\<lambda>chain gas_service gateway tx. Inr
        [CoreSignersRotated \<lparr>cc_event_id = ''rot'', cc_meta = None\<rparr> ''m1'',
         CoreGasRefunded \<lparr>cc_event_id = ''ref'', cc_meta = None\<rparr> ''m2'' ''r''
           \<lparr>ca_token_id = None, ca_amount = ''25''\<rparr> \<lparr>ca_token_id = None, ca_amount = ''0''\<rparr>])\<rparr>"

abbreviation sample_events :: "core_event list" where
  "sample_events \<equiv> projr (parse_events sample_libs [] 0 0 undefined)"

lemma sample_amounts: "parse_i512 sample_libs (show_u64 n) = Some (uint n)"
  by (simp add: sample_libs_def show_u64_def read_digits_show_nat)

lemma sample_mapped:
  "\<exists>amps. map_core_events_to_amplifier sample_libs sample_events 9 = Inr amps \<and>
     map amp_event_id amps = [''ref''] \<and> map amp_cost amps = [4]"
proof -
  have four: "uint (div_or_zero 9 2) = 4" by (simp add: div_or_zero_def checked_div_def)
  have "parse_i512 sample_libs ''25'' = Some 25"
    by (simp add: sample_libs_def digit_val_def Let_def)
  with four show ?thesis
    by (simp add: map_core_events_to_amplifier_def sample_amounts token_from_amount_def
        convert_signers_rotated_def convert_base_meta_def List.map_filter_simps u64_of_len_def)
      (simp add: sample_libs_def sample_amounts [unfolded sample_libs_def] token_from_amount_def
        convert_signers_rotated_def convert_base_meta_def List.map_filter_simps digit_val_def Let_def
        show_u64_def read_digits_show_nat)
qed

lemma events_kept_in_order_witness:
  "\<exists>amps. map_core_events_to_amplifier sample_libs sample_events 9 = Inr amps \<and>
     map amp_event_id amps = map core_event_id (filter (kept sample_libs) sample_events)"
  using sample_mapped events_kept_in_order by blast



text \<open>
  The forwarder handles the listener's transactions in order and publishes one command for
  each, with the events the parser finds in it, converted at a total that covers its fee; it
  stops at the first error and always ends with one (also when the listener's channel ends);
  and it never sends a transaction.
\<close>

theorem forwarder_publishes_in_order:
  assumes "forward_all libs cfg (compute_total_gas fuel sdk codec rt nd c gateway) messages s = (r, s')"
  shows "(\<exists>e. r = Inl e) \<and> sent k s' = sent k s \<and>
   (\<exists>handled rest cmds. messages = handled @ rest \<and> published s' = published s @ cmds \<and>
      list_all2 (published_for libs cfg) handled cmds)"
  using forward.forward_all_result [OF assms] by blast

lemma forwarder_publishes_in_order_witness:
  "\<exists>r s'. forward_all sample_libs (new_forwarder_config 8 Finalized 7 ''solana'')
       (compute_total_gas 2 decimal_sdk sample_codec counting_runtime
          (ledger_node MainNode sample_history sample_db) Finalized 8)
       [sample_approval] \<lparr>env = 0, wire = [], published = [], amplifier_open = True\<rparr> = (r, s') \<and>
     sent MainNode s' = [] \<and> (\<exists>e. r = Inl e)"
proof -
  obtain r s' where run: "forward_all sample_libs (new_forwarder_config 8 Finalized 7 ''solana'')
       (compute_total_gas 2 decimal_sdk sample_codec counting_runtime
          (ledger_node MainNode sample_history sample_db) Finalized 8)
       [sample_approval] \<lparr>env = 0, wire = [], published = [], amplifier_open = True\<rparr> = (r, s')"
    by fastforce
  from forwarder_publishes_in_order [OF run, of MainNode] run show ?thesis by (auto simp: sent_def)
qed

end
