(* ===== verification/BatchScanner.thy ===== *)
theory BatchScanner
  imports TxFetch
begin

text \<open>
  \<open>crates/solana-listener/src/component/signature_batch_scanner.rs\<close>: catching up on the
  transactions of the gateway and of the gas service between two signatures, page by page and
  backwards in time. The waiting of the interval has no effect on the state and is left out.
  The paging loop has no bound of its own: one unit of fuel is one page.
\<close>

section \<open>Definitions\<close>

record listener_config =
  lc_gateway :: pubkey
  lc_gas_service :: pubkey
  lc_ws :: string
  lc_poll_period_ms :: u64
  lc_commitment :: commitment

datatype fetching_state =
    Completed "(signature \<times> u64) option"
  | FetchAgain "signature \<times> u64" "(signature \<times> u64) option"

text \<open>\<open>SignatureRangeFetcher\<close>, less the client and the channel.\<close>

record range_fetcher =
  rf_t1 :: "signature option"
  rf_t2 :: "signature option"
  rf_address :: pubkey
  rf_commitment :: commitment

definition scan_limit :: nat where
  "scan_limit = 10"

definition expect_signature ::
  "sdk \<Rightarrow> sig_status \<Rightarrow> (fault, 's, signature \<times> u64) io" where
  "expect_signature sdk st =
     (case parse_signature sdk (st_signature st) of
        None \<Rightarrow> failE (Panic ''rpc will return valid signatures'')
      | Some sig \<Rightarrow> retE (sig, st_slot st))"

definition fetch_page ::
  "sdk \<Rightarrow> 'w runtime \<Rightarrow> 'w node \<Rightarrow> range_fetcher
     \<Rightarrow> (fault, ('w, 'z) listener_world_scheme, fetching_state) io" where
  "fetch_page sdk rt nd rf =
     bindE (map_faultE (add_ctx ''fetching signatures with address'')
              (rpc (ReqSignatures (node_tag nd) (rf_address rf) (rf_t2 rf) (rf_t1 rf) scan_limit)
                 (n_signatures nd (rf_address rf) (rf_t2 rf) (rf_t1 rf) scan_limit (rf_commitment rf))))
       (\<lambda>fetched.
     if fetched = [] then retE (Completed None)
     else bindE (expect_signature sdk (last fetched)) (\<lambda>oldest.
          bindE (expect_signature sdk (hd fetched)) (\<lambda>newest.
          bindE (fetch_and_send sdk rt nd (rf_commitment rf)
                  (rev (List.map_filter (\<lambda>st. parse_signature sdk (st_signature st)) fetched))) (\<lambda>_.
          if length fetched < scan_limit then retE (Completed (Some newest))
          else retE (FetchAgain oldest (Some newest))))))"

fun newest_of :: "fetching_state \<Rightarrow> (signature \<times> u64) option" where
  "newest_of (Completed n) = n"
| "newest_of (FetchAgain t2 n) = n"

text \<open>
  The bookkeeping after each page: the newest signature so far, and the slot that was recorded
  with the first one. The second component is set once and never updated.
\<close>

fun note_newest ::
  "(signature \<times> u64) option \<Rightarrow> signature option \<times> u64 option
     \<Rightarrow> fault + (signature option \<times> u64 option)" where
  "note_newest (Some (t2, s)) (None, None) = Inr (Some t2, Some s)"
| "note_newest (Some (t2, s)) (Some sig, None) = Inr (Some sig, None)"
| "note_newest (Some (t2, s)) (Some sig, Some old) = Inr (if old < s then Some t2 else Some sig, Some old)"
| "note_newest (Some (t2, s)) (None, Some old) = Inl (Panic ''internal error: entered unreachable code'')"
| "note_newest None acc = Inr acc"

fun scan_program ::
  "nat \<Rightarrow> sdk \<Rightarrow> 'w runtime \<Rightarrow> 'w node \<Rightarrow> commitment \<Rightarrow> signature option \<Rightarrow> pubkey
     \<Rightarrow> signature option \<Rightarrow> signature option \<times> u64 option
     \<Rightarrow> (fault, ('w, 'z) listener_world_scheme, signature option \<times> u64 option) io" where
  "scan_program 0 sdk rt nd c t1 a t2 acc = failE Diverge"
| "scan_program (Suc n) sdk rt nd c t1 a t2 acc =
     bindE (fetch_page sdk rt nd \<lparr>rf_t1 = t1, rf_t2 = t2, rf_address = a, rf_commitment = c\<rparr>) (\<lambda>st.
     bindE (liftE (note_newest (newest_of st) acc)) (\<lambda>acc'.
     case st of
       Completed _ \<Rightarrow> retE acc'
     | FetchAgain new_t2 _ \<Rightarrow> scan_program n sdk rt nd c t1 a (Some (fst new_t2)) acc'))"

definition fetch_batches_in_range ::
  "nat \<Rightarrow> sdk \<Rightarrow> 'w runtime \<Rightarrow> 'w node \<Rightarrow> listener_config \<Rightarrow> signature option \<Rightarrow> signature option
     \<Rightarrow> (fault, ('w, 'z) listener_world_scheme, signature option) io" where
  "fetch_batches_in_range fuel sdk rt nd cfg t1 t2 =
     bindE (foldE (\<lambda>a acc. scan_program fuel sdk rt nd (lc_commitment cfg) t1 a t2 acc)
              [lc_gateway cfg, lc_gas_service cfg] (t2, None))
       (\<lambda>acc. retE (fst acc))"

section \<open>One page\<close>

lemma map_filter_statuses:
  "(\<And>sig. parse_signature sdk (enc sig) = Some sig) \<Longrightarrow>
   List.map_filter (\<lambda>st. parse_signature sdk (st_signature st)) (map (status_entry enc) xs) = map fst xs"
  by (induction xs) (simp_all add: status_entry_def)

definition page_of :: "history \<Rightarrow> range_fetcher \<Rightarrow> history" where
  "page_of h rf = take scan_limit (sig_range h (rf_t2 rf) (rf_t1 rf))"

definition page_state :: "history \<Rightarrow> fetching_state" where
  "page_state page =
     (if page = [] then Completed None
      else if length page < scan_limit then Completed (Some (hd page))
      else FetchAgain (last page) (Some (hd page)))"

text \<open>What catching up on a list of signatures leaves behind.\<close>

definition caught_up ::
  "sdk \<Rightarrow> (signature \<Rightarrow> client_error + encoded_tx) \<Rightarrow> signature list
     \<Rightarrow> ('w, 'z) listener_world_scheme \<Rightarrow> ('w, 'z) listener_world_scheme \<Rightarrow> bool" where
  "caught_up sdk db sigs s s' \<longleftrightarrow>
     chan_open s' = chan_open s \<and> (\<exists>ts. chan s' = chan s @ ts \<and> mset ts = mset (delivered sdk db sigs))"

lemma caught_up_refl: "chan_open s' = chan_open s \<Longrightarrow> chan s' = chan s \<Longrightarrow> caught_up sdk db [] s s'"
  by (simp add: caught_up_def)

lemma caught_up_trans:
  assumes "caught_up sdk db xs s t" and "caught_up sdk db ys t u"
  shows "caught_up sdk db (xs @ ys) s u"
proof -
  from assms obtain ts us where "chan t = chan s @ ts" "mset ts = mset (delivered sdk db xs)"
    "chan u = chan t @ us" "mset us = mset (delivered sdk db ys)" "chan_open u = chan_open s"
    by (auto simp: caught_up_def)
  then show ?thesis by (auto simp: caught_up_def intro!: exI [of _ "ts @ us"])
qed

lemma caught_up_rev: "caught_up sdk db (rev xs) s t \<longleftrightarrow> caught_up sdk db xs s t"
  unfolding caught_up_def using delivered_perm [of "rev xs" xs sdk db] by auto

lemma fetch_page_run:
  assumes srv: "serves sdk nd c enc hist" and ans: "answers rt nd c db" and opened: "chan_open s"
    and rf: "rf_commitment rf = c" and page: "page = page_of (hist (rf_address rf)) rf"
  shows "\<exists>s'. fetch_page sdk rt nd rf s = (Inr (page_state page), s') \<and>
           caught_up sdk db (map fst page) s s'"
proof -
  have enc: "parse_signature sdk (enc sig) = Some sig" for sig
    using srv by (simp add: serves_def)
  obtain r e where run: "n_signatures nd (rf_address rf) (rf_t2 rf) (rf_t1 rf) scan_limit c (env s) = (r, e)"
    by fastforce
  with srv have r: "r = Inr (map (status_entry enc) page)"
    by (metis fst_conv page page_of_def serves_def)
  let ?q = "ReqSignatures (node_tag nd) (rf_address rf) (rf_t2 rf) (rf_t1 rf) scan_limit"
  define s1 where "s1 = s\<lparr>env := e, wire := wire s @ [?q]\<rparr>"
  have first: "map_faultE (add_ctx m) (rpc ?q (n_signatures nd (rf_address rf) (rf_t2 rf) (rf_t1 rf)
      scan_limit c)) s = (Inr (map (status_entry enc) page), s1)" for m
    using run r by (simp add: rpc_apply s1_def)
  show ?thesis
  proof (cases "page = []")
    case True
    then show ?thesis
      by (intro exI [of _ s1]) (simp add: fetch_page_def bindE_def first rf page_state_def caught_up_def s1_def)
  next
    case False
    have exp: "expect_signature sdk (last (map (status_entry enc) page)) = retE (last page)"
      "expect_signature sdk (hd (map (status_entry enc) page)) = retE (hd page)"
      using False by (simp_all add: expect_signature_def last_map hd_map status_entry_def enc)
    have "chan_open s1" using opened by (simp add: s1_def)
    from fetch_and_send_done [OF this, of sdk rt nd c "rev (map fst page)"] obtain s' where
      send: "fetch_and_send sdk rt nd c (rev (map fst page)) s1 = (Inr (), s')" and
      batch: "batch_done sdk rt nd c (rev (map fst page)) s1 s'" by blast
    from batch obtain e' zs ts where
      "s' = s1\<lparr>env := e', wire := wire s1 @ map (ReqTransaction (node_tag nd)) zs, chan := chan s1 @ ts\<rparr>"
      and zs: "mset zs = mset (rev (map fst page))" and "ts = delivered sdk db zs"
      using ans unfolding batch_done_def by blast
    then have "caught_up sdk db (map fst page) s s'"
      using delivered_perm [of zs "map fst page" sdk db] by (simp add: caught_up_def s1_def)
    moreover have "fetch_page sdk rt nd rf s = (Inr (page_state page), s')"
      using False send
      by (simp add: fetch_page_def bindE_def first rf exp map_filter_statuses [OF enc] page_state_def)
    ultimately show ?thesis by blast
  qed
qed

section \<open>All pages\<close>

text \<open>The first entry of each page, and what the bookkeeping makes of them.\<close>

function page_heads :: "history \<Rightarrow> history" where
  "page_heads r = (if r = [] then [] else hd r # page_heads (drop scan_limit r))"
  by pat_completeness auto
termination
  by (relation "measure length") (auto simp: scan_limit_def)

declare page_heads.simps [simp del]

lemma page_heads_Nil [simp]: "page_heads [] = []"
  by (simp add: page_heads.simps)

lemma page_heads_short: "r \<noteq> [] \<Longrightarrow> length r \<le> scan_limit \<Longrightarrow> page_heads r = [hd r]"
  by (simp add: page_heads.simps [of r])

lemma page_heads_subset: "set (page_heads r) \<subseteq> set r"
proof (induction r rule: page_heads.induct)
  case (1 r)
  show ?case
  proof (cases "r = []")
    case False
    with 1 have "set (page_heads (drop scan_limit r)) \<subseteq> set r" by (meson order.trans set_drop_subset)
    with False show ?thesis by (simp add: page_heads.simps [of r])
  qed simp
qed

fun noted :: "signature \<times> u64 \<Rightarrow> signature option \<times> u64 option \<Rightarrow> signature option \<times> u64 option" where
  "noted x (None, s) = (Some (fst x), Some (snd x))"
| "noted x (Some sig, None) = (Some sig, None)"
| "noted x (Some sig, Some old) = (if old < snd x then Some (fst x) else Some sig, Some old)"

text \<open>The invariant of the bookkeeping, which makes its \<open>unreachable!()\<close> unreachable.\<close>

fun slot_known :: "signature option \<times> u64 option \<Rightarrow> bool" where
  "slot_known (None, Some s) = False"
| "slot_known _ = True"

lemma note_newest_noted: "slot_known acc \<Longrightarrow> note_newest (Some x) acc = Inr (noted x acc)"
  by (cases x; cases "(Some x, acc)" rule: note_newest.cases) auto

lemma slot_known_noted: "slot_known acc \<Longrightarrow> slot_known (noted x acc)"
  by (cases acc; cases "fst acc"; cases "snd acc") auto

lemma slot_known_fold: "slot_known acc \<Longrightarrow> slot_known (fold noted xs acc)"
  by (induction xs arbitrary: acc) (simp_all add: slot_known_noted)

lemma slot_known_start [simp]: "slot_known (t2, None)"
  by (cases t2) simp_all

lemma scan_program_run:
  assumes srv: "serves sdk nd c enc hist" and ans: "answers rt nd c db"
    and "chan_open s" and "slot_known acc"
    and "length (sig_range (hist a) t2 t1) < scan_limit * Suc n"
  shows "\<exists>s'. scan_program (Suc n) sdk rt nd c t1 a t2 acc s =
             (Inr (fold noted (page_heads (sig_range (hist a) t2 t1)) acc), s') \<and>
           caught_up sdk db (map fst (sig_range (hist a) t2 t1)) s s'"
  using assms(3-)
proof (induction n arbitrary: t2 acc s)
  case 0
  let ?rf = "\<lparr>rf_t1 = t1, rf_t2 = t2, rf_address = a, rf_commitment = c\<rparr>"
  let ?r = "sig_range (hist a) t2 t1"
  from 0 have page: "?r = page_of (hist (rf_address ?rf)) ?rf" by (simp add: page_of_def)
  from fetch_page_run [OF srv ans "0.prems"(1) _ page] obtain s' where
    run: "fetch_page sdk rt nd ?rf s = (Inr (page_state ?r), s')" and
    cu: "caught_up sdk db (map fst ?r) s s'" by auto
  from 0 have "page_state ?r = Completed (if ?r = [] then None else Some (hd ?r))"
    by (simp add: page_state_def)
  with run cu 0 show ?case
    by (cases "?r = []") (auto simp: bindE_def note_newest_noted page_heads_short)
next
  case (Suc n)
  let ?rf = "\<lparr>rf_t1 = t1, rf_t2 = t2, rf_address = a, rf_commitment = c\<rparr>"
  define r where "r = sig_range (hist a) t2 t1"
  define page where "page = take scan_limit r"
  have page: "page = page_of (hist (rf_address ?rf)) ?rf" by (simp add: page_of_def page_def r_def)
  from fetch_page_run [OF srv ans Suc.prems(1) _ page] obtain s1 where
    run: "fetch_page sdk rt nd ?rf s = (Inr (page_state page), s1)" and
    cu: "caught_up sdk db (map fst page) s s1" by auto
  show ?case
  proof (cases "length r < scan_limit")
    case True
    then have "page = r" by (simp add: page_def)
    then have "page_state page = Completed (if r = [] then None else Some (hd r))"
      using True by (simp add: page_state_def)
    with run cu Suc.prems True \<open>page = r\<close> show ?thesis
      by (cases "r = []") (auto simp: bindE_def note_newest_noted page_heads_short simp flip: r_def)
  next
    case False
    then have len: "length page = scan_limit" and ne: "page \<noteq> []" "r \<noteq> []"
      by (auto simp: page_def scan_limit_def)
    then have st: "page_state page = FetchAgain (last page) (Some (hd page))"
      by (simp add: page_state_def)
    have "distinct (map fst (hist a))" using srv by (simp add: serves_def)
    from sig_range_next [OF this page_def [unfolded r_def] ne(1)]
    have next_range: "sig_range (hist a) (Some (fst (last page))) t1 = drop scan_limit r"
      by (simp add: r_def)
    from cu Suc.prems have open1: "chan_open s1" by (simp add: caught_up_def)
    have "length (sig_range (hist a) (Some (fst (last page))) t1) < scan_limit * Suc n"
      using Suc.prems(3) by (simp add: next_range flip: r_def)
    from Suc.IH [OF open1 slot_known_noted [OF Suc.prems(2)] this, of "hd page"] obtain s' where
      rest: "scan_program (Suc n) sdk rt nd c t1 a (Some (fst (last page))) (noted (hd page) acc) s1 =
        (Inr (fold noted (page_heads (drop scan_limit r)) (noted (hd page) acc)), s')"
      and cu': "caught_up sdk db (map fst (drop scan_limit r)) s1 s'"
      by (auto simp: next_range)
    have "hd page = hd r" by (simp add: page_def scan_limit_def)
    then have heads: "page_heads r = hd page # page_heads (drop scan_limit r)"
      using ne by (simp add: page_heads.simps [of r])
    have "map fst page @ map fst (drop scan_limit r) = map fst r"
      by (simp add: page_def flip: map_append)
    with caught_up_trans [OF cu cu'] have "caught_up sdk db (map fst r) s s'" by simp
    moreover have "scan_program (Suc (Suc n)) sdk rt nd c t1 a t2 acc s =
        (Inr (fold noted (page_heads r) acc), s')"
      using rest by (subst scan_program.simps)
        (simp add: bindE_def run st note_newest_noted [OF Suc.prems(2)] heads)
    ultimately show ?thesis by (auto simp: r_def)
  qed
qed

lemma fetch_batches_run:
  assumes srv: "serves sdk nd (lc_commitment cfg) enc hist" and ans: "answers rt nd (lc_commitment cfg) db"
    and "chan_open s"
    and gw: "gw = sig_range (hist (lc_gateway cfg)) t2 t1"
    and gas: "gas = sig_range (hist (lc_gas_service cfg)) t2 t1"
    and "length gw < scan_limit * Suc n" and "length gas < scan_limit * Suc n"
  shows "\<exists>s'. fetch_batches_in_range (Suc n) sdk rt nd cfg t1 t2 s =
             (Inr (fst (fold noted (page_heads gw @ page_heads gas) (t2, None))), s') \<and>
           caught_up sdk db (map fst (gw @ gas)) s s'"
proof -
  let ?acc = "fold noted (page_heads gw) (t2, None)"
  from scan_program_run [OF srv ans assms(3), of "(t2, None)" "lc_gateway cfg" t2 t1 n] assms(6)
  obtain s1 where run1: "scan_program (Suc n) sdk rt nd (lc_commitment cfg) t1 (lc_gateway cfg) t2 (t2, None) s =
      (Inr ?acc, s1)" and cu1: "caught_up sdk db (map fst gw) s s1"
    by (auto simp: gw)
  then have "chan_open s1" using assms(3) by (simp add: caught_up_def)
  from scan_program_run [OF srv ans this, of ?acc "lc_gas_service cfg" t2 t1 n] assms(7)
  obtain s2 where run2: "scan_program (Suc n) sdk rt nd (lc_commitment cfg) t1 (lc_gas_service cfg) t2 ?acc s1 =
      (Inr (fold noted (page_heads gas) ?acc), s2)" and cu2: "caught_up sdk db (map fst gas) s1 s2"
    by (auto simp: gas slot_known_fold)
  from run1 run2 have "fetch_batches_in_range (Suc n) sdk rt nd cfg t1 t2 s =
      (Inr (fst (fold noted (page_heads gas) ?acc)), s2)"
    by (simp add: fetch_batches_in_range_def bindE_def del: scan_program.simps)
  with caught_up_trans [OF cu1 cu2] show ?thesis by auto
qed

section \<open>The newest signature\<close>

definition newest_first :: "history \<Rightarrow> bool" where
  "newest_first h = sorted_wrt (\<lambda>x y. snd y \<le> snd x) h"

fun newest_in :: "history \<Rightarrow> history \<Rightarrow> signature option" where
  "newest_in [] [] = None"
| "newest_in (x # gw) [] = Some (fst x)"
| "newest_in [] (y # gas) = Some (fst y)"
| "newest_in (x # gw) (y # gas) = (if snd x < snd y then Some (fst y) else Some (fst x))"

lemma fold_noted_given: "fold noted xs (Some sig, None) = (Some sig, None)"
  by (induction xs) simp_all

lemma fold_noted_old:
  "(\<And>x. x \<in> set xs \<Longrightarrow> snd x \<le> old) \<Longrightarrow> fold noted xs (Some sig, Some old) = (Some sig, Some old)"
proof (induction xs)
  case (Cons x xs)
  then have "snd x \<le> old" by simp
  then have "\<not> old < snd x" by simp
  with Cons show ?case by simp
qed simp

lemma fold_noted_first:
  assumes "newest_first (x # r)"
  shows "fold noted (page_heads (x # r)) (None, None) = (Some (fst x), Some (snd x))"
proof -
  have "set (page_heads (drop scan_limit (x # r))) \<subseteq> set (x # r)"
    using page_heads_subset set_drop_subset by fast
  with assms have "\<And>y. y \<in> set (page_heads (drop scan_limit (x # r))) \<Longrightarrow> snd y \<le> snd x"
    by (auto simp: newest_first_def)
  then show ?thesis by (simp add: page_heads.simps [of "x # r"] fold_noted_old del: drop_Suc_Cons)
qed

lemma fold_noted_newest:
  assumes "newest_first gw" and "newest_first gas" and "gw = [] \<or> length gas \<le> scan_limit"
  shows "fst (fold noted (page_heads gw @ page_heads gas) (None, None)) = newest_in gw gas"
proof (cases gw)
  case Nil
  with assms(2) show ?thesis by (cases gas) (auto simp: fold_noted_first)
next
  case (Cons x gw')
  with assms have "fold noted (page_heads gw) (None, None) = (Some (fst x), Some (snd x))"
    by (simp add: fold_noted_first)
  with Cons assms(3) show ?thesis by (cases gas) (auto simp: page_heads_short)
qed

section \<open>Properties\<close>


text \<open>A gateway with one transaction and a gas service with eleven, all of them newer.\<close>

definition skewed_config :: listener_config where
  "skewed_config = \<lparr>lc_gateway = 1, lc_gas_service = 2, lc_ws = ''ws://node'', lc_poll_period_ms = 1000,
     lc_commitment = Finalized\<rparr>"

definition skewed_history :: "pubkey \<Rightarrow> history" where
  "skewed_history a =
     (if a = 1 then [(100, 5)]
      else if a = 2 then [(200, 30), (199, 29), (198, 28), (197, 27), (196, 26), (195, 25),
        (194, 24), (193, 23), (192, 22), (191, 21), (190, 20)]
      else [])"

abbreviation skewed_node :: "nat node" where
  "skewed_node \<equiv> ledger_node MainNode skewed_history two_of_three"

lemma skewed_serves: "serves decimal_sdk skewed_node c decimal skewed_history"
  by (rule serves_ledger_node) (simp add: skewed_history_def)

lemma skewed_ranges:
  "sig_range (skewed_history 1) None None = [(100, 5)]"
  "sig_range (skewed_history 2) None None = skewed_history 2"
  by (simp_all add: sig_range_def older_than_def newer_than_def skewed_history_def)


text \<open>
  The signature that is returned: the upper bound if one was given; otherwise, when the
  histories are in slot order and the gas service's range fits one page (or the gateway's is
  empty), the newest of both programs by slot.
\<close>

theorem batch_scan_newest:
  assumes "serves sdk nd (lc_commitment cfg) enc hist" and "answers rt nd (lc_commitment cfg) db"
    and "chan_open s"
    and "length (sig_range (hist (lc_gateway cfg)) t2 t1) < scan_limit * Suc n"
    and "length (sig_range (hist (lc_gas_service cfg)) t2 t1) < scan_limit * Suc n"
    and "newest_first (sig_range (hist (lc_gateway cfg)) t2 t1)"
    and "newest_first (sig_range (hist (lc_gas_service cfg)) t2 t1)"
    and "sig_range (hist (lc_gateway cfg)) t2 t1 = [] \<or>
         length (sig_range (hist (lc_gas_service cfg)) t2 t1) \<le> scan_limit"
  shows "fst (fetch_batches_in_range (Suc n) sdk rt nd cfg t1 t2 s) =
     Inr (case t2 of Some x \<Rightarrow> Some x
          | None \<Rightarrow> newest_in (sig_range (hist (lc_gateway cfg)) t2 t1) (sig_range (hist (lc_gas_service cfg)) t2 t1))"
  using fetch_batches_run [OF assms(1-3) refl refl assms(4,5)] fold_noted_newest [OF assms(6-8)]
  by (cases t2) (auto simp: fold_noted_given)

lemma batch_scan_newest_witness:
  "fst (fetch_batches_in_range (Suc 0) decimal_sdk counting_runtime skewed_node
     (skewed_config\<lparr>lc_gas_service := 3\<rparr>) None None open_world) = Inr (Some 100)"
proof -
  have "sig_range (skewed_history 3) None None = []"
    by (simp add: sig_range_def older_than_def newer_than_def skewed_history_def)
  then show ?thesis
    using batch_scan_newest [where s = open_world and n = 0 and ?t1.0 = None and ?t2.0 = None
        and cfg = "skewed_config\<lparr>lc_gas_service := 3\<rparr>", OF skewed_serves answers_ledger_node]
    by (simp add: skewed_config_def skewed_ranges scan_limit_def open_world_def newest_first_def)
qed

text \<open>
  C24. With more than one page of the gas service the result can be wrong: the recorded slot is
  that of the first signature and is not updated, so the head of every later page that is newer
  than it overwrites the result with an older signature. Here the newest signature is 200 and
  the scan returns 190.
\<close>

theorem batch_scan_returns_older:
  "fst (fetch_batches_in_range (Suc 1) decimal_sdk counting_runtime skewed_node skewed_config
      None None open_world) = Inr (Some 190) \<and>
   newest_in (skewed_history 1) (skewed_history 2) = Some 200"
proof -
  have heads: "page_heads (skewed_history 2) = [(200, 30), (190, 20)]"
    by (simp add: skewed_history_def page_heads.simps [of "_ # _"] scan_limit_def)
  have "page_heads [(100, 5)] = [(100, 5)]" by (simp add: page_heads_short scan_limit_def)
  with heads show ?thesis
    using fetch_batches_run [where s = open_world and n = 1 and ?t1.0 = None and ?t2.0 = None
        and cfg = skewed_config, OF skewed_serves answers_ledger_node _ refl refl]
    by (auto simp: skewed_config_def skewed_ranges scan_limit_def open_world_def)
      (auto simp: skewed_history_def)
qed

text \<open>
  The branch marked \<open>unreachable!()\<close> is: from the start of a scan, no sequence of page
  results, however the node answers, leads the bookkeeping to a panic.
\<close>

theorem note_newest_never_panics:
  "\<exists>acc. foldl (\<lambda>r n. case r of Inl e \<Rightarrow> Inl e | Inr acc \<Rightarrow> note_newest n acc) (Inr (t2, None)) ns = Inr acc"
proof -
  have "slot_known acc \<Longrightarrow> \<exists>acc'. note_newest n acc = Inr acc' \<and> slot_known acc'" for n acc
    by (cases n) (auto simp: note_newest_noted slot_known_noted)
  note step = this
  have "slot_known acc \<Longrightarrow> \<exists>acc'. foldl (\<lambda>r n. case r of Inl e \<Rightarrow> Inl e | Inr acc \<Rightarrow> note_newest n acc)
      (Inr acc) ns = Inr acc'" for acc
  proof (induction ns arbitrary: acc)
    case (Cons n ns)
    from step [OF Cons.prems, of n] obtain acc' where "note_newest n acc = Inr acc'" "slot_known acc'"
      by blast
    with Cons.IH show ?case by simp
  qed simp
  then show ?thesis using slot_known_start by blast
qed

end
