(* ===== verification/Listener.thy ===== *)
theory Listener
  imports BatchScanner FileStorage RoundRobin
begin

text \<open>
  \<open>crates/solana-listener/src/component.rs\<close> and
  \<open>component/signature_realtime_scanner.rs\<close>: the listener catches up on missed transactions,
  then follows the websocket subscriptions of the gateway and of the gas service, fetching every
  announced transaction concurrently, and records the last signature it forwarded. A failure of
  a fetch or the end of a subscription makes it reconnect.

  The code is generic in the stored state; its two operations are the parameter
  \<open>signature_state\<close>. The realtime loop is the step relation \<open>rt_step\<close>: what the websocket
  delivers, which fetch completes next and when a connection fails are its nondeterminism.
\<close>

section \<open>Definitions\<close>

record 'st signature_state =
  latest_sig :: "'st \<Rightarrow> fault + signature option"
  set_latest_sig :: "signature \<Rightarrow> (fault, 'st, unit) io"

definition memmap_state :: "file_os \<Rightarrow> bytes signature_state" where
  "memmap_state os = \<lparr>latest_sig = processed_signature, set_latest_sig = set_processed_signature os\<rparr>"

record ('w, 'st) storage_world = "'w listener_world" +
  store :: 'st

definition load_latest :: "'st signature_state \<Rightarrow> (fault, ('w, 'st) storage_world, signature option) io" where
  "load_latest st s = (latest_sig st (store s), s)"

definition save_latest :: "'st signature_state \<Rightarrow> signature \<Rightarrow> (fault, ('w, 'st) storage_world, unit) io" where
  "save_latest st sig s = (case set_latest_sig st sig (store s) of (r, m) \<Rightarrow> (r, s\<lparr>store := m\<rparr>))"

text \<open>\<open>process_internal\<close> up to the realtime loop.\<close>

definition startup ::
  "nat \<Rightarrow> sdk \<Rightarrow> 'w runtime \<Rightarrow> 'w node \<Rightarrow> listener_config \<Rightarrow> 'st signature_state \<Rightarrow> string option
     \<Rightarrow> (fault, ('w, 'st) storage_world, unit) io" where
  "startup fuel sdk rt nd cfg st force =
     bindE (case force of
              None \<Rightarrow> retE ()
            | Some f \<Rightarrow>
                if f = '''' then retE ()
                else case parse_signature sdk f of
                       None \<Rightarrow> failE (msg_fault ''invalid signature'')
                     | Some sig \<Rightarrow> save_latest st sig) (\<lambda>_.
     bindE (load_latest st) (\<lambda>latest.
     bindE (fetch_batches_in_range fuel sdk rt nd cfg latest None) (\<lambda>newest.
     case newest of None \<Rightarrow> retE () | Some sig \<Rightarrow> save_latest st sig)))"

text \<open>What a log subscription announces.\<close>

record ws_item =
  ws_signature :: string
  ws_err :: "transaction_error option"

text \<open>
  The websocket: connecting to its endpoint, and a subscription to the logs that mention a key,
  which gives the stream of its next polls.
\<close>

record pubsub =
  ps_new :: "string \<Rightarrow> eyre option"
  logs_subscribe :: "pubkey \<Rightarrow> commitment \<Rightarrow> eyre + ws_item source"

definition sub_to_logs :: "pubsub \<Rightarrow> pubkey \<Rightarrow> commitment \<Rightarrow> eyre + ws_item source" where
  "sub_to_logs client key c = logs_subscribe client key c"

definition open_streams :: "pubsub \<Rightarrow> listener_config \<Rightarrow> eyre + ws_item round_robin" where
  "open_streams client cfg =
     (case ps_new client (lc_ws cfg) of
        Some e \<Rightarrow> Inl e
      | None \<Rightarrow>
          (case sub_to_logs client (lc_gateway cfg) (lc_commitment cfg) of
             Inl e \<Rightarrow> Inl e
           | Inr gateway \<Rightarrow>
               (case sub_to_logs client (lc_gas_service cfg) (lc_commitment cfg) of
                  Inl e \<Rightarrow> Inl e
                | Inr gas \<Rightarrow> Inr (round_robin_two_streams gateway gas))))"

text \<open>
  The first announced transaction of a connection: \<open>False\<close> if it failed on chain, so that the
  loop waits for the next item; otherwise the missed ones are fetched up to it and it is sent.
\<close>

definition handle_first ::
  "nat \<Rightarrow> sdk \<Rightarrow> 'w runtime \<Rightarrow> 'w node \<Rightarrow> listener_config \<Rightarrow> 'st signature_state \<Rightarrow> string
     \<Rightarrow> (fault, ('w, 'st) storage_world, bool) io" where
  "handle_first fuel sdk rt nd cfg st str =
     bindE (ok_or (Panic ''signature from RPC must be valid'') (parse_signature sdk str)) (\<lambda>sig.
     bindE (fetch_transaction sdk rt nd (lc_commitment cfg) sig) (\<lambda>status.
     case status of
       Failed _ _ \<Rightarrow> retE False
     | Successful tx \<Rightarrow>
         bindE (load_latest st) (\<lambda>latest.
         bindE (fetch_batches_in_range fuel sdk rt nd cfg latest (Some (lt_signature tx))) (\<lambda>_.
         bindE (chan_send tx) (\<lambda>_. retE True)))))"

text \<open>The future of one announced transaction, and what is done with its result.\<close>

definition fetch_live ::
  "sdk \<Rightarrow> 'w runtime \<Rightarrow> 'w node \<Rightarrow> listener_config \<Rightarrow> signature
     \<Rightarrow> (fault, ('w, 'z) world_scheme, solana_tx option) io" where
  "fetch_live sdk rt nd cfg sig =
     bindE (fetch_transaction sdk rt nd (lc_commitment cfg) sig)
       (\<lambda>status. case status of Failed _ _ \<Rightarrow> retE None | Successful tx \<Rightarrow> retE (Some tx))"

datatype next_move = Continue | Reconnect

definition handle_fetched ::
  "'st signature_state \<Rightarrow> fault + solana_tx option \<Rightarrow> (fault, ('w, 'st) storage_world, next_move) io" where
  "handle_fetched st result =
     (case result of
        Inr (Some tx) \<Rightarrow>
          bindE (chan_send tx) (\<lambda>_. bindE (save_latest st (lt_signature tx)) (\<lambda>_. retE Continue))
      | Inr None \<Rightarrow> retE Continue
      | Inl (Err e) \<Rightarrow> retE Reconnect
      | Inl f \<Rightarrow> failE f)"

text \<open>
  The phases of \<open>process_realtime_logs\<close>. In \<open>Streaming\<close> the second component holds the
  signatures whose fetches are in flight, in the order in which they were announced.
\<close>

datatype phase =
    Connecting
  | AwaitFirst "ws_item round_robin"
  | Streaming "ws_item round_robin" "signature list"
  | Stopped fault

inductive rt_step ::
  "nat \<Rightarrow> sdk \<Rightarrow> 'w runtime \<Rightarrow> 'w node \<Rightarrow> listener_config \<Rightarrow> 'st signature_state
     \<Rightarrow> phase \<times> ('w, 'st) storage_world \<Rightarrow> phase \<times> ('w, 'st) storage_world \<Rightarrow> bool"
  for fuel sdk rt nd cfg st where
  connect:
    "open_streams client cfg = Inr ws \<Longrightarrow> rt_step fuel sdk rt nd cfg st (Connecting, s) (AwaitFirst ws, s)"
| connect_fails:
    "open_streams client cfg = Inl e \<Longrightarrow> rt_step fuel sdk rt nd cfg st (Connecting, s) (Stopped (Err e), s)"
| first_pending:
    "poll_next ws = (Pending, ws') \<Longrightarrow>
     rt_step fuel sdk rt nd cfg st (AwaitFirst ws, s) (AwaitFirst ws', s)"
| first_ended:
    "poll_next ws = (Ended, ws') \<Longrightarrow>
     rt_step fuel sdk rt nd cfg st (AwaitFirst ws, s) (Connecting, s)"
| first_filtered:
    "poll_next ws = (Item i, ws') \<Longrightarrow> ws_err i \<noteq> None \<Longrightarrow>
     rt_step fuel sdk rt nd cfg st (AwaitFirst ws, s) (AwaitFirst ws', s)"
| first_item:
    "poll_next ws = (Item i, ws') \<Longrightarrow> ws_err i = None \<Longrightarrow>
     handle_first fuel sdk rt nd cfg st (ws_signature i) s = (r, s') \<Longrightarrow>
     rt_step fuel sdk rt nd cfg st (AwaitFirst ws, s)
       (case r of Inl f \<Rightarrow> Stopped f | Inr True \<Rightarrow> Streaming ws' [] | Inr False \<Rightarrow> AwaitFirst ws', s')"
| fetched:
    "i < length inflight \<Longrightarrow> fetch_live sdk rt nd cfg (inflight ! i) s = (r, s1) \<Longrightarrow>
     handle_fetched st r s1 = (m, s') \<Longrightarrow>
     rt_step fuel sdk rt nd cfg st (Streaming ws inflight, s)
       (case m of Inl f \<Rightarrow> Stopped f | Inr Reconnect \<Rightarrow> Connecting
        | Inr Continue \<Rightarrow> Streaming ws (without i inflight), s')"
| announced:
    "poll_next ws = (Item i, ws') \<Longrightarrow> ws_err i = None \<Longrightarrow>
     rt_step fuel sdk rt nd cfg st (Streaming ws inflight, s)
       (Streaming ws' (case parse_signature sdk (ws_signature i) of
          Some sig \<Rightarrow> inflight @ [sig] | None \<Rightarrow> inflight), s)"
| filtered:
    "poll_next ws = (Item i, ws') \<Longrightarrow> ws_err i \<noteq> None \<Longrightarrow>
     rt_step fuel sdk rt nd cfg st (Streaming ws inflight, s) (Streaming ws' inflight, s)"
| pending:
    "poll_next ws = (Pending, ws') \<Longrightarrow>
     rt_step fuel sdk rt nd cfg st (Streaming ws inflight, s) (Streaming ws' inflight, s)"
| ended:
    "poll_next ws = (Ended, ws') \<Longrightarrow>
     rt_step fuel sdk rt nd cfg st (Streaming ws inflight, s) (Connecting, s)"

abbreviation rt_run where
  "rt_run fuel sdk rt nd cfg st \<equiv> (rt_step fuel sdk rt nd cfg st)\<^sup>*\<^sup>*"

text \<open>\<open>process_internal\<close>: it never returns normally; the realtime loop starts after the catch-up.\<close>

definition process_internal ::
  "nat \<Rightarrow> sdk \<Rightarrow> 'w runtime \<Rightarrow> 'w node \<Rightarrow> listener_config \<Rightarrow> 'st signature_state \<Rightarrow> string option
     \<Rightarrow> ('w, 'st) storage_world \<Rightarrow> phase \<times> ('w, 'st) storage_world \<Rightarrow> bool" where
  "process_internal fuel sdk rt nd cfg st force s c \<longleftrightarrow>
     (case startup fuel sdk rt nd cfg st force s of
        (Inl f, s') \<Rightarrow> c = (Stopped f, s')
      | (Inr _, s') \<Rightarrow> rt_run fuel sdk rt nd cfg st (Connecting, s') c)"

inductive_cases rt_stepE: "rt_step fuel sdk rt nd cfg st c c'"
inductive_cases rt_stopped: "rt_step fuel sdk rt nd cfg st (Stopped f, s) c'"

section \<open>What the fetching steps leave alone\<close>

text \<open>
  Fetching talks to the node, to which it sends no transaction, and puts transactions on the
  channel, and changes nothing else, in particular not the stored state, however it ends.
\<close>

definition extends :: "('w, 'z) listener_world_scheme \<Rightarrow> ('w, 'z) listener_world_scheme \<Rightarrow> bool" where
  "extends s s' \<longleftrightarrow> (\<exists>e qs ts. list_all (\<lambda>q. \<not> is_send q) qs \<and>
     s' = s\<lparr>env := e, wire := wire s @ qs, chan := chan s @ ts\<rparr>)"

abbreviation extending :: "('f, ('w, 'z) listener_world_scheme, 'a) io \<Rightarrow> bool" where
  "extending \<equiv> moves extends"

named_theorems extending_rules

lemma extends_intro:
  "list_all (\<lambda>q. \<not> is_send q) qs \<Longrightarrow> extends s (s\<lparr>env := e, wire := wire s @ qs, chan := chan s @ ts\<rparr>)"
  unfolding extends_def by blast

lemma extends_refl: "extends s s"
  using extends_intro [where s = s and e = "env s" and qs = "[]" and ts = "[]"] by simp

lemma extends_trans:
  assumes "extends s t" and "extends t u"
  shows "extends s u"
proof -
  from assms obtain e qs ts e' qs' ts' where t: "t = s\<lparr>env := e, wire := wire s @ qs, chan := chan s @ ts\<rparr>"
    and u: "u = t\<lparr>env := e', wire := wire t @ qs', chan := chan t @ ts'\<rparr>"
    and quiet: "list_all (\<lambda>q. \<not> is_send q) (qs @ qs')"
    unfolding extends_def by auto
  from t u have "u = s\<lparr>env := e', wire := wire s @ (qs @ qs'), chan := chan s @ (ts @ ts')\<rparr>" by simp
  with extends_intro [OF quiet] show ?thesis by (simp only:)
qed

interpretation ext: state_order extends
  by unfold_locales (auto intro: extends_refl extends_trans)

lemmas [extending_rules] = ext.rules

lemma extending_rpc [extending_rules]:
  assumes "\<not> is_send q"
  shows "extending (rpc q f)"
proof (rule movesI)
  fix s r and s' :: "('a, 'd) listener_world_scheme"
  assume "rpc q f s = (r, s')"
  from rpc_shape [OF this] obtain e where "s' = s\<lparr>env := e, wire := wire s @ [q]\<rparr>" by blast
  then show "extends s s'" using extends_intro [where s = s and e = e and qs = "[q]" and ts = "[]"] assms by simp
qed

lemma extending_chan_send [extending_rules]: "extending (chan_send tx)"
proof (rule movesI)
  fix s r and s' :: "('a, 'b) listener_world_scheme"
  assume "chan_send tx s = (r, s')"
  then show "extends s s'"
    using extends_intro [where s = s and e = "env s" and qs = "[]" and ts = "[tx]"] extends_refl [of s] by (auto simp: chan_send_def split: if_splits)
qed

lemma extending_fetch [extending_rules]: "extending (fetch_transaction sdk rt nd c sig)"
  unfolding fetch_transaction_def by (intro extending_rules) simp

lemma extending_status [extending_rules]:
  "(\<And>tx. extending (f tx)) \<Longrightarrow> (\<And>tx e. extending (g tx e)) \<Longrightarrow>
   extending (case st of Successful tx \<Rightarrow> f tx | Failed tx e \<Rightarrow> g tx e)"
  by (cases st) simp_all

lemma extending_fetch_one [extending_rules]: "extending (fetch_and_send_one sdk rt nd c sig)"
  unfolding fetch_and_send_one_def by (intro extending_rules)

lemma extending_fetch_and_send [extending_rules]: "extending (fetch_and_send sdk rt nd c sigs)"
proof (rule movesI)
  fix s r and s' :: "('a, 'b) listener_world_scheme"
  assume "fetch_and_send sdk rt nd c sigs s = (r, s')"
  then have "s' = snd (unordered (pick rt) (fetch_and_send_one sdk rt nd c) sigs s)"
    by (auto simp: fetch_and_send_def split: prod.splits)
  then show "extends s s'"
    using unordered_order [of sigs "pick rt" "fetch_and_send_one sdk rt nd c" s]
      ext.run [where f = "fetch_and_send_one sdk rt nd c" and s = s, OF extending_fetch_one] by metis
qed

lemma extending_page [extending_rules]: "extending (fetch_page sdk rt nd rf)"
  unfolding fetch_page_def expect_signature_def by (intro extending_rules) simp

lemma extending_fetching_state [extending_rules]:
  "(\<And>x. extending (f x)) \<Longrightarrow> (\<And>x y. extending (g x y)) \<Longrightarrow>
   extending (case st of Completed x \<Rightarrow> f x | FetchAgain x y \<Rightarrow> g x y)"
  by (cases st) simp_all

lemma extending_scan [extending_rules]: "extending (scan_program fuel sdk rt nd c t1 a t2 acc)"
proof (induction fuel arbitrary: t2 acc)
  case (Suc n)
  then show ?case unfolding scan_program.simps by (intro extending_rules Suc)
qed (simp only: scan_program.simps ext.fail)

lemma extending_batches [extending_rules]:
  "extending (fetch_batches_in_range fuel sdk rt nd cfg t1 t2)"
  unfolding fetch_batches_in_range_def by (intro extending_rules)

lemma extending_live [extending_rules]: "extending (fetch_live sdk rt nd cfg sig)"
  unfolding fetch_live_def by (intro extending_rules)

lemma extending_load [extending_rules]: "extending (load_latest st)"
  by (simp add: moves_def load_latest_def)

lemma extending_first [extending_rules]: "extending (handle_first fuel sdk rt nd cfg st str)"
  unfolding handle_first_def by (intro extending_rules)

section \<open>Forwarded before recorded\<close>

definition recorded ::
  "'st signature_state \<Rightarrow> ('st \<Rightarrow> bool) \<Rightarrow> ('w, 'st) storage_world \<Rightarrow> ('w, 'st) storage_world \<Rightarrow> bool" where
  "recorded st valid s0 s \<longleftrightarrow> valid (store s) \<and>
     (\<exists>ts. chan s = chan s0 @ ts \<and>
        (store s = store s0 \<or> (\<exists>tx \<in> set ts. latest_sig st (store s) = Inr (as_option (lt_signature tx)))))"

locale signature_store = register "latest_sig st" "set_latest_sig st" 0 valid
  for st :: "'st signature_state" and valid :: "'st \<Rightarrow> bool"
begin

lemma recorded_extends: "recorded st valid s0 s \<Longrightarrow> extends s s' \<Longrightarrow> recorded st valid s0 s'"
  unfolding recorded_def extends_def by auto

lemma handle_fetched_recorded:
  assumes "recorded st valid s0 s" and "handle_fetched st r s = (m, s')"
  shows "recorded st valid s0 s'"
proof (cases "\<exists>tx. r = Inr (Some tx)")
  case True
  then obtain tx where r: "r = Inr (Some tx)" by blast
  show ?thesis
  proof (cases "chan_open s")
    case True
    define s1 where "s1 = s\<lparr>chan := chan s @ [tx]\<rparr>"
    obtain q b where b: "set_latest_sig st (lt_signature tx) (store s) = (q, b)" by fastforce
    with assms(1) have "valid b" and "latest_sig st b = Inr (as_option (lt_signature tx))"
      using set_valid [of "store s" "lt_signature tx"] get_set [of "store s" "lt_signature tx"]
      by (auto simp: recorded_def)
    moreover from assms(2) True b r have "s' = s1\<lparr>store := b\<rparr>"
      by (cases q) (auto simp: handle_fetched_def chan_send_def save_latest_def bindE_def s1_def)
    ultimately show ?thesis using assms(1) by (auto simp: recorded_def s1_def)
  next
    case False
    with assms r show ?thesis by (auto simp: handle_fetched_def chan_send_def bindE_def)
  qed
next
  case False
  with assms show ?thesis
    by (cases r) (auto simp: handle_fetched_def split: fault.splits option.splits)
qed

lemma rt_step_recorded:
  assumes "rt_step fuel sdk rt nd cfg st (p, s) (p', s')" and "recorded st valid s0 s"
  shows "recorded st valid s0 s'"
  using assms(1)
proof (cases rule: rt_step.cases)
  case (first_item ws i ws' r)
  then have "extends s s'" using movesD [OF extending_first] by blast
  with assms(2) show ?thesis by (rule recorded_extends)
next
  case (fetched i inflight r s1 m ws)
  then have "extends s s1" using movesD [OF extending_live] by blast
  with assms(2) have "recorded st valid s0 s1" by (rule recorded_extends)
  with fetched show ?thesis using handle_fetched_recorded by blast
qed (use assms(2) in auto)

lemma rt_run_recorded:
  assumes "rt_run fuel sdk rt nd cfg st (p0, s0) (p, s)" and "valid (store s0)"
  shows "recorded st valid s0 s"
  using assms(1)
proof (induction rule: rtranclp_induct2)
  case refl
  show ?case using assms(2) by (simp add: recorded_def)
next
  case (step p1 s1 p2 s2)
  then show ?case using rt_step_recorded by blast
qed

lemma startup_run:
  assumes srv: "serves sdk nd (lc_commitment cfg) enc hist" and ans: "answers rt nd (lc_commitment cfg) db"
    and opened: "chan_open s" and ok: "valid (store s)" and latest: "latest_sig st (store s) = Inr latest"
    and flush: "\<And>x m. valid m \<Longrightarrow> fst (set_latest_sig st x m) = Inr ()"
    and gw: "gw = sig_range (hist (lc_gateway cfg)) None latest"
    and gas: "gas = sig_range (hist (lc_gas_service cfg)) None latest"
    and len: "length gw < scan_limit * Suc n" "length gas < scan_limit * Suc n"
  shows "\<exists>s'. startup (Suc n) sdk rt nd cfg st None s = (Inr (), s') \<and>
     caught_up sdk db (map fst (gw @ gas)) s s' \<and> valid (store s') \<and>
     latest_sig st (store s') = Inr (case fst (fold noted (page_heads gw @ page_heads gas) (None, None)) of
        None \<Rightarrow> latest | Some x \<Rightarrow> as_option x)"
proof -
  let ?newest = "fst (fold noted (page_heads gw @ page_heads gas) (None, None))"
  from fetch_batches_run [OF srv ans opened gw gas len] obtain s1 where
    run: "fetch_batches_in_range (Suc n) sdk rt nd cfg latest None s = (Inr ?newest, s1)"
    and cu: "caught_up sdk db (map fst (gw @ gas)) s s1" by blast
  from movesD [OF extending_batches run] have st1: "store s1 = store s"
    by (auto simp: extends_def)
  have start: "startup (Suc n) sdk rt nd cfg st None s =
      (case ?newest of None \<Rightarrow> retE () | Some sig \<Rightarrow> save_latest st sig) s1"
    by (simp add: startup_def bindE_def load_latest_def latest run)
  show ?thesis
  proof (cases ?newest)
    case None
    with start cu st1 ok latest show ?thesis by auto
  next
    case (Some sig)
    obtain b where b: "set_latest_sig st sig (store s1) = (Inr (), b)"
      using flush [of "store s1" sig] ok st1 by (metis prod.collapse)
    with ok st1 have "valid b" and "latest_sig st b = Inr (as_option sig)"
      using set_valid [of "store s" sig] get_set [of "store s" sig] by auto
    moreover from cu have "caught_up sdk db (map fst (gw @ gas)) s (s1\<lparr>store := b\<rparr>)"
      by (simp add: caught_up_def)
    ultimately show ?thesis using start Some b
      by (intro exI [of _ "s1\<lparr>store := b\<rparr>"]) (simp add: save_latest_def)
  qed
qed

end

interpretation memmap: signature_store "memmap_state os" "\<lambda>bs. length bs = state_len" for os
  by unfold_locales (auto simp: memmap_state_def signed.get_total signed.set_valid signed.get_set)

section \<open>Streaming\<close>

text \<open>The part of a run in which one connection is streaming.\<close>

inductive stream_run ::
  "nat \<Rightarrow> sdk \<Rightarrow> 'w runtime \<Rightarrow> 'w node \<Rightarrow> listener_config \<Rightarrow> 'st signature_state
     \<Rightarrow> ws_item round_robin \<Rightarrow> ('w, 'st) storage_world
     \<Rightarrow> ws_item round_robin \<Rightarrow> signature list \<Rightarrow> ('w, 'st) storage_world \<Rightarrow> bool"
  for fuel sdk rt nd cfg st ws0 s0 where
  start: "stream_run fuel sdk rt nd cfg st ws0 s0 ws0 [] s0"
| more: "stream_run fuel sdk rt nd cfg st ws0 s0 ws inflight s \<Longrightarrow>
     rt_step fuel sdk rt nd cfg st (Streaming ws inflight, s) (Streaming ws' inflight', s') \<Longrightarrow>
     stream_run fuel sdk rt nd cfg st ws0 s0 ws' inflight' s'"

definition announced_signatures :: "sdk \<Rightarrow> ws_item list \<Rightarrow> signature list" where
  "announced_signatures sdk =
     List.map_filter (\<lambda>i. if ws_err i = None then parse_signature sdk (ws_signature i) else None)"

lemma announced_simps [simp]:
  "announced_signatures sdk [] = []"
  "announced_signatures sdk (i # is) =
     (if ws_err i = None then (case parse_signature sdk (ws_signature i) of None \<Rightarrow> [] | Some sig \<Rightarrow> [sig]) else [])
     @ announced_signatures sdk is"
  by (auto simp: announced_signatures_def List.map_filter_simps split: option.splits)

lemma announced_append:
  "announced_signatures sdk (xs @ ys) = announced_signatures sdk xs @ announced_signatures sdk ys"
  by (induction xs) simp_all

lemma shuffles_append:
  "zs \<in> shuffles xs ys \<Longrightarrow> us \<in> shuffles as bs \<Longrightarrow> zs @ us \<in> shuffles (xs @ as) (ys @ bs)"
proof (induction xs ys arbitrary: zs rule: shuffles.induct)
  case (1 ys)
  then show ?case by (simp add: shuffles_front2)
next
  case (2 xs)
  then have "zs = xs" by (cases xs) auto
  with 2 show ?case using shuffles_front1 [of us as bs xs] by simp
next
  case (3 x xs y ys)
  then consider zs' where "zs = x # zs'" "zs' \<in> shuffles xs (y # ys)"
    | zs' where "zs = y # zs'" "zs' \<in> shuffles (x # xs) ys" by auto
  then show ?case
  proof cases
    case 1
    with 3 show ?thesis by (auto intro: Cons_in_shuffles_leftI)
  next
    case 2
    with 3 show ?thesis by (auto intro: Cons_in_shuffles_rightI)
  qed
qed

definition streamed ::
  "sdk \<Rightarrow> (signature \<Rightarrow> client_error + encoded_tx) \<Rightarrow> ws_item round_robin \<Rightarrow> ('w, 'st) storage_world
     \<Rightarrow> ws_item round_robin \<Rightarrow> signature list \<Rightarrow> ('w, 'st) storage_world \<Rightarrow> bool" where
  "streamed sdk db ws0 s0 ws inflight s \<longleftrightarrow> chan_open s \<and>
     (\<exists>xs ys zs done_sigs.
        items (stream1 ws0) = xs @ items (stream1 ws) \<and> items (stream2 ws0) = ys @ items (stream2 ws) \<and>
        zs \<in> shuffles xs ys \<and>
        mset (announced_signatures sdk zs) = mset done_sigs + mset inflight \<and>
        chan s = chan s0 @ delivered sdk db done_sigs)"

lemma streamed_poll:
  assumes "streamed sdk db ws0 s0 ws inflight s" and "poll_next ws = (p, ws')"
    and "announced_signatures sdk (items [p]) = new"
  shows "streamed sdk db ws0 s0 ws' (inflight @ new) s"
proof -
  from assms(1) obtain xs ys zs ds where
    *: "items (stream1 ws0) = xs @ items (stream1 ws)" "items (stream2 ws0) = ys @ items (stream2 ws)"
      "zs \<in> shuffles xs ys" "mset (announced_signatures sdk zs) = mset ds + mset inflight"
      "chan s = chan s0 @ delivered sdk db ds" "chan_open s"
    unfolding streamed_def by blast
  have new: "mset (announced_signatures sdk (zs @ items [p])) = mset ds + mset (inflight @ new)"
    using *(4) assms(3) by (simp add: announced_append)
  from poll_next_split [OF assms(2)] show ?thesis
  proof
    assume a: "items (stream1 ws) = items [p] @ items (stream1 ws') \<and> items (stream2 ws) = items (stream2 ws')"
    have "zs @ items [p] \<in> shuffles (xs @ items [p]) (ys @ [])" using *(3) by (intro shuffles_append) simp_all
    with a * new show ?thesis unfolding streamed_def
      by (intro conjI exI [of _ "xs @ items [p]"] exI [of _ ys] exI [of _ "zs @ items [p]"] exI [of _ ds]) simp_all
  next
    assume a: "items (stream2 ws) = items [p] @ items (stream2 ws') \<and> items (stream1 ws) = items (stream1 ws')"
    have "zs @ items [p] \<in> shuffles (xs @ []) (ys @ items [p])" using *(3) by (intro shuffles_append) simp_all
    with a * new show ?thesis unfolding streamed_def
      by (intro conjI exI [of _ xs] exI [of _ "ys @ items [p]"] exI [of _ "zs @ items [p]"] exI [of _ ds]) simp_all
  qed
qed

lemma fetch_live_result:
  assumes ans: "answers rt nd (lc_commitment cfg) db"
    and run: "fetch_live sdk rt nd cfg sig s = (r, s1)"
    and next_run: "handle_fetched st r s1 = (Inr Continue, s')" and opened: "chan_open s"
  shows "chan_open s' \<and> chan s' = chan s @ ok_tx (status_of sdk db sig)"
proof -
  obtain q s2 where q: "fetch_transaction sdk rt nd (lc_commitment cfg) sig s = (q, s2)" by fastforce
  with fetch_answers [OF ans, of sdk sig s] have st: "q = status_of sdk db sig" by simp
  from fetch_shape [OF q] obtain e where
    s2: "s2 = s\<lparr>env := e, wire := wire s @ [ReqTransaction (node_tag nd) sig]\<rparr>" by blast
  show ?thesis
  proof (cases q)
    case (Inl f)
    with q run have "r = Inl f" by (simp add: fetch_live_def bindE_def)
    with next_run show ?thesis by (cases f) (auto simp: handle_fetched_def)
  next
    case (Inr status)
    show ?thesis
    proof (cases status)
      case (Failed tx e)
      with Inr q run have "r = Inr None" "s1 = s2" by (auto simp: fetch_live_def bindE_def)
      moreover have "ok_tx (status_of sdk db sig) = []"
        using st [symmetric] Inr Failed by simp
      ultimately show ?thesis using next_run s2 opened by (auto simp: handle_fetched_def)
    next
      case (Successful tx)
      with Inr q run have "r = Inr (Some tx)" "s1 = s2" by (auto simp: fetch_live_def bindE_def)
      moreover have "ok_tx (status_of sdk db sig) = [tx]"
        using st [symmetric] Inr Successful by simp
      ultimately show ?thesis using next_run s2 opened
        by (auto simp: handle_fetched_def bindE_def chan_send_def save_latest_def
            split: prod.splits sum.splits)
    qed
  qed
qed

lemma streamed_step:
  assumes ans: "answers rt nd (lc_commitment cfg) db"
    and inv: "streamed sdk db ws0 s0 ws inflight s"
    and step: "rt_step fuel sdk rt nd cfg st (Streaming ws inflight, s) (Streaming ws' inflight', s')"
  shows "streamed sdk db ws0 s0 ws' inflight' s'"
  using step
proof (cases rule: rt_step.cases)
  case (fetched i r s1 m)
  then have m: "m = Inr Continue" "ws' = ws" "inflight' = without i inflight"
    by (auto split: sum.splits next_move.splits)
  from inv have "chan_open s" by (simp add: streamed_def)
  from fetch_live_result [OF ans _ _ this] fetched m
  have ch: "chan_open s' \<and> chan s' = chan s @ ok_tx (status_of sdk db (inflight ! i))" by blast
  have split: "mset inflight = add_mset (inflight ! i) (mset (without i inflight))"
    using fetched by (simp add: mset_without)
  from inv obtain xs ys zs ds where
    "items (stream1 ws0) = xs @ items (stream1 ws)" "items (stream2 ws0) = ys @ items (stream2 ws)"
    "zs \<in> shuffles xs ys" "mset (announced_signatures sdk zs) = mset ds + mset inflight"
    "chan s = chan s0 @ delivered sdk db ds"
    unfolding streamed_def by blast
  with ch split m show ?thesis unfolding streamed_def
    by (intro conjI exI [of _ xs] exI [of _ ys] exI [of _ zs] exI [of _ "ds @ [inflight ! i]"]) simp_all
next
  case (announced i)
  then show ?thesis
    using streamed_poll [OF inv, of "Item i" ws' "case parse_signature sdk (ws_signature i) of None \<Rightarrow> [] | Some sig \<Rightarrow> [sig]"]
    by (auto split: option.splits)
next
  case (filtered i)
  then show ?thesis using streamed_poll [OF inv, of "Item i" ws' "[]"]
    by (auto split: if_splits)
next
  case pending
  then show ?thesis using streamed_poll [OF inv, of "Pending" ws' "[]"]
    by simp
qed

lemma stream_run_streamed:
  assumes "stream_run fuel sdk rt nd cfg st ws0 s0 ws inflight s"
    and ans: "answers rt nd (lc_commitment cfg) db" and "chan_open s0"
  shows "streamed sdk db ws0 s0 ws inflight s"
  using assms(1)
proof induction
  case start
  show ?case using assms(3) unfolding streamed_def
    by (intro conjI exI [of _ "[]"]) simp_all
next
  case (more ws inflight s ws' inflight' s')
  then show ?case using streamed_step [OF ans] by blast
qed

section \<open>The handlers on a node that serves the documented methods\<close>

lemma status_signature: "status_of sdk db sig = Inr st \<Longrightarrow> lt_signature (status_tx st) = sig"
  by (auto simp: status_of_def dest: parse_transaction_signature split: sum.splits)

lemma handle_first_run:
  assumes srv: "serves sdk nd (lc_commitment cfg) enc hist" and ans: "answers rt nd (lc_commitment cfg) db"
    and opened: "chan_open s" and latest: "latest_sig st (store s) = Inr latest"
    and tx: "status_of sdk db sig = Inr (Successful tx)"
    and gw: "gw = sig_range (hist (lc_gateway cfg)) (Some sig) latest"
    and gas: "gas = sig_range (hist (lc_gas_service cfg)) (Some sig) latest"
    and len: "length gw < scan_limit * Suc n" "length gas < scan_limit * Suc n"
  shows "\<exists>s' ts. handle_first (Suc n) sdk rt nd cfg st (enc sig) s = (Inr True, s') \<and>
     chan_open s' \<and> store s' = store s \<and> chan s' = chan s @ ts @ [tx] \<and>
     mset ts = mset (delivered sdk db (map fst (gw @ gas)))"
proof -
  obtain q s1 where q: "fetch_transaction sdk rt nd (lc_commitment cfg) sig s = (q, s1)" by fastforce
  with fetch_answers [OF ans, of sdk sig s] tx have st: "q = Inr (Successful tx)" by simp
  from fetch_shape [OF q] obtain e where
    s1: "s1 = s\<lparr>env := e, wire := wire s @ [ReqTransaction (node_tag nd) sig]\<rparr>" by blast
  then have s1': "chan_open s1" "latest_sig st (store s1) = Inr latest" "chan s1 = chan s" "store s1 = store s"
    using opened latest by simp_all
  from fetch_batches_run [OF srv ans s1'(1) gw gas len] obtain newest s2 where
    run: "fetch_batches_in_range (Suc n) sdk rt nd cfg latest (Some sig) s1 = (Inr newest, s2)"
    and cu: "caught_up sdk db (map fst (gw @ gas)) s1 s2" by blast
  from movesD [OF extending_batches run] have s2: "store s2 = store s1" by (auto simp: extends_def)
  from cu s1' obtain ts where ts: "chan s2 = chan s @ ts" "mset ts = mset (delivered sdk db (map fst (gw @ gas)))"
    "chan_open s2" by (auto simp: caught_up_def)
  have sig: "lt_signature tx = sig" using status_signature [OF tx] by simp
  have enc: "parse_signature sdk (enc sig) = Some sig" using srv by (simp add: serves_def)
  have "handle_first (Suc n) sdk rt nd cfg st (enc sig) s = (Inr True, s2\<lparr>chan := chan s2 @ [tx]\<rparr>)"
    using run ts(3) by (simp add: handle_first_def bindE_def enc q st load_latest_def s1'(2) sig chan_send_def)
  with ts s2 s1' show ?thesis
    by (intro exI [of _ "s2\<lparr>chan := chan s2 @ [tx]\<rparr>"] exI [of _ ts]) simp
qed

lemma fetched_run:
  assumes ans: "answers rt nd (lc_commitment cfg) db" and opened: "chan_open s"
    and tx: "status_of sdk db sig = Inr (Successful tx)"
    and save: "set_latest_sig st sig (store s) = (Inr (), b)"
  shows "\<exists>r s1 s'. fetch_live sdk rt nd cfg sig s = (r, s1) \<and> handle_fetched st r s1 = (Inr Continue, s') \<and>
     chan_open s' \<and> chan s' = chan s @ [tx] \<and> store s' = b"
proof -
  obtain q s1 where q: "fetch_transaction sdk rt nd (lc_commitment cfg) sig s = (q, s1)" by fastforce
  with fetch_answers [OF ans, of sdk sig s] tx have st: "q = Inr (Successful tx)" by simp
  from fetch_shape [OF q] obtain e where
    s1: "s1 = s\<lparr>env := e, wire := wire s @ [ReqTransaction (node_tag nd) sig]\<rparr>" by blast
  have sig: "lt_signature tx = sig" using status_signature [OF tx] by simp
  from q st have "fetch_live sdk rt nd cfg sig s = (Inr (Some tx), s1)"
    by (simp add: fetch_live_def bindE_def)
  moreover have "handle_fetched st (Inr (Some tx)) s1 =
      (Inr Continue, s1\<lparr>chan := chan s1 @ [tx], store := b\<rparr>)"
    using s1 opened save sig by (simp add: handle_fetched_def bindE_def chan_send_def save_latest_def)
  ultimately show ?thesis using s1 opened by (intro exI conjI) (assumption | simp)+
qed

section \<open>Properties\<close>

text \<open>
  A gateway with four transactions, announced on two connections: the first ends while the
  second transaction is still being fetched.
\<close>

definition live_config :: listener_config where
  "live_config = \<lparr>lc_gateway = 1, lc_gas_service = 2, lc_ws = ''ws://node'', lc_poll_period_ms = 1000,
     lc_commitment = Finalized\<rparr>"

definition live_history :: "pubkey \<Rightarrow> history" where
  "live_history a = (if a = 1 then [(4, 4), (3, 3), (2, 2), (1, 1)] else [])"

definition live_db :: "signature \<Rightarrow> client_error + encoded_tx" where
  "live_db sig = Inr (plain_tx [1] [\<lparr>ci_program = 0, ci_accounts = [], ci_data = []\<rparr>] 5000)"

definition live_tx :: "signature \<Rightarrow> solana_tx" where
  "live_tx sig = \<lparr>lt_signature = sig, lt_timestamp = Some 0, lt_logs = [], lt_account_keys = [1],
     lt_ixs = [(1, [], [])], lt_inner_ixs = [], lt_slot = 1, lt_cost = 5000\<rparr>"

abbreviation live_node :: "nat node" where
  "live_node \<equiv> ledger_node MainNode live_history live_db"

definition live_world :: "(nat, bytes) storage_world" where
  "live_world = \<lparr>env = 0, wire = [], chan = [], chan_open = True, store = bytes_of default_state\<rparr>"

definition announce :: "signature \<Rightarrow> ws_item polled" where
  "announce sig = Item \<lparr>ws_signature = decimal sig, ws_err = None\<rparr>"

lemma live_serves: "serves decimal_sdk live_node c decimal live_history"
  by (rule serves_ledger_node) (simp add: live_history_def)

lemma live_status: "status_of decimal_sdk live_db sig = Inr (Successful (live_tx sig))"
  by (simp add: status_of_def live_db_def parse_transaction_def plain_tx_def resolve_ix_def
      account_at_def loaded_keys_def Let_def live_tx_def decimal_sdk_def)

lemma live_ranges:
  "sig_range (live_history 1) (Some 1) None = []" "sig_range (live_history 2) b u = []"
  "sig_range (live_history 1) (Some 4) (Some 3) = []"
  "sig_range (live_history 1) None None = [(4, 4), (3, 3), (2, 2), (1, 1)]"
  by (auto simp: sig_range_def older_than_def newer_than_def live_history_def split: option.splits)

lemma live_first:
  assumes "chan_open s" and "processed_signature (store s) = Inr latest"
    and "sig_range (live_history 1) (Some sig) latest = []"
  shows "\<exists>s'. handle_first (Suc 0) decimal_sdk counting_runtime live_node live_config (memmap_state fair_os)
       (decimal sig) s = (Inr True, s') \<and> chan_open s' \<and> store s' = store s \<and> chan s' = chan s @ [live_tx sig]"
  using handle_first_run [where n = 0 and cfg = live_config and st = "memmap_state fair_os" and s = s
      and latest = latest and sig = sig, OF live_serves answers_ledger_node assms(1) _ live_status refl refl] assms(2,3)
  by (fastforce simp: live_config_def memmap_state_def live_ranges scan_limit_def)

lemma live_fetched:
  assumes "chan_open s" and "store s = bytes_of m"
  shows "\<exists>r s1 s'. fetch_live decimal_sdk counting_runtime live_node live_config sig s = (r, s1) \<and>
     handle_fetched (memmap_state fair_os) r s1 = (Inr Continue, s') \<and>
     chan_open s' \<and> chan s' = chan s @ [live_tx sig] \<and> store s' = bytes_of (m\<lparr>latest_processed_signature := sig\<rparr>)"
  by (rule fetched_run [OF answers_ledger_node assms(1) live_status])
    (simp add: assms(2) memmap_state_def storage_defs fair_os_def os_result_def Let_def)

lemma connects:
  assumes "lc_gateway cfg \<noteq> lc_gas_service cfg"
  shows "rt_step fuel sdk rt nd cfg st (Connecting, s) (AwaitFirst (round_robin_two_streams gateway gas), s)"
  using assms
  by (intro connect [of "\<lparr>ps_new = \<lambda>url. None, logs_subscribe = \<lambda>k c. Inr (if k = lc_gateway cfg then gateway else gas)\<rparr>"])
    (simp add: open_streams_def sub_to_logs_def)

lemma connected_run:
  fixes i :: ws_item
  assumes "handle_first fuel sdk rt nd cfg st (ws_signature i) s = (Inr True, s')" and "ws_err i = None"
    and "lc_gateway cfg \<noteq> lc_gas_service cfg"
  shows "rt_run fuel sdk rt nd cfg st (Connecting, s)
     (Streaming \<lparr>poll_first = True, stream1 = ps, stream2 = []\<rparr> [], s')"
proof -
  have "rt_step fuel sdk rt nd cfg st (Connecting, s) (AwaitFirst (round_robin_two_streams (Item i # ps) []), s)"
    using assms(3) by (rule connects)
  moreover have "poll_next (round_robin_two_streams (Item i # ps) []) =
      (Item i, \<lparr>poll_first = True, stream1 = ps, stream2 = []\<rparr>)"
    by (simp add: poll_next_def poll_round_def round_robin_two_streams_def)
  from first_item [OF this assms(2,1)]
  have "rt_step fuel sdk rt nd cfg st (AwaitFirst (round_robin_two_streams (Item i # ps) []), s)
      (Streaming \<lparr>poll_first = True, stream1 = ps, stream2 = []\<rparr> [], s')" by simp
  ultimately show ?thesis by (rule converse_rtranclp_into_rtranclp [OF _ r_into_rtranclp])
qed

lemma announced_run:
  fixes i :: ws_item
  assumes "parse_signature sdk (ws_signature i) = Some sig" and "ws_err i = None"
  shows "\<exists>b'. rt_step fuel sdk rt nd cfg st (Streaming \<lparr>poll_first = b, stream1 = Item i # ps, stream2 = []\<rparr> infl, s)
     (Streaming \<lparr>poll_first = b', stream1 = ps, stream2 = []\<rparr> (infl @ [sig]), s)"
proof -
  have "poll_next \<lparr>poll_first = b, stream1 = Item i # ps, stream2 = []\<rparr> =
      (Item i, \<lparr>poll_first = \<not> b, stream1 = ps, stream2 = []\<rparr>)"
    by (cases b) (simp_all add: poll_next_def poll_round_def)
  from announced [OF this assms(2), of fuel sdk rt nd cfg st infl s] assms(1) show ?thesis by auto
qed

text \<open>
  Forward before recording: in every run of the realtime loop, however the node answers and
  the fetches interleave, the stored signature is the one the run started with or that of a
  transaction that this run has already put on the channel; the channel only grows, and the
  stored file stays well formed.
\<close>

theorem recorded_after_forwarded:
  assumes "rt_run fuel sdk rt nd cfg (memmap_state os) (p0, s0) (p, s)"
    and "length (store s0) = state_len"
  shows "length (store s) = state_len \<and>
    (\<exists>ts. chan s = chan s0 @ ts \<and>
       (store s = store s0 \<or>
        (\<exists>tx \<in> set ts. processed_signature (store s) = Inr (as_option (lt_signature tx)))))"
  using memmap.rt_run_recorded [OF assms] by (simp add: recorded_def memmap_state_def)

lemma recorded_after_forwarded_witness:
  "\<exists>ws s. rt_run 1 decimal_sdk counting_runtime live_node live_config (memmap_state fair_os)
     (Connecting, live_world) (AwaitFirst ws, s) \<and> length (store s) = state_len"
proof -
  have "rt_run 1 decimal_sdk counting_runtime live_node live_config (memmap_state fair_os)
     (Connecting, live_world) (AwaitFirst (round_robin_two_streams [announce 1] []), live_world)"
    by (rule r_into_rtranclp, rule connects) (simp add: live_config_def)
  moreover from recorded_after_forwarded [OF this] have "length (store live_world) = state_len"
    by (simp add: live_world_def)
  ultimately show ?thesis by blast
qed

text \<open>
  C16. While a connection streams, nothing announced is lost or repeated: what the two
  subscriptions have delivered is an interleaving of their announcements, and each announced
  signature is either still in flight or has been handled, once; the channel has grown by
  exactly the successful transactions among those handled, in the order of completion.
\<close>

theorem streaming_loses_nothing:
  assumes "stream_run fuel sdk rt nd cfg st ws0 s0 ws inflight s"
    and "answers rt nd (lc_commitment cfg) db" and "chan_open s0"
  shows "\<exists>xs ys zs handled.
     items (stream1 ws0) = xs @ items (stream1 ws) \<and> items (stream2 ws0) = ys @ items (stream2 ws) \<and>
     zs \<in> shuffles xs ys \<and>
     mset (announced_signatures sdk zs) = mset handled + mset inflight \<and>
     chan s = chan s0 @ delivered sdk db handled"
  using stream_run_streamed [OF assms] unfolding streamed_def by blast

lemma streaming_loses_nothing_witness:
  "\<exists>ws s. stream_run 1 decimal_sdk counting_runtime live_node live_config (memmap_state fair_os)
       \<lparr>poll_first = False, stream1 = [announce 2], stream2 = []\<rparr> live_world ws [2] s \<and>
     (\<exists>handled. chan s = delivered decimal_sdk live_db handled)"
proof -
  let ?ws = "\<lparr>poll_first = False, stream1 = [announce 2], stream2 = []\<rparr>"
  have poll: "poll_next ?ws = (announce 2, \<lparr>poll_first = True, stream1 = [], stream2 = []\<rparr>)"
    by (simp add: poll_next_def poll_round_def announce_def)
  have "stream_run 1 decimal_sdk counting_runtime live_node live_config (memmap_state fair_os)
      ?ws live_world \<lparr>poll_first = True, stream1 = [], stream2 = []\<rparr> [2] live_world"
    using more [OF start announced [OF poll [unfolded announce_def]], of 1 decimal_sdk counting_runtime
        live_node live_config "memmap_state fair_os" live_world]
    by (simp add: decimal_sdk_def announce_def)
  moreover from streaming_loses_nothing [OF this answers_ledger_node]
  have "\<exists>handled. chan live_world = delivered decimal_sdk live_db handled"
    by (auto simp: live_world_def)
  ultimately show ?thesis by blast
qed

lemma startup_forwards:
  assumes "serves sdk nd (lc_commitment cfg) enc hist" and "answers rt nd (lc_commitment cfg) db"
    and "chan_open s" and "length (store s) = state_len"
    and "processed_signature (store s) = Inr latest"
    and "gw = sig_range (hist (lc_gateway cfg)) None latest"
    and "gas = sig_range (hist (lc_gas_service cfg)) None latest"
    and "length gw < scan_limit * Suc n" and "length gas < scan_limit"
    and "newest_first gw" and "newest_first gas"
  shows "\<exists>s' ts. startup (Suc n) sdk rt nd cfg (memmap_state fair_os) None s = (Inr (), s') \<and>
     chan s' = chan s @ ts \<and> mset ts = mset (delivered sdk db (map fst (gw @ gas))) \<and>
     processed_signature (store s') =
       Inr (case newest_in gw gas of None \<Rightarrow> latest | Some x \<Rightarrow> as_option x)"
proof -
  have flush: "fst (set_latest_sig (memmap_state fair_os) x m) = Inr ()" if "length m = state_len" for x m
    using from_bytes_total [OF that]
    by (auto simp: memmap_state_def storage_defs fair_os_def os_result_def Let_def)
  have latest: "latest_sig (memmap_state fair_os) = processed_signature" by (simp add: memmap_state_def)
  have "length gas < scan_limit * Suc n" using assms(9) by (simp add: scan_limit_def)
  from memmap.startup_run [where os = fair_os, OF assms(1-4) assms(5) [folded latest] flush assms(6-8) this]
  show ?thesis using fold_noted_newest [OF assms(10,11)] assms(9)
    by (fastforce simp: caught_up_def latest)
qed





text \<open>The first connection: 1 starts it, 2 and 3 are announced, 3 completes, and the connection ends.\<close>

abbreviation live_run where
  "live_run \<equiv> rt_run (Suc 0) decimal_sdk counting_runtime live_node live_config (memmap_state fair_os)"

abbreviation live_item :: "signature \<Rightarrow> ws_item" where
  "live_item sig \<equiv> \<lparr>ws_signature = decimal sig, ws_err = None\<rparr>"

lemma live_announced:
  "\<exists>b'. live_run (Streaming \<lparr>poll_first = b, stream1 = Item (live_item sig) # ps, stream2 = []\<rparr> infl, s)
     (Streaming \<lparr>poll_first = b', stream1 = ps, stream2 = []\<rparr> (infl @ [sig]), s)"
proof -
  have "parse_signature decimal_sdk (ws_signature (live_item sig)) = Some sig" by (simp add: decimal_sdk_def)
  from announced_run [OF this] show ?thesis by (meson r_into_rtranclp ws_item.select_convs(2))
qed

lemma live_ended:
  "live_run (Streaming \<lparr>poll_first = b, stream1 = [Ended], stream2 = []\<rparr> infl, s) (Connecting, s)"
proof -
  have "poll_next \<lparr>poll_first = b, stream1 = [Ended], stream2 = []\<rparr> =
      (Ended, \<lparr>poll_first = \<not> b, stream1 = [Ended], stream2 = []\<rparr> :: ws_item round_robin)"
    by (cases b) (simp_all add: poll_next_def poll_round_def)
  from ended [OF this] show ?thesis by (rule r_into_rtranclp)
qed

lemma live_first_connection:
  "\<exists>s3. live_run (Connecting, live_world) (Connecting, s3) \<and> chan_open s3 \<and> chan s3 = [live_tx 1, live_tx 3] \<and>
     store s3 = bytes_of (default_state\<lparr>latest_processed_signature := 3\<rparr>)"
proof -
  have "chan_open live_world" "processed_signature (store live_world) = Inr None"
    by (simp_all add: live_world_def storage_defs default_state_def)
  from live_first [OF this live_ranges(1)] obtain s1 where
    h1: "handle_first (Suc 0) decimal_sdk counting_runtime live_node live_config
       (memmap_state fair_os) (decimal (1 :: signature)) live_world = (Inr True, s1)"
    and s1: "chan_open s1" "store s1 = bytes_of default_state" "chan s1 = [live_tx 1]"
    by (auto simp: live_world_def)
  obtain r s2 s3 where f: "fetch_live decimal_sdk counting_runtime live_node live_config 3 s1 = (r, s2)"
    "handle_fetched (memmap_state fair_os) r s2 = (Inr Continue, s3)"
    and s3: "chan_open s3" "chan s3 = [live_tx 1, live_tx 3]"
      "store s3 = bytes_of (default_state\<lparr>latest_processed_signature := 3\<rparr>)"
    using live_fetched [OF s1(1,2), of 3] s1(3) by auto
  have "live_run (Connecting, live_world)
      (Streaming \<lparr>poll_first = True, stream1 = [Item (live_item 2), Item (live_item 3), Ended], stream2 = []\<rparr> [], s1)"
    by (rule connected_run [of _ _ _ _ _ _ "live_item 1"]) (simp_all add: h1, simp add: live_config_def)
  moreover obtain b1 b2 where
    "live_run (Streaming \<lparr>poll_first = True, stream1 = [Item (live_item 2), Item (live_item 3), Ended], stream2 = []\<rparr> [], s1)
      (Streaming \<lparr>poll_first = b1, stream1 = [Item (live_item 3), Ended], stream2 = []\<rparr> ([] @ [2]), s1)"
    "live_run (Streaming \<lparr>poll_first = b1, stream1 = [Item (live_item 3), Ended], stream2 = []\<rparr> ([] @ [2]), s1)
      (Streaming \<lparr>poll_first = b2, stream1 = [Ended], stream2 = []\<rparr> (([] @ [2]) @ [3]), s1)"
    using live_announced by metis
  moreover have "live_run (Streaming \<lparr>poll_first = b2, stream1 = [Ended], stream2 = []\<rparr> (([] @ [2]) @ [3]), s1)
      (Streaming \<lparr>poll_first = b2, stream1 = [Ended], stream2 = []\<rparr> [2], s3)"
    using fetched [of 1 "[2, 3]", OF _ _ f(2)] f(1) by (fastforce simp: without_def)
  ultimately have "live_run (Connecting, live_world) (Connecting, s3)"
    using live_ended by (meson rtranclp_trans)
  with s3 show ?thesis by blast
qed

text \<open>The second connection, which 4 starts.\<close>

lemma live_second_connection:
  assumes "chan_open s3" and "processed_signature (store s3) = Inr (Some 3)"
  shows "\<exists>s4. live_run (Connecting, s3) (Streaming \<lparr>poll_first = True, stream1 = [], stream2 = []\<rparr> [], s4) \<and>
    store s4 = store s3 \<and> chan s4 = chan s3 @ [live_tx 4]"
proof -
  from live_first [OF assms live_ranges(3)] obtain s4 where
    h2: "handle_first (Suc 0) decimal_sdk counting_runtime live_node live_config
       (memmap_state fair_os) (decimal (4 :: signature)) s3 = (Inr True, s4)"
    and s4: "store s4 = store s3" "chan s4 = chan s3 @ [live_tx 4]" by auto
  have "live_run (Connecting, s3) (Streaming \<lparr>poll_first = True, stream1 = [], stream2 = []\<rparr> [], s4)"
    by (rule connected_run [of _ _ _ _ _ _ "live_item 4"]) (simp_all add: h2, simp add: live_config_def)
  with s4 show ?thesis by blast
qed


end
