(* ===== verification/RetryingSender.thy ===== *)
theory RetryingSender
  imports Chain
begin

text \<open>
  \<open>crates/retrying-solana-http-sender/src/lib.rs\<close>: the sender behind the RPC client that all
  components share. It limits the requests in flight with a semaphore and retries those that
  failed with a transient error.

  The HTTP client, the clock and the intervals of the \<open>backoff\<close> crate are the environment: the
  step relation \<open>sender_step\<close> lets time pass, a request in flight get any answer and a call that
  waits try again at any moment. Of the crate the model uses what it documents: a call returns at
  once on a permanent error, and after a transient one it waits unless the maximum elapsed time
  since the start of the call has passed. Requests and answers are type variables.
\<close>

section \<open>Definitions\<close>

definition MAX_BACKOFF_ELAPSED_TIME :: nat where
  "MAX_BACKOFF_ELAPSED_TIME = 60 * 1000"

record sender_config =
  sc_http_rpc :: string
  sc_max_requests :: nat
  sc_commitment :: commitment

text \<open>The values of \<open>config_defaults\<close>.\<close>

definition default_max_requests :: nat where
  "default_max_requests = 5"

definition default_sender_config :: "string \<Rightarrow> sender_config" where
  "default_sender_config url =
     \<lparr>sc_http_rpc = url, sc_max_requests = default_max_requests, sc_commitment = Finalized\<rparr>"

text \<open>An error as the \<open>backoff\<close> crate wants it.\<close>

datatype 'e backoff_error = Transient 'e | Permanent 'e

fun backoff_of :: "client_error \<Rightarrow> client_error backoff_error" where
  "backoff_of (Io m) = Transient (Io m)"
| "backoff_of (Reqwest m) = Transient (Reqwest m)"
| "backoff_of (SerdeJson m) = Transient (SerdeJson m)"
| "backoff_of (RpcError m) = Transient (RpcError m)"
| "backoff_of (SigningError m) = Permanent (SigningError m)"
| "backoff_of (TransactionErrorKind e) = Permanent (TransactionErrorKind e)"
| "backoff_of (CustomKind m) = Permanent (CustomKind m)"
| "backoff_of (Middleware m) = Permanent (Middleware m)"

text \<open>What an answer to \<open>send_internal\<close> becomes.\<close>

definition classify :: "client_error + 'v \<Rightarrow> client_error backoff_error + 'v" where
  "classify r = (case r of Inl e \<Rightarrow> Inl (backoff_of e) | Inr v \<Rightarrow> Inr v)"

text \<open>One call of \<open>send\<close>: before its permit, with it, between two attempts, and returned.\<close>

datatype 'v send_phase = Queued | InFlight | Waits client_error | Returned "client_error + 'v"

definition after_attempt :: "nat \<Rightarrow> client_error backoff_error + 'v \<Rightarrow> 'v send_phase" where
  "after_attempt elapsed r =
     (case r of
        Inr v \<Rightarrow> Returned (Inr v)
      | Inl (Permanent e) \<Rightarrow> Returned (Inl e)
      | Inl (Transient e) \<Rightarrow> if MAX_BACKOFF_ELAPSED_TIME < elapsed then Returned (Inl e) else Waits e)"

text \<open>
  The sender: its free permits, the time in milliseconds, and for every call its request, the
  time at which it began, and its phase.
\<close>

record ('q, 'v) http_pool =
  pool_url :: string
  request_permit :: nat
  clock :: nat
  calls :: "('q \<times> nat \<times> 'v send_phase) list"

text \<open>\<open>RetryingHttpSender::new\<close> and \<open>new_client\<close>.\<close>

definition new_http_pool :: "string \<Rightarrow> nat \<Rightarrow> ('q, 'v) http_pool" where
  "new_http_pool url max_concurrent_requests =
     \<lparr>pool_url = url, request_permit = max_concurrent_requests, clock = 0, calls = []\<rparr>"

definition new_client :: "sender_config \<Rightarrow> ('q, 'v) http_pool \<times> commitment" where
  "new_client cfg = (new_http_pool (sc_http_rpc cfg) (sc_max_requests cfg), sc_commitment cfg)"

text \<open>An answer comes with the time since the start of its call.\<close>

datatype ('q, 'v) http_event = Posted nat 'q | Answered nat nat "client_error + 'v"

inductive sender_step ::
  "('q, 'v) http_pool \<Rightarrow> ('q, 'v) http_event list \<Rightarrow> ('q, 'v) http_pool \<Rightarrow> bool" where
  submit: "sender_step p [] (p\<lparr>calls := calls p @ [(q, clock p, Queued)]\<rparr>)"
| tick: "sender_step p [] (p\<lparr>clock := clock p + d\<rparr>)"
| acquire:
    "i < length (calls p) \<Longrightarrow> calls p ! i = (q, t, Queued) \<Longrightarrow> 0 < request_permit p \<Longrightarrow>
     sender_step p [Posted i q]
       (p\<lparr>request_permit := request_permit p - 1, calls := (calls p)[i := (q, t, InFlight)]\<rparr>)"
| answer:
    "i < length (calls p) \<Longrightarrow> calls p ! i = (q, t, InFlight) \<Longrightarrow>
     sender_step p [Answered i (clock p - t) r]
       (p\<lparr>request_permit := request_permit p + 1,
          calls := (calls p)[i := (q, t, after_attempt (clock p - t) (classify r))]\<rparr>)"
| try_again:
    "i < length (calls p) \<Longrightarrow> calls p ! i = (q, t, Waits e) \<Longrightarrow>
     sender_step p [] (p\<lparr>calls := (calls p)[i := (q, t, Queued)]\<rparr>)"

inductive sender_run ::
  "('q, 'v) http_pool \<Rightarrow> ('q, 'v) http_event list \<Rightarrow> ('q, 'v) http_pool \<Rightarrow> bool" for p where
  start: "sender_run p [] p"
| step: "sender_run p evs p1 \<Longrightarrow> sender_step p1 out p2 \<Longrightarrow> sender_run p (evs @ out) p2"

section \<open>Permits\<close>

fun is_in_flight :: "'q \<times> nat \<times> 'v send_phase \<Rightarrow> bool" where
  "is_in_flight (q, t, ph) = (ph = InFlight)"

definition in_flight :: "('q, 'v) http_pool \<Rightarrow> nat" where
  "in_flight p = length (filter is_in_flight (calls p))"

lemma in_flight_update:
  assumes "i < length cs"
  shows "length (filter is_in_flight (cs[i := c])) + (if is_in_flight (cs ! i) then 1 else 0) =
    length (filter is_in_flight cs) + (if is_in_flight c then 1 else 0)"
  using assms
proof (induction cs arbitrary: i)
  case (Cons x cs)
  then show ?case by (cases i) auto
qed simp

lemma after_attempt_not_in_flight [simp]: "after_attempt t r \<noteq> InFlight" "after_attempt t r \<noteq> Queued"
  by (auto simp: after_attempt_def split: sum.splits backoff_error.splits)

lemma step_permits: "sender_step p out p' \<Longrightarrow> request_permit p' + in_flight p' = request_permit p + in_flight p"
proof (induction rule: sender_step.induct)
  case (acquire i p q t)
  then show ?case using in_flight_update [of i "calls p" "(q, t, InFlight)"] by (simp add: in_flight_def)
next
  case (answer i p q t r)
  then show ?case using in_flight_update [of i "calls p" "(q, t, after_attempt (clock p - t) (classify r))"]
    by (simp add: in_flight_def)
next
  case (try_again i p q t e)
  then show ?case using in_flight_update [of i "calls p" "(q, t, Queued)"] by (simp add: in_flight_def)
qed (simp_all add: in_flight_def)

section \<open>Attempts\<close>

text \<open>The answers that one call has got, with their times, and what it has posted.\<close>

definition answers_to :: "nat \<Rightarrow> ('q, 'v) http_event list \<Rightarrow> (nat \<times> (client_error + 'v)) list" where
  "answers_to i evs =
     List.map_filter (\<lambda>ev. case ev of Answered j t r \<Rightarrow> if j = i then Some (t, r) else None | _ \<Rightarrow> None) evs"

definition posts :: "nat \<Rightarrow> ('q, 'v) http_event list \<Rightarrow> 'q list" where
  "posts i evs = List.map_filter (\<lambda>ev. case ev of Posted j q \<Rightarrow> if j = i then Some q else None | _ \<Rightarrow> None) evs"

lemma answers_to_append [simp]: "answers_to i (xs @ ys) = answers_to i xs @ answers_to i ys"
  by (simp add: answers_to_def map_filter_def)

lemma posts_append [simp]: "posts i (xs @ ys) = posts i xs @ posts i ys"
  by (simp add: posts_def map_filter_def)

lemma answers_to_simps [simp]:
  "answers_to i [] = []" "answers_to i [Posted j q] = []"
  "answers_to i [Answered j t r] = (if j = i then [(t, r)] else [])"
  "posts i [] = []" "posts i [Posted j q] = (if j = i then [q] else [])" "posts i [Answered j t r] = []"
  by (simp_all add: answers_to_def posts_def map_filter_simps)

fun transient :: "client_error + 'v \<Rightarrow> bool" where
  "transient (Inl (Io m)) = True"
| "transient (Inl (Reqwest m)) = True"
| "transient (Inl (SerdeJson m)) = True"
| "transient (Inl (RpcError m)) = True"
| "transient _ = False"

text \<open>An answer after which the call tries again.\<close>

fun retried :: "nat \<times> (client_error + 'v) \<Rightarrow> bool" where
  "retried (t, r) \<longleftrightarrow> transient r \<and> t \<le> 60000"

lemma after_classify:
  "after_attempt t (classify r) = (if retried (t, r) then Waits (projl r) else Returned r)"
  by (cases r rule: transient.cases) (auto simp: classify_def after_attempt_def MAX_BACKOFF_ELAPSED_TIME_def)

text \<open>What the answers of a call say about its phase.\<close>

fun call_sound :: "'q \<Rightarrow> 'v send_phase \<Rightarrow> 'q list \<Rightarrow> (nat \<times> (client_error + 'v)) list \<Rightarrow> bool" where
  "call_sound q Queued ps rs \<longleftrightarrow> ps = replicate (length rs) q \<and> list_all retried rs"
| "call_sound q InFlight ps rs \<longleftrightarrow> ps = replicate (Suc (length rs)) q \<and> list_all retried rs"
| "call_sound q (Waits e) ps rs \<longleftrightarrow> ps = replicate (length rs) q \<and> list_all retried rs"
| "call_sound q (Returned r) ps rs \<longleftrightarrow> ps = replicate (length rs) q \<and>
     rs \<noteq> [] \<and> list_all retried (butlast rs) \<and> \<not> retried (last rs) \<and> snd (last rs) = r"

definition pool_sound :: "('q, 'v) http_event list \<Rightarrow> ('q, 'v) http_pool \<Rightarrow> bool" where
  "pool_sound evs p \<longleftrightarrow>
     (\<forall>i < length (calls p). case calls p ! i of (q, t, ph) \<Rightarrow> call_sound q ph (posts i evs) (answers_to i evs)) \<and>
     (\<forall>i \<ge> length (calls p). posts i evs = [] \<and> answers_to i evs = [])"

lemma pool_sound_at:
  assumes "pool_sound evs p" and "i < length (calls p)" and "calls p ! i = (q, t, ph)"
  shows "call_sound q ph (posts i evs) (answers_to i evs)"
  using assms by (auto simp: pool_sound_def)

lemma pool_sound_update:
  assumes "pool_sound evs p" and "i < length (calls p)"
    and "call_sound q ph (posts i (evs @ out)) (answers_to i (evs @ out))"
    and "\<And>j. j \<noteq> i \<Longrightarrow> posts j out = [] \<and> answers_to j out = []"
    and "calls p' = (calls p)[i := (q, t, ph)]"
  shows "pool_sound (evs @ out) p'"
  using assms unfolding pool_sound_def by (auto simp: nth_list_update)

lemma call_sound_after:
  "call_sound q InFlight ps rs \<Longrightarrow> call_sound q (after_attempt t (classify r)) ps (rs @ [(t, r)])"
  unfolding after_classify by simp

lemma step_sound: "sender_step p out p' \<Longrightarrow> pool_sound evs p \<Longrightarrow> pool_sound (evs @ out) p'"
proof (induction rule: sender_step.induct)
  case (submit p q)
  then show ?case by (auto simp: pool_sound_def nth_append less_Suc_eq)
next
  case (tick p d)
  then show ?case by (simp add: pool_sound_def)
next
  case (acquire i p q t)
  note sound = pool_sound_at [OF acquire.prems acquire.hyps(1,2)]
  show ?case by (rule pool_sound_update [OF acquire.prems acquire.hyps(1), where q = q and ph = InFlight])
      (use sound in \<open>auto simp: replicate_append_same\<close>)
next
  case (answer i p q t r)
  note sound = call_sound_after [OF pool_sound_at [OF answer.prems answer.hyps(1,2)], of "clock p - t" r]
  show ?case
    by (rule pool_sound_update [OF answer.prems answer.hyps(1), where q = q and ph = "after_attempt (clock p - t) (classify r)"])
      (use sound in auto)
next
  case (try_again i p q t e)
  note sound = pool_sound_at [OF try_again.prems try_again.hyps(1,2)]
  show ?case by (rule pool_sound_update [OF try_again.prems try_again.hyps(1), where q = q and ph = Queued])
      (use sound in auto)
qed

lemma run_permits: "sender_run p evs p' \<Longrightarrow> request_permit p' + in_flight p' = request_permit p + in_flight p"
  by (induction rule: sender_run.induct) (auto dest: step_permits)

lemma run_sound: "sender_run (new_http_pool url n) evs p \<Longrightarrow> pool_sound evs p"
proof (induction rule: sender_run.induct)
  case start
  show ?case by (simp add: pool_sound_def new_http_pool_def)
qed (rule step_sound)

lemma step_posts: "sender_step p out p' \<Longrightarrow> request_permit p = 0 \<Longrightarrow> posts i out = []"
  by (induction rule: sender_step.induct) auto

lemma no_permits_no_posts:
  "sender_run p evs p' \<Longrightarrow> request_permit p + in_flight p = 0 \<Longrightarrow> posts i evs = []"
proof (induction rule: sender_run.induct)
  case (step evs p1 out p2)
  then show ?case using run_permits [OF step.hyps(1)] step_posts [OF step.hyps(2)] by simp
qed simp

lemma new_client_pool [simp]:
  "request_permit (fst (new_client cfg)) = sc_max_requests cfg" "in_flight (fst (new_client cfg)) = 0"
  by (simp_all add: new_client_def new_http_pool_def in_flight_def)

text \<open>A call that is reset once and then answered.\<close>

abbreviation sample_events_http :: "(string, nat) http_event list" where
  "sample_events_http \<equiv> [Posted 0 ''getSlot'', Answered 0 0 (Inl (Io ''reset'')), Posted 0 ''getSlot'', Answered 0 500 (Inr 7)]"

lemma sample_requests:
  "\<exists>p. sender_run (fst (new_client (default_sender_config ''http://x''))) sample_events_http p \<and>
     calls p = [(''getSlot'', 0, Returned (Inr 7))]"
proof -
  let ?p0 = "fst (new_client (default_sender_config ''http://x'')) :: (string, nat) http_pool"
  define p1 where "p1 = ?p0\<lparr>calls := [(''getSlot'', 0, Queued)]\<rparr>"
  define p2 where "p2 = p1\<lparr>request_permit := 4, calls := [(''getSlot'', 0, InFlight)]\<rparr>"
  define p3 where "p3 = p2\<lparr>request_permit := 5, calls := [(''getSlot'', 0, Waits (Io ''reset''))]\<rparr>"
  define p4 where "p4 = p3\<lparr>clock := 500\<rparr>"
  define p5 where "p5 = p4\<lparr>calls := [(''getSlot'', 0, Queued)]\<rparr>"
  define p6 where "p6 = p5\<lparr>request_permit := 4, calls := [(''getSlot'', 0, InFlight)]\<rparr>"
  define p7 where "p7 = p6\<lparr>request_permit := 5, calls := [(''getSlot'', 0, Returned (Inr 7))]\<rparr>"
  note pools = p1_def p2_def p3_def p4_def p5_def p6_def p7_def new_client_def new_http_pool_def
    default_sender_config_def default_max_requests_def classify_def after_attempt_def
  have s1: "sender_step ?p0 [] p1" using sender_step.submit [of ?p0 "''getSlot''"] by (simp add: pools)
  have s2: "sender_step p1 [Posted 0 ''getSlot''] p2"
    using sender_step.acquire [of 0 p1 "''getSlot''"] by (simp add: pools)
  have s3: "sender_step p2 [Answered 0 0 (Inl (Io ''reset''))] p3"
    using sender_step.answer [of 0 p2 "''getSlot''" 0 "Inl (Io ''reset'')"] by (simp add: pools)
  have s4: "sender_step p3 [] p4" using sender_step.tick [of p3 500] by (simp add: pools)
  have s5: "sender_step p4 [] p5" using sender_step.try_again [of 0 p4 "''getSlot''"] by (simp add: pools)
  have s6: "sender_step p5 [Posted 0 ''getSlot''] p6"
    using sender_step.acquire [of 0 p5 "''getSlot''"] by (simp add: pools)
  have s7: "sender_step p6 [Answered 0 500 (Inr 7)] p7"
    using sender_step.answer [of 0 p6 "''getSlot''" 0 "Inr 7"] by (simp add: pools)
  from sender_run.step [OF sender_run.step [OF sender_run.step [OF sender_run.step [OF sender_run.step
    [OF sender_run.step [OF sender_run.step [OF sender_run.start s1] s2] s3] s4] s5] s6] s7]
  show ?thesis by (auto simp: p7_def)
qed

section \<open>Properties\<close>

text \<open>
  C32. The number of requests in flight never exceeds the configured limit, and every permit that
  is not in use is free again; with a limit of zero no request is ever posted.
\<close>

theorem requests_bounded:
  assumes "sender_run (fst (new_client cfg)) evs p"
  shows "in_flight p \<le> sc_max_requests cfg \<and> request_permit p = sc_max_requests cfg - in_flight p \<and>
    (sc_max_requests cfg = 0 \<longrightarrow> posts i evs = [])"
  using run_permits [OF assms] no_permits_no_posts [OF assms, of i] by simp

lemma requests_bounded_witness:
  "\<exists>p. sender_run (fst (new_client (default_sender_config ''http://x''))) sample_events_http p \<and> in_flight p \<le> 5"
proof -
  obtain p where run: "sender_run (fst (new_client (default_sender_config ''http://x''))) sample_events_http p"
    using sample_requests by blast
  from requests_bounded [OF this] have "in_flight p \<le> 5" by (simp add: default_sender_config_def default_max_requests_def)
  with run show ?thesis by blast
qed

text \<open>
  C33. A call of \<open>send\<close> posts the same request until it gets an answer that is not an I/O,
  connection, decoding or node error, or gets such an error more than 60 seconds after it began;
  it has posted exactly as often as it was answered, and it returns the last answer.
\<close>

theorem retried_only_transient:
  assumes "sender_run (fst (new_client cfg)) evs p" and "i < length (calls p)" and "calls p ! i = (q, t, Returned r)"
  shows "\<exists>rs elapsed. answers_to i evs = rs @ [(elapsed, r)] \<and> posts i evs = replicate (Suc (length rs)) q \<and>
    (\<forall>(s, a) \<in> set rs. transient a \<and> s \<le> 60000) \<and> (transient r \<longrightarrow> 60000 < elapsed)"
proof -
  from assms(1) have "pool_sound evs p" unfolding new_client_def by (auto intro: run_sound)
  from pool_sound_at [OF this assms(2,3)] have sound: "posts i evs = replicate (length (answers_to i evs)) q"
    "answers_to i evs \<noteq> []" "list_all retried (butlast (answers_to i evs))" "\<not> retried (last (answers_to i evs))"
    "snd (last (answers_to i evs)) = r" by simp_all
  define rs where "rs = butlast (answers_to i evs)"
  obtain elapsed where "last (answers_to i evs) = (elapsed, r)" using sound(5) by (cases "last (answers_to i evs)") auto
  with sound(2) have split: "answers_to i evs = rs @ [(elapsed, r)]" by (metis append_butlast_last_id rs_def)
  have "list_all retried rs" using sound(3) by (simp only: rs_def)
  moreover have "posts i evs = replicate (Suc (length rs)) q" using sound(1) by (simp add: split)
  moreover have "transient r \<longrightarrow> 60000 < elapsed" using sound(4) by (auto simp: split)
  ultimately show ?thesis using split
    by (intro exI [of _ rs] exI [of _ elapsed]) (auto simp: list_all_iff simp del: replicate.simps)
qed

lemma retried_only_transient_witness:
  "posts 0 sample_events_http = [''getSlot'', ''getSlot'']"
proof -
  obtain p where run: "sender_run (fst (new_client (default_sender_config ''http://x''))) sample_events_http p"
    and p: "calls p = [(''getSlot'', 0, Returned (Inr 7))]"
    using sample_requests by blast
  from retried_only_transient [OF run, of 0 "''getSlot''" 0 "Inr 7"] p obtain rs elapsed where
    rs: "answers_to 0 sample_events_http = rs @ [(elapsed, Inr 7)]"
      "posts 0 sample_events_http = replicate (Suc (length rs)) ''getSlot''" by auto
  have "length (answers_to 0 sample_events_http) = 2" by (simp add: answers_to_def map_filter_simps)
  with rs(1) have "length rs = 1" by simp
  with rs(2) show ?thesis by simp
qed

end
