(* ===== verification/RestService.thy ===== *)
theory RestService
  imports Chain
begin

text \<open>
  \<open>crates/rest-service/src\<close>: the HTTP service with its only route, the health check, and its
  shutdown. Binding the socket and serving are the environment; routing is what \<open>axum\<close> does with
  one \<open>get\<close> route. The service is the step relation \<open>rest_step\<close>: the holders of senders of its
  shutdown channel act at any time.
\<close>

section \<open>Definitions\<close>

record rest_config =
  rc_bind_addr :: string
  rc_max_requests :: nat

datatype http_method = GET | HEAD | OtherMethod string

type_synonym http_status = nat

definition health_path :: string where
  "health_path = ''/health''"

text \<open>\<open>get_handler\<close> returns the unit value, which is an empty answer with status 200.\<close>

definition get_handler :: http_status where
  "get_handler = 200"

definition health_handlers :: "http_method \<Rightarrow> http_status" where
  "health_handlers m = (case m of OtherMethod name \<Rightarrow> 405 | _ \<Rightarrow> get_handler)"

text \<open>
  The shutdown channel holds at most one message; each clone of its sender counts, the one that the
  service keeps included.
\<close>

record shutdown_channel =
  sc_queue :: "(eyre + unit) list"
  sc_senders :: nat

record rest_service =
  rs_routes :: "(string \<times> (http_method \<Rightarrow> http_status)) list"
  rs_concurrency :: nat
  rs_socket_addr :: string
  rs_shutdown :: shutdown_channel

definition new_rest_service :: "rest_config \<Rightarrow> rest_service" where
  "new_rest_service cfg =
     \<lparr>rs_routes = [(health_path, health_handlers)], rs_concurrency = rc_max_requests cfg,
      rs_socket_addr = rc_bind_addr cfg, rs_shutdown = \<lparr>sc_queue = [], sc_senders = 1\<rparr>\<rparr>"

definition shutdown_sender :: "rest_service \<Rightarrow> rest_service" where
  "shutdown_sender svc = svc\<lparr>rs_shutdown := (rs_shutdown svc)\<lparr>sc_senders := Suc (sc_senders (rs_shutdown svc))\<rparr>\<rparr>"

definition respond :: "rest_service \<Rightarrow> http_method \<Rightarrow> string \<Rightarrow> http_status" where
  "respond svc m path = (case map_of (rs_routes svc) path of None \<Rightarrow> 404 | Some h \<Rightarrow> h m)"

text \<open>At which level the tracing layer logs a response.\<close>

datatype log_level = Error | Warn | Info

definition on_response :: "http_status \<Rightarrow> log_level" where
  "on_response status =
     (if 500 \<le> status \<and> status < 600 then Error
      else if 400 \<le> status \<and> status < 500 then Warn
      else Info)"

text \<open>What the shutdown channel delivers: a message, or its end.\<close>

datatype shutdown = Graceful | OnError eyre | ChannelClosed

text \<open>Binding the socket, and the bound address, which is asked for when it is logged.\<close>

record rest_os =
  ro_bind :: "string \<Rightarrow> eyre option"
  ro_local_addr :: "eyre option"

datatype rest_phase = Serving shutdown_channel | ShuttingDown shutdown | Done "fault + unit"

text \<open>
  \<open>process_internal\<close>: the service starts or fails to; while it serves, and until it returns, it
  still owns its own sender, so only the other ones can be dropped.
\<close>

definition rest_start :: "rest_os \<Rightarrow> rest_service \<Rightarrow> rest_phase" where
  "rest_start os svc =
     (case ro_bind os (rs_socket_addr svc) of Some e \<Rightarrow> Done (Inl (Err e))
      | None \<Rightarrow>
          (case ro_local_addr os of Some e \<Rightarrow> Done (Inl (Err e)) | None \<Rightarrow> Serving (rs_shutdown svc)))"

definition recv_shutdown :: "shutdown_channel \<Rightarrow> shutdown option" where
  "recv_shutdown c =
     (case sc_queue c of
        Inr _ # _ \<Rightarrow> Some Graceful
      | Inl e # _ \<Rightarrow> Some (OnError e)
      | [] \<Rightarrow> if sc_senders c = 0 then Some ChannelClosed else None)"

inductive rest_step :: "rest_phase \<Rightarrow> rest_phase \<Rightarrow> bool" where
  cloned: "1 < sc_senders c \<Longrightarrow> rest_step (Serving c) (Serving (c\<lparr>sc_senders := Suc (sc_senders c)\<rparr>))"
| dropped: "1 < sc_senders c \<Longrightarrow> rest_step (Serving c) (Serving (c\<lparr>sc_senders := sc_senders c - 1\<rparr>))"
| sent_message: "1 < sc_senders c \<Longrightarrow> sc_queue c = [] \<Longrightarrow> rest_step (Serving c) (Serving (c\<lparr>sc_queue := [m]\<rparr>))"
| received_message: "recv_shutdown c = Some reason \<Longrightarrow> rest_step (Serving c) (ShuttingDown reason)"
| served: "rest_step (ShuttingDown reason) (Done (Inr ()))"
| serving_fails: "rest_step (Serving c) (Done (Inl (Err e)))"
| closing_fails: "rest_step (ShuttingDown reason) (Done (Inl (Err e)))"

abbreviation rest_process :: "rest_os \<Rightarrow> rest_service \<Rightarrow> rest_phase \<Rightarrow> bool" where
  "rest_process os svc \<equiv> rest_step\<^sup>*\<^sup>* (rest_start os svc)"

section \<open>Lemmas\<close>

lemma respond_ok_iff:
  "respond (new_rest_service cfg) m path = 200 \<longleftrightarrow> path = ''/health'' \<and> m \<in> {GET, HEAD}"
  by (cases m) (auto simp: respond_def new_rest_service_def health_path_def health_handlers_def get_handler_def)

lemma response_level:
  "on_response (respond (new_rest_service cfg) m path) = (if path = ''/health'' \<and> m \<in> {GET, HEAD} then Info else Warn)"
  by (cases m) (auto simp: respond_def new_rest_service_def health_path_def health_handlers_def get_handler_def on_response_def)

text \<open>What a service that has handed out \<open>n\<close> senders can have come to.\<close>

definition rest_inv :: "nat \<Rightarrow> rest_phase \<Rightarrow> bool" where
  "rest_inv n ph =
     (case ph of
        Serving c \<Rightarrow> 1 \<le> sc_senders c \<and> (n = 0 \<longrightarrow> c = \<lparr>sc_queue = [], sc_senders = 1\<rparr>)
      | ShuttingDown reason \<Rightarrow> reason \<noteq> ChannelClosed \<and> 0 < n
      | Done r \<Rightarrow> n = 0 \<longrightarrow> (\<exists>e. r = Inl (Err e)))"

lemma rest_step_inv: "rest_step ph ph' \<Longrightarrow> rest_inv n ph \<Longrightarrow> rest_inv n ph'"
  by (induction rule: rest_step.induct)
    (auto simp: rest_inv_def recv_shutdown_def split: list.splits sum.splits if_splits)

lemma rest_start_inv: "rest_inv n (rest_start os ((shutdown_sender ^^ n) (new_rest_service cfg)))"
proof -
  have "rs_shutdown ((shutdown_sender ^^ n) (new_rest_service cfg)) = \<lparr>sc_queue = [], sc_senders = Suc n\<rparr>"
    by (induction n) (simp_all add: new_rest_service_def shutdown_sender_def)
  then show ?thesis by (simp add: rest_inv_def rest_start_def split: option.splits)
qed

section \<open>Properties\<close>

text \<open>
  C40. The service never shuts down because its shutdown channel was closed, since it holds a sender
  of that channel itself; and where nobody asked for a sender, as in \<open>main\<close>, it does not shut
  down at all: it serves until it fails.
\<close>

theorem rest_never_closed:
  assumes "rest_process os ((shutdown_sender ^^ n) (new_rest_service cfg)) ph"
  shows "ph \<noteq> ShuttingDown ChannelClosed \<and>
    (n = 0 \<longrightarrow> (\<forall>reason. ph \<noteq> ShuttingDown reason) \<and> (\<forall>r. ph = Done r \<longrightarrow> (\<exists>e. r = Inl (Err e))))"
proof -
  from assms have "rest_inv n ph"
    by (induction rule: rtranclp_induct) (auto intro: rest_start_inv rest_step_inv)
  then show ?thesis by (auto simp: rest_inv_def split: rest_phase.splits)
qed

definition sample_rest_os :: rest_os where
  "sample_rest_os = \<lparr>ro_bind = \<lambda>addr. None, ro_local_addr = None\<rparr>"

lemma rest_never_closed_witness:
  "\<exists>c. rest_process sample_rest_os ((shutdown_sender ^^ 1) (new_rest_service \<lparr>rc_bind_addr = ''127.0.0.1:80'', rc_max_requests = 10\<rparr>))
     (Serving c) \<and> sc_senders c = 1 \<and> Serving c \<noteq> ShuttingDown ChannelClosed"
proof -
  let ?svc = "(shutdown_sender ^^ 1) (new_rest_service \<lparr>rc_bind_addr = ''127.0.0.1:80'', rc_max_requests = 10\<rparr>)"
  have start: "rest_start sample_rest_os ?svc = Serving \<lparr>sc_queue = [], sc_senders = 2\<rparr>"
    by (simp add: rest_start_def sample_rest_os_def shutdown_sender_def new_rest_service_def)
  have "rest_step (Serving \<lparr>sc_queue = [], sc_senders = 2\<rparr>) (Serving \<lparr>sc_queue = [], sc_senders = 1\<rparr>)"
    using rest_step.dropped [of "\<lparr>sc_queue = [], sc_senders = 2\<rparr>"] by simp
  then have run: "rest_process sample_rest_os ?svc (Serving \<lparr>sc_queue = [], sc_senders = 1\<rparr>)"
    unfolding start by (rule r_into_rtranclp)
  from rest_never_closed [OF run] run show ?thesis by (intro exI [of _ "\<lparr>sc_queue = [], sc_senders = 1\<rparr>"]) simp
qed

end
