(* ===== verification/Telemetry.thy ===== *)
theory Telemetry
  imports Chain
begin

text \<open>
  \<open>crates/solana-axelar-relayer/src/telemetry.rs\<close>: the set-up of tracing, metrics and logs with
  which \<open>main\<close> begins. The state is what the process has installed globally. The exporters, the
  filter of \<open>tracing_subscriber\<close> and its parser are third-party code and the record
  \<open>telemetry_libs\<close>; what the build sets (package name, commit, profile) is the record
  \<open>build_info\<close>.
\<close>

section \<open>Definitions\<close>

record build_info =
  cargo_pkg_name :: string
  git_hash :: string
  debug_assertions :: bool

definition get_service_version :: "build_info \<Rightarrow> string" where
  "get_service_version b = git_hash b"

definition get_service_name :: "build_info \<Rightarrow> string" where
  "get_service_name b = cargo_pkg_name b @ git_hash b"

definition resources :: "build_info \<Rightarrow> (string \<times> string) list" where
  "resources b = [(''service.name'', get_service_name b), (''service.version'', get_service_version b)]"

datatype exporting = Batch | Periodic

record provider =
  pr_endpoint :: string
  pr_resource :: "(string \<times> string) list"
  pr_exporting :: exporting

text \<open>
  \<open>'d\<close> is a parsed directive and \<open>'f\<close> a filter. An exporter for an endpoint is built or not;
  \<open>from_default_env\<close> is the rendering of the filter that the environment asks for.
\<close>

record ('d, 'f) telemetry_libs =
  span_exporter :: "string \<Rightarrow> eyre option"
  metric_exporter :: "string \<Rightarrow> eyre option"
  log_exporter :: "string \<Rightarrow> eyre option"
  parse_directive :: "string \<Rightarrow> eyre + 'd"
  new_filter :: "string \<Rightarrow> 'f"
  add_directive :: "'d \<Rightarrow> 'f \<Rightarrow> 'f"
  from_default_env :: string

record 'f subscriber =
  sub_filter :: 'f
  sub_json :: bool
  sub_logs :: "provider option"

record 'f globals =
  gl_tracer :: "provider option"
  gl_meter :: "provider option"
  gl_subscriber :: "'f subscriber option"

definition no_globals :: "'f globals" where
  "no_globals = \<lparr>gl_tracer = None, gl_meter = None, gl_subscriber = None\<rparr>"

definition init_tracer_provider :: "('d, 'f) telemetry_libs \<Rightarrow> build_info \<Rightarrow> string \<Rightarrow> eyre + provider" where
  "init_tracer_provider libs b endpoint =
     (case span_exporter libs endpoint of Some e \<Rightarrow> Inl e
      | None \<Rightarrow> Inr \<lparr>pr_endpoint = endpoint, pr_resource = resources b, pr_exporting = Batch\<rparr>)"

definition init_metrics :: "('d, 'f) telemetry_libs \<Rightarrow> build_info \<Rightarrow> string \<Rightarrow> eyre + provider" where
  "init_metrics libs b endpoint =
     (case metric_exporter libs endpoint of Some e \<Rightarrow> Inl e
      | None \<Rightarrow> Inr \<lparr>pr_endpoint = endpoint, pr_resource = resources b, pr_exporting = Periodic\<rparr>)"

definition init_logs :: "('d, 'f) telemetry_libs \<Rightarrow> build_info \<Rightarrow> string \<Rightarrow> eyre + provider" where
  "init_logs libs b endpoint =
     (case log_exporter libs endpoint of Some e \<Rightarrow> Inl e
      | None \<Rightarrow> Inr \<lparr>pr_endpoint = endpoint, pr_resource = resources b, pr_exporting = Batch\<rparr>)"

text \<open>The directives that are added to the filter, the last one from the environment.\<close>

definition filter_directives :: "('d, 'f) telemetry_libs \<Rightarrow> string list" where
  "filter_directives libs =
     [''solana_axelar_relayer=info'', ''relayer_amplifier_api_integration=info'', ''amplifier_api=info'',
      ''solana_listener=info'', ''solana_event_forwarder=info'', ''solana_gateway_task_processor=info'',
      ''effective_tx_sender=info'', ''file_based_storage=info'', ''hyper=error'', ''tonic=error'', ''reqwest=error'',
      ''rest-service=info'', ''tower_http=info'', ''axum=error'', from_default_env libs]"

fun add_directives :: "('d, 'f) telemetry_libs \<Rightarrow> string list \<Rightarrow> 'f \<Rightarrow> eyre + 'f" where
  "add_directives libs [] f = Inr f"
| "add_directives libs (str # strs) f =
     (case parse_directive libs str of Inl e \<Rightarrow> Inl e | Inr d \<Rightarrow> add_directives libs strs (add_directive libs d f))"

text \<open>\<open>init\<close> panics when a subscriber is installed already.\<close>

definition setup_subscriber ::
  "('d, 'f) telemetry_libs \<Rightarrow> build_info \<Rightarrow> provider option \<Rightarrow> (fault, 'f globals, unit) io" where
  "setup_subscriber libs b logs_layer g =
     (case add_directives libs (filter_directives libs) (new_filter libs ''relayer_engine=info'') of
        Inl e \<Rightarrow> (Inl (Err e), g)
      | Inr f \<Rightarrow>
          if gl_subscriber g \<noteq> None then (Inl (Panic ''failed to set global default subscriber''), g)
          else (Inr (), g\<lparr>gl_subscriber := Some
                 \<lparr>sub_filter = f, sub_json = (\<not> debug_assertions b), sub_logs = logs_layer\<rparr>\<rparr>))"

definition init_telemetry ::
  "('d, 'f) telemetry_libs \<Rightarrow> build_info \<Rightarrow> string option \<Rightarrow> (fault, 'f globals, unit) io" where
  "init_telemetry libs b exporter_endpoint g =
     (case exporter_endpoint of
        None \<Rightarrow> setup_subscriber libs b None g
      | Some endpoint \<Rightarrow>
          (case init_tracer_provider libs b endpoint of Inl e \<Rightarrow> (Inl (Err e), g) | Inr tracer \<Rightarrow>
          (case init_metrics libs b endpoint of Inl e \<Rightarrow> (Inl (Err e), g) | Inr metrics \<Rightarrow>
          (case init_logs libs b endpoint of Inl e \<Rightarrow> (Inl (Err e), g) | Inr logs \<Rightarrow>
             setup_subscriber libs b (Some logs) (g\<lparr>gl_tracer := Some tracer, gl_meter := Some metrics\<rparr>)))))"

section \<open>Lemmas\<close>

definition exporters_built :: "('d, 'f) telemetry_libs \<Rightarrow> string \<Rightarrow> bool" where
  "exporters_built libs endpoint \<longleftrightarrow>
     span_exporter libs endpoint = None \<and> metric_exporter libs endpoint = None \<and> log_exporter libs endpoint = None"

lemma exporters_built_iff:
  "exporters_built libs endpoint \<longleftrightarrow>
     (\<exists>t m l. init_tracer_provider libs b endpoint = Inr t \<and> init_metrics libs b endpoint = Inr m \<and>
        init_logs libs b endpoint = Inr l)"
  by (auto simp: exporters_built_def init_tracer_provider_def init_metrics_def init_logs_def split: option.splits)

lemma add_directives_ok_iff:
  "(\<exists>f'. add_directives libs strs f = Inr f') \<longleftrightarrow> (\<forall>str \<in> set strs. \<exists>d. parse_directive libs str = Inr d)"
  by (induction strs arbitrary: f) (auto split: sum.splits)

text \<open>
  The set-up of a fresh process succeeds exactly when the exporters, if asked for, could be built
  and every directive parses; otherwise it returns an error and no subscriber is installed.
\<close>

lemma init_telemetry_ok_iff:
  "fst (init_telemetry libs b endpoint no_globals) = Inr () \<longleftrightarrow>
     (\<forall>url. endpoint = Some url \<longrightarrow> exporters_built libs url) \<and>
     (\<forall>str \<in> set (filter_directives libs). \<exists>d. parse_directive libs str = Inr d)"
  unfolding exporters_built_iff [where b = b] add_directives_ok_iff [symmetric, where f = "new_filter libs ''relayer_engine=info''"]
  by (auto simp: init_telemetry_def setup_subscriber_def no_globals_def split: option.splits sum.splits)

lemma init_telemetry_result:
  assumes "init_telemetry libs b endpoint no_globals = (r, g)"
  shows "(case r of
      Inl f \<Rightarrow> f \<in> range Err \<and> gl_subscriber g = None
    | Inr _ \<Rightarrow> \<exists>f. add_directives libs (filter_directives libs) (new_filter libs ''relayer_engine=info'') = Inr f \<and>
        gl_subscriber g = Some \<lparr>sub_filter = f, sub_json = (\<not> debug_assertions b),
          sub_logs = map_option (\<lambda>url. \<lparr>pr_endpoint = url, pr_resource = resources b, pr_exporting = Batch\<rparr>) endpoint\<rparr> \<and>
        (gl_tracer g \<noteq> None) = (endpoint \<noteq> None) \<and> (gl_meter g \<noteq> None) = (endpoint \<noteq> None))"
  using assms
  by (auto simp: init_telemetry_def setup_subscriber_def no_globals_def init_logs_def split: option.splits sum.splits)

text \<open>An exporter that cannot be built leaves the process as it was.\<close>

lemma init_telemetry_exporters:
  "\<not> exporters_built libs url \<Longrightarrow> snd (init_telemetry libs b (Some url) g) = g"
  unfolding exporters_built_iff [where b = b]
  by (auto simp: init_telemetry_def split: sum.splits)

end
