(* ===== verification/Relayer.thy ===== *)
theory Relayer
  imports TaskLoop EventForwarder Listener RetryingSender RestService Telemetry
begin

text \<open>
  \<open>crates/solana-axelar-relayer/src/main.rs\<close>: the components wired together from one
  configuration, and the parsing of configuration values that is the repository's own
  (\<open>crates/solana-listener/src/config.rs\<close>, \<open>crates/common-serde-utils/src/lib.rs\<close>). The derived
  parsers of \<open>clap\<close> are parameters.
\<close>

section \<open>Configuration values\<close>

text \<open>\<open>u64::from_str\<close>, as the polling period is read: digits after an optional plus sign.\<close>

definition parse_tx_scan_poll_period :: "string \<Rightarrow> eyre + u64" where
  "parse_tx_scan_poll_period input =
     (let digits = (case input of [] \<Rightarrow> [] | c # cs \<Rightarrow> if c = CHR ''+'' then cs else input) in
      if digits = [] then Inl (Msg ''cannot parse integer'')
      else (case read_digits 0 digits of
              None \<Rightarrow> Inl (Msg ''invalid digit found in string'')
            | Some n \<Rightarrow> if n < 2 ^ 64 then Inr (of_nat n)
                        else Inl (Msg ''number too large to fit in target type'')))"

definition tx_scan_poll_period_value :: u64 where
  "tx_scan_poll_period_value = 1000"

definition pubkey_decode :: "sdk \<Rightarrow> eyre + string \<Rightarrow> eyre + pubkey" where
  "pubkey_decode sdk raw_string =
     (case raw_string of
        Inl e \<Rightarrow> Inl e
      | Inr str \<Rightarrow> (case parse_pubkey sdk str of None \<Rightarrow> Inl (Msg ''invalid pubkey'') | Some k \<Rightarrow> Inr k))"

text \<open>Rendering a period and parsing it again gives it back, so the default of the option is valid.\<close>

lemma read_digits_plus: "read_digits acc (CHR ''+'' # cs) = None"
  by (simp add: digit_val_def)

lemma poll_period_roundtrip: "parse_tx_scan_poll_period (show_u64 v) = Inr v"
proof -
  have "show_nat (unat v) \<noteq> CHR ''+'' # cs" for cs
    using read_digits_show_nat [of "unat v"] read_digits_plus [of 0 cs] by auto
  then have digits: "(case show_nat (unat v) of [] \<Rightarrow> [] | c # cs \<Rightarrow> if c = CHR ''+'' then cs else show_nat (unat v)) =
      show_nat (unat v)"
    by (cases "show_nat (unat v)") auto
  have "unat v < 2 ^ 64" using unsigned_less [of v, where ?'a = nat] by simp
  then show ?thesis
    unfolding parse_tx_scan_poll_period_def show_u64_def digits Let_def by (simp add: read_digits_show_nat)
qed

section \<open>The relayer\<close>

text \<open>
  Of the configurations of the external components, the chain's name in the Amplifier's is all
  that this repository reads; the engine's is an opaque value.
\<close>

record relayer_config =
  cfg_chain :: string
  cfg_listener :: listener_config
  cfg_processor :: gateway_config
  cfg_engine :: string
  cfg_rpc :: sender_config
  cfg_storage_path :: string
  cfg_rest :: rest_config

text \<open>The derived parsers, in the order in which \<open>read_config_from_env\<close> calls them.\<close>

record config_parsers =
  parse_rest :: "fault + rest_config"
  parse_listener :: "fault + listener_config"
  parse_engine :: "fault + string"
  parse_rpc :: "fault + sender_config"
  parse_processor :: "fault + gateway_config"
  parse_amplifier_chain :: "fault + string"

definition read_config_from_env :: "(string \<Rightarrow> string option) \<Rightarrow> config_parsers \<Rightarrow> fault + relayer_config" where
  "read_config_from_env var parsers =
     (case var ''STORAGE_PATH'' of
        None \<Rightarrow> Inl (Panic ''failed to get STORAGE_PATH'')
      | Some path \<Rightarrow>
          (case parse_rest parsers of Inl e \<Rightarrow> Inl e | Inr rest \<Rightarrow>
          (case parse_listener parsers of Inl e \<Rightarrow> Inl e | Inr listener \<Rightarrow>
          (case parse_engine parsers of Inl e \<Rightarrow> Inl e | Inr engine \<Rightarrow>
          (case parse_rpc parsers of Inl e \<Rightarrow> Inl e | Inr rpc_cfg \<Rightarrow>
          (case parse_processor parsers of Inl e \<Rightarrow> Inl e | Inr processor \<Rightarrow>
          (case parse_amplifier_chain parsers of Inl e \<Rightarrow> Inl e | Inr chain \<Rightarrow>
             Inr \<lparr>cfg_chain = chain, cfg_listener = listener, cfg_processor = processor, cfg_engine = engine,
                  cfg_rpc = rpc_cfg, cfg_storage_path = path, cfg_rest = rest\<rparr>)))))))"

text \<open>
  The channel that \<open>SolanaListener::new\<close> makes: what the listener has sent, and how much of it the
  forwarder, which holds the receiving end, has taken.
\<close>

record channel =
  ch_sent :: "solana_tx list"
  ch_taken :: nat

record 'w solana_listener =
  sl_config :: listener_config
  sl_node :: "'w node"

definition new_listener :: "listener_config \<Rightarrow> 'w node \<Rightarrow> 'w solana_listener \<times> channel" where
  "new_listener cfg nd = (\<lparr>sl_config = cfg, sl_node = nd\<rparr>, \<lparr>ch_sent = [], ch_taken = 0\<rparr>)"

datatype component = AmplifierComponent | ListenerComponent | ForwarderComponent | TaskProcessorComponent | RestComponent

record ('w, 's, 'q, 'v) relayer =
  rl_storage :: bytes
  rl_client :: "('q, 'v) http_pool \<times> commitment"
  rl_node :: "'w node"
  rl_forwarder :: forwarder_config
  rl_pusher :: "('w, 's) tx_pusher"
  rl_listener :: "'w solana_listener"
  rl_channel :: channel
  rl_rest :: rest_service
  rl_components :: "component list"

text \<open>
  \<open>main\<close> up to the start of the engine. \<open>disk\<close> gives the contents of the file at a path; the
  nodes are what the RPC client and the estimator's client talk to.
\<close>

definition relayer_main ::
  "file_os \<Rightarrow> (string \<Rightarrow> bytes option) \<Rightarrow> relayer_config \<Rightarrow> 'w node \<Rightarrow> 'w node \<Rightarrow> 'w runtime \<Rightarrow> sdk
     \<Rightarrow> 'w gateway_libs \<Rightarrow> gateway_codec \<Rightarrow> nat
     \<Rightarrow> fault + ('w, ('w, 'z) processor_world_scheme, 'q, 'v) relayer" where
  "relayer_main os disk cfg nd sn rt sdk libs codec fuel =
     (case memmap_new os (disk (cfg_storage_path cfg)) of
        Inl e \<Rightarrow> Inl (Panic ''could not init file based storage'')
      | Inr storage \<Rightarrow> Inr
          \<lparr>rl_storage = storage,
           rl_client = new_client (cfg_rpc cfg),
           rl_node = main_client nd,
           rl_forwarder = new_forwarder_config (lc_gateway (cfg_listener cfg)) (lc_commitment (cfg_listener cfg))
             (gc_gas_program (cfg_processor cfg)) (cfg_chain cfg),
           rl_pusher = new_pusher (cfg_processor cfg) (cfg_chain cfg) nd sn rt sdk libs codec fuel,
           rl_listener = fst (new_listener (cfg_listener cfg) (main_client nd)),
           rl_channel = snd (new_listener (cfg_listener cfg) (main_client nd)),
           rl_rest = new_rest_service (cfg_rest cfg),
           rl_components = [AmplifierComponent, ListenerComponent, ForwarderComponent, TaskProcessorComponent,
             RestComponent]\<rparr>)"

text \<open>
  \<open>main\<close> from its beginning: \<open>var\<close> is the environment with the variables of the \<open>.env\<close> file,
  \<open>install\<close> what \<open>color_eyre::install\<close> answers.
\<close>

definition boot ::
  "('d, 'f) telemetry_libs \<Rightarrow> build_info \<Rightarrow> eyre option \<Rightarrow> (string \<Rightarrow> string option) \<Rightarrow> config_parsers
     \<Rightarrow> (relayer_config \<Rightarrow> fault + 'r) \<Rightarrow> 'f globals \<Rightarrow> (fault + 'r) \<times> 'f globals" where
  "boot tlibs b install var parsers start g =
     (case init_telemetry tlibs b (var ''TRACING_ENDPOINT'') g of
        (Inl (Err e), g') \<Rightarrow> (Inl (Panic ''could not init telemetry''), g')
      | (Inl f, g') \<Rightarrow> (Inl f, g')
      | (Inr _, g') \<Rightarrow>
          (case install of
             Some e \<Rightarrow> (Inl (Panic ''color eyre could not be installed''), g')
           | None \<Rightarrow>
               (case read_config_from_env var parsers of
                  Inl f \<Rightarrow> (Inl f, g')
                | Inr cfg \<Rightarrow> (start cfg, g'))))"

text \<open>
  The forwarder of the relayer: what it takes a transaction to have cost, and its run on the
  messages it takes from the listener's channel. Its client is the shared one.
\<close>

definition relayer_gas ::
  "('w, 's, 'q, 'v) relayer \<Rightarrow> solana_tx \<Rightarrow> (fault, ('w, 'z) amplifier_world_scheme, u64) io" where
  "relayer_gas r =
     (let p = rl_pusher r; f = rl_forwarder r in
      compute_total_gas (tp_fuel p) (tp_sdk p) (tp_codec p) (tp_runtime p) (rl_node r) (fc_commitment f) (fc_gateway f))"

definition run_forwarder ::
  "('w, 's, 'q, 'v) relayer \<Rightarrow> forward_libs \<Rightarrow> solana_tx list
     \<Rightarrow> (fault, ('w, 'z) amplifier_world_scheme, unit) io" where
  "run_forwarder r flibs messages = forward_all flibs (rl_forwarder r) (relayer_gas r) messages"

lemma relayer_main_ok:
  assumes "relayer_main os disk cfg nd sn rt sdk libs codec fuel = Inr r"
  shows "rl_pusher r = new_pusher (cfg_processor cfg) (cfg_chain cfg) nd sn rt sdk libs codec fuel \<and>
    rl_listener r = \<lparr>sl_config = cfg_listener cfg, sl_node = main_client nd\<rparr> \<and> rl_node r = main_client nd \<and>
    rl_channel r = \<lparr>ch_sent = [], ch_taken = 0\<rparr> \<and> fc_gateway (rl_forwarder r) = lc_gateway (cfg_listener cfg) \<and>
    fc_commitment (rl_forwarder r) = lc_commitment (cfg_listener cfg) \<and>
    fc_source_chain_name (rl_forwarder r) = cfg_chain cfg \<and>
    fc_gas_service (rl_forwarder r) = gc_gas_program (cfg_processor cfg) \<and>
    memmap_new os (disk (cfg_storage_path cfg)) = Inr (rl_storage r)"
  using assms by (auto simp: relayer_main_def new_forwarder_config_def new_listener_def split: sum.splits)

text \<open>What a run of the forwarder on a channel's messages amounts to.\<close>

lemma run_forwarder_result:
  assumes "run_forwarder r flibs messages s = (q, s')"
  shows "\<exists>handled rest cmds. messages = handled @ rest \<and> published s' = published s @ cmds \<and>
    list_all2 (published_for flibs (rl_forwarder r)) handled cmds \<and>
    (rest = [] \<longrightarrow> q = Inl (msg_fault ''Listener has stopped unexpectedly''))"
proof -
  obtain q0 s1 where fold: "foldE (\<lambda>message _. forward_one flibs (rl_forwarder r) (relayer_gas r) message) messages () s = (q0, s1)"
    by fastforce
  with assms have "s' = s1" and "q0 = Inr () \<longrightarrow> q = Inl (msg_fault ''Listener has stopped unexpectedly'')"
    by (auto simp: run_forwarder_def forward_all_def bindE_def Let_def split: sum.splits)
  with forward.forward_fold [OF fold [unfolded relayer_gas_def Let_def]] show ?thesis by blast
qed

lemma read_config_ok_iff:
  "read_config_from_env var parsers = Inr cfg \<longleftrightarrow>
     var ''STORAGE_PATH'' = Some (cfg_storage_path cfg) \<and> parse_rest parsers = Inr (cfg_rest cfg) \<and>
     parse_listener parsers = Inr (cfg_listener cfg) \<and> parse_engine parsers = Inr (cfg_engine cfg) \<and>
     parse_rpc parsers = Inr (cfg_rpc cfg) \<and> parse_processor parsers = Inr (cfg_processor cfg) \<and>
     parse_amplifier_chain parsers = Inr (cfg_chain cfg)"
  by (cases cfg) (auto simp: read_config_from_env_def split: option.splits sum.splits)

section \<open>A concrete relayer\<close>

text \<open>A relayer in front of a chain with four transactions, on given nodes.\<close>

definition live_relayer_config :: relayer_config where
  "live_relayer_config = \<lparr>cfg_chain = ''solana'', cfg_listener = live_config, cfg_processor = sample_config,
     cfg_engine = ''127.0.0.1:8000'', cfg_rpc = default_sender_config ''http://node'', cfg_storage_path = ''./store'',
     cfg_rest = \<lparr>rc_bind_addr = ''127.0.0.1:80'', rc_max_requests = 10\<rparr>\<rparr>"

abbreviation live_relayer ::
  "nat node \<Rightarrow> nat node \<Rightarrow> fault + (nat, (nat, 'z) processor_world_scheme, string, nat) relayer" where
  "live_relayer nd sn \<equiv> relayer_main fair_os (\<lambda>path. None) live_relayer_config nd sn counting_runtime
     decimal_sdk sample_gateway sample_codec 1"

lemma live_clients [simp]: "main_client live_node = live_node"
  by (simp add: main_client_def ledger_node_def)

lemma live_relayer_ok:
  "\<exists>r. live_relayer nd sn = Inr r \<and> rl_storage r = bytes_of default_state \<and>
     rl_listener r = \<lparr>sl_config = live_config, sl_node = main_client nd\<rparr>"
  by (simp add: relayer_main_def new_listener_def memmap_new_def fair_os_def state_len_def live_relayer_config_def Let_def)

lemma live_startup:
  assumes "processed_signature (store s) = Inr None" and "length (store s) = state_len"
    and "chan_open s" and "chan s = []"
  shows "\<exists>s'. startup (Suc 0) decimal_sdk counting_runtime live_node live_config (memmap_state fair_os) None s = (Inr (), s') \<and>
    mset (chan s') = mset (map live_tx [4, 3, 2, 1]) \<and> processed_signature (store s') = Inr (Some 4)"
  using startup_forwards [where s = s and cfg = live_config and n = 0 and latest = None,
      OF live_serves answers_ledger_node assms(3,2,1) refl refl] assms(4)
  by (simp add: live_config_def live_ranges scan_limit_def newest_first_def live_status)

section \<open>Properties\<close>


text \<open>An environment in which everything parses.\<close>

definition sample_telemetry :: "(string, string list) telemetry_libs" where
  "sample_telemetry = \<lparr>span_exporter = \<lambda>url. None, metric_exporter = \<lambda>url. None, log_exporter = \<lambda>url. None,
     parse_directive = Inr, new_filter = \<lambda>str. [str], add_directive = \<lambda>d f. f @ [d], from_default_env = ''error''\<rparr>"

definition sample_build :: build_info where
  "sample_build = \<lparr>cargo_pkg_name = ''solana-axelar-relayer'', git_hash = ''abc'', debug_assertions = False\<rparr>"

definition sample_parsers :: config_parsers where
  "sample_parsers = \<lparr>parse_rest = Inr (cfg_rest live_relayer_config), parse_listener = Inr (cfg_listener live_relayer_config),
     parse_engine = Inr (cfg_engine live_relayer_config), parse_rpc = Inr (cfg_rpc live_relayer_config),
     parse_processor = Inr (cfg_processor live_relayer_config), parse_amplifier_chain = Inr (cfg_chain live_relayer_config)\<rparr>"


end
