(* ===== verification/Authority.thy ===== *)
theory Authority
  imports TaskLoop "HOL-Library.Sublist"
begin

text \<open>
  What the relayer's key signs. Every transaction that processing a task sends carries out that
  task: \<open>carries_out\<close> lists, for each kind of task, the instructions that belong to it, and the
  lemmas follow \<open>gateway_tx_task\<close>, \<open>execute_task\<close> and \<open>refund_task\<close> of
  \<open>crates/solana-gateway-task-processor/src/component.rs\<close> on every path, failures included. From
  them follows what a step of the task loop may send and publish.
\<close>

section \<open>The instructions of a task\<close>

text \<open>The steps of a gateway transaction: open the session, verify a signature, approve or rotate.\<close>

definition gateway_step :: "'w gateway_libs \<Rightarrow> pubkey \<Rightarrow> execute_data \<Rightarrow> instruction \<Rightarrow> bool" where
  "gateway_step libs kp ed ix \<longleftrightarrow>
     initialize_session libs kp (gateway_root libs) (ed_payload_root ed) (ed_signing_set_root ed) = Inr ix \<or>
     ix \<in> set (verify_ixs libs ed) \<or>
     (case ed_items ed of
        VerifierSetRotation h \<Rightarrow> rotate_ix libs kp ed h = Inr ix
      | NewMessages ms \<Rightarrow> ix \<in> set (built_ixs (approve_ix libs kp ed) ms))"

text \<open>
  The last transaction of a message: the instruction built for its destination and the closing
  of its payload account.
\<close>

definition destination_call ::
  "('w, ('w, 'z) world_scheme) tx_pusher \<Rightarrow> config_metadata \<Rightarrow> execute_task \<Rightarrow> pubkey \<Rightarrow> instruction list \<Rightarrow> bool" where
  "destination_call p md task destination ixs \<longleftrightarrow>
     (let message = compose_message md (et_message task) in
      \<exists>payload_pda ix ix_close (s :: ('w, 'z) world_scheme) s'.
        destination_ix p destination (gc_keypair (tp_config p)) (message_incoming (tp_libs p) task) payload_pda message
          (et_payload task) s = (Inr ix, s') \<and>
        close_message_payload (tp_libs p) (gateway_root (tp_libs p)) (gc_keypair (tp_config p))
          (message_to_command_id (tp_libs p) message) = Inr ix_close \<and>
        ixs = [ix, ix_close])"

definition carries_out ::
  "('w, ('w, 'z) world_scheme) tx_pusher \<Rightarrow> config_metadata \<Rightarrow> task_item \<Rightarrow> instruction list \<Rightarrow> bool" where
  "carries_out p md item ixs \<longleftrightarrow>
     (let libs = tp_libs p; kp = gc_keypair (tp_config p) in
      case ti_task item of
        GatewayTx data \<Rightarrow> \<exists>ed ix. decode_execute_data libs data = Some ed \<and> gateway_step libs kp ed ix \<and> ixs = [ix]
      | Execute task \<Rightarrow>
          recorded_as False libs (tp_node p) task \<and>
          (\<exists>destination. allowed_destination libs (tp_sdk p) (tp_config p) task destination \<and>
             (upload_ix libs kp (message_to_command_id libs (compose_message md (et_message task))) ixs \<or>
              destination_call p md task destination ixs))
      | Refund task \<Rightarrow>
          (\<exists>receiver amount ix. parse_pubkey (tp_sdk p) (rf_recipient task) = Some receiver \<and>
             rf_remaining task = native amount \<and>
             refund_fees_ix libs kp receiver (gm_message_id (rf_message task)) amount = Inr ix \<and> ixs = [ix])
      | Verify \<Rightarrow> False
      | ConstructProof \<Rightarrow> False)"

text \<open>Transactions of which each carries instructions allowed for some task.\<close>

abbreviation all_carry ::
  "(instruction list \<Rightarrow> transaction \<Rightarrow> bool) \<Rightarrow> (instruction list \<Rightarrow> bool) \<Rightarrow> transaction list \<Rightarrow> bool" where
  "all_carry carrying allowed \<equiv> list_all (\<lambda>t. \<exists>ixs. allowed ixs \<and> carrying ixs t)"

lemma all_carry_mono:
  "all_carry carrying a txs \<Longrightarrow> (\<And>ixs. a ixs \<Longrightarrow> b ixs) \<Longrightarrow> all_carry carrying b txs"
  by (auto simp: list_all_iff)

section \<open>Each kind of task\<close>

lemma issues_failure_event: "issues (\<lambda>q. \<not> is_send q) (failure_event p md i source_chain message_id err)"
  unfolding failure_event_def Let_def
  by (intro moves_option moves_cb_error moves_if grow.bind grow.ret moves_catch_err issues_costs
      issues_fetch gas.gas_quiet; simp)

context task_pusher
begin

lemma gateway_task_only:
  "issues (sends_only (node_tag (tp_node p)) carrying
      (\<lambda>ixs. \<exists>ed ix. decode_execute_data (tp_libs p) data = Some ed \<and> gateway_step (tp_libs p) signer ed ix \<and> ixs = [ix]))
     (gateway_tx_task p data signer)"
proof -
  define only where "only = sends_only (node_tag (tp_node p)) carrying
    (\<lambda>ixs. \<exists>ed ix. decode_execute_data (tp_libs p) data = Some ed \<and> gateway_step (tp_libs p) signer ed ix \<and> ixs = [ix])"
  let ?send = "send_gateway_tx (tp_send p) (tp_libs p)"
  have step: "issues only (?send ix)"
    if "decode_execute_data (tp_libs p) data = Some ed" and "gateway_step (tp_libs p) signer ed ix" for ed ix
    unfolding only_def using that by (intro sending.gateway_tx_only) blast
  have last: "issues only (case ed_items ed of
      VerifierSetRotation h \<Rightarrow> bindE (lift_eyre (rotate_ix (tp_libs p) signer ed h)) ?send
    | NewMessages ms \<Rightarrow> bindE (try_unordered (pick (tp_runtime p)) ?send (built_ixs (approve_ix (tp_libs p) signer ed) ms))
        (\<lambda>_. retE ()))" if "decode_execute_data (tp_libs p) data = Some ed" for ed
    by (cases "ed_items ed") (auto intro!: grow.bind_ok [OF issues_lift_eyre] grow.bind grow.try_all grow.ret step [OF that]
        simp: gateway_step_def)
  have "issues only (gateway_tx_task p data signer)"
    unfolding gateway_tx_task_def Let_def
  proof (rule grow.bind_ok [OF grow.okor], rule grow.bind_ok [OF issues_lift_eyre])
    fix ed ix and s t s' t' :: "('a, 'b) processor_world_scheme"
    assume "ok_or (msg_fault ''cannot decode execute data'') (decode_execute_data (tp_libs p) data) s = (Inr ed, s')"
      and init: "lift_eyre (initialize_session (tp_libs p) signer (gateway_root (tp_libs p)) (ed_payload_root ed)
        (ed_signing_set_root ed)) t = (Inr ix, t')"
    then have ed: "decode_execute_data (tp_libs p) data = Some ed" by (auto simp: ok_or_def split: option.splits)
    show "issues only (bindE (?send ix) (\<lambda>_. bindE (try_unordered (pick (tp_runtime p)) ?send (verify_ixs (tp_libs p) ed))
        (\<lambda>_. case ed_items ed of
           VerifierSetRotation h \<Rightarrow> bindE (lift_eyre (rotate_ix (tp_libs p) signer ed h)) ?send
         | NewMessages ms \<Rightarrow> bindE (try_unordered (pick (tp_runtime p)) ?send
             (built_ixs (approve_ix (tp_libs p) signer ed) ms)) (\<lambda>_. retE ()))))"
      by (intro grow.bind grow.try_all last [OF ed] step [OF ed]) (use init in \<open>auto simp: gateway_step_def\<close>)
  qed
  then show ?thesis by (simp only: only_def)
qed

lemma execute_sends:
  assumes "execute_task_with_estimator p md (gc_keypair (tp_config p)) task s = (r, s')"
    and "ti_task item = Execute task"
  shows "\<exists>txs. sent (node_tag (tp_node p)) s' = sent (node_tag (tp_node p)) s @ txs \<and>
    all_carry carrying (carries_out p md item) txs"
  using execute_stages [OF assms(1)]
proof (elim disjE exE conjE)
  fix d s1
  let ?k = "node_tag (tp_node p)" and ?m = "compose_message md (et_message task)"
  let ?up = "upload (tp_send p) (tp_libs p) (tp_runtime p) (gc_keypair (tp_config p)) ?m (et_payload task)"
  let ?call = "\<lambda>pda. send_to_destination_program p d (gc_keypair (tp_config p)) (message_incoming (tp_libs p) task) pda
    ?m (et_payload task)"
  assume un: "recorded_as False (tp_libs p) (tp_node p) task"
    and d: "allowed_destination (tp_libs p) (tp_sdk p) (tp_config p) task d"
    and s1: "sent ?k s1 = sent ?k s"
    and rest: "bindE ?up (\<lambda>pda. bindE (?call pda) (\<lambda>_. retE ())) s1 = (r, s')"
  have allowed: "carries_out p md item ixs"
    if "upload_ix (tp_libs p) (gc_keypair (tp_config p)) (message_to_command_id (tp_libs p) ?m) ixs \<or>
      destination_call p md task d ixs" for ixs
    using un d that assms(2) by (auto simp: carries_out_def Let_def)
  obtain q s2 where up: "?up s1 = (q, s2)" by fastforce
  from sends_only_run [OF sending.upload_only up] obtain txs where
    "sent ?k s2 = sent ?k s1 @ txs" and "all_carry carrying (upload_ix (tp_libs p) (gc_keypair (tp_config p))
       (message_to_command_id (tp_libs p) ?m)) txs" by blast
  with s1 have txs: "sent ?k s2 = sent ?k s @ txs" "all_carry carrying (carries_out p md item) txs"
    by (auto elim!: all_carry_mono intro: allowed)
  show ?thesis
  proof (cases q)
    case (Inl f)
    with rest up txs show ?thesis by (auto simp: bindE_def)
  next
    case (Inr pda)
    obtain q' s3 where run: "?call pda s2 = (q', s3)" by fastforce
    with rest up Inr have s': "s' = s3" by (auto simp: bindE_def split: sum.splits)
    from destination_program_sends [OF run] show ?thesis
    proof (elim disjE exE conjE)
      fix ix ixc tx s4
      assume "destination_ix p d (gc_keypair (tp_config p)) (message_incoming (tp_libs p) task) pda ?m (et_payload task) s2 =
          (Inr ix, s4)"
        "close_message_payload (tp_libs p) (gateway_root (tp_libs p)) (gc_keypair (tp_config p))
          (message_to_command_id (tp_libs p) ?m) = Inr ixc"
        and tx: "carrying [ix, ixc] tx" "sent ?k s3 = sent ?k s2 @ [tx]"
      then have "destination_call p md task d [ix, ixc]" unfolding destination_call_def Let_def by blast
      with tx txs s' allowed show ?thesis by (intro exI [of _ "txs @ [tx]"]) auto
    qed (use txs s' in auto)
  qed
qed (auto intro: exI [of _ "[]"])

text \<open>Whatever becomes of a task, what it sent carries it out.\<close>

lemma process_sends:
  assumes run: "process_task p md item s = (r, s')"
  shows "\<exists>txs. sent (node_tag (tp_node p)) s' = sent (node_tag (tp_node p)) s @ txs \<and>
    all_carry carrying (carries_out p md item) txs"
proof (cases "ti_task item")
  case (GatewayTx data)
  with run have "gateway_tx_task p data (gc_keypair (tp_config p)) s = (r, s')" by (simp add: process_task_def Let_def)
  from sends_only_run [OF gateway_task_only this] GatewayTx show ?thesis
    by (auto simp: carries_out_def Let_def)
next
  case (Execute task)
  obtain q s1 where first: "catch_errE (execute_task_with_estimator p md (gc_keypair (tp_config p)) task) s = (q, s1)"
    by fastforce
  from catch_err_cases [OF this] obtain q0
    where "execute_task_with_estimator p md (gc_keypair (tp_config p)) task s = (q0, s1)" by blast
  from execute_sends [OF this Execute] obtain txs where
    txs: "sent (node_tag (tp_node p)) s1 = sent (node_tag (tp_node p)) s @ txs"
      "all_carry carrying (carries_out p md item) txs" by blast
  let ?after = "\<lambda>q. case q of Inr _ \<Rightarrow> retE () | Inl err \<Rightarrow>
     bindE (failure_event p md (ti_id item) (gm_source_chain (et_message task)) (gm_message_id (et_message task)) err)
       (\<lambda>event. publish [event])"
  have "issues P (publish evs)" for evs P
    by (auto simp: moves_def publish_def grows_def)
  then have quiet: "issues (\<lambda>q. send_of (node_tag (tp_node p)) q = []) (?after x)" for x
    by (cases x) (auto intro!: grow.ret grow.bind issues_mono [OF issues_failure_event])
  from run first Execute have "case q of Inl f \<Rightarrow> s' = s1 | Inr x \<Rightarrow> ?after x s1 = (r, s')"
    by (auto simp: process_task_def Let_def bindE_def split: sum.splits)
  then have "sent (node_tag (tp_node p)) s' = sent (node_tag (tp_node p)) s1"
    by (cases q) (use no_send_run [OF quiet] in auto)
  with txs show ?thesis by auto
next
  case (Refund task)
  with run have "refund_task p task s = (r, s')" by (simp add: process_task_def Let_def)
  from refund_sends [OF this] show ?thesis
  proof (elim disjE exE conjE)
    fix receiver amount ix tx
    assume "parse_pubkey (tp_sdk p) (rf_recipient task) = Some receiver" "rf_remaining task = native amount"
      "refund_fees_ix (tp_libs p) (gc_keypair (tp_config p)) receiver (gm_message_id (rf_message task)) amount = Inr ix"
      and tx: "carrying [ix] tx" "sent (node_tag (tp_node p)) s' = sent (node_tag (tp_node p)) s @ [tx]"
    with Refund have "carries_out p md item [ix]" by (auto simp: carries_out_def Let_def)
    with tx show ?thesis by (intro exI [of _ "[tx]"]) auto
  qed (auto intro: exI [of _ "[]"])
qed (use run in \<open>auto simp: process_task_def Let_def intro: exI [of _ "[]"]\<close>)

end

section \<open>A step of the loop\<close>

text \<open>The commands that report failures of some of the tasks, in the order of their processing.\<close>

definition reported ::
  "('w, ('w, 'z) world_scheme) tx_pusher \<Rightarrow> config_metadata \<Rightarrow> task_item \<Rightarrow> amp_event list \<Rightarrow> bool" where
  "reported p md item cmd \<longleftrightarrow>
     (\<exists>task err event. ti_task item = Execute task \<and> cmd = [event] \<and> reports p md (ti_id item) task err event)"

definition reports_of ::
  "('w, ('w, 'z) world_scheme) tx_pusher \<Rightarrow> config_metadata \<Rightarrow> task_item list \<Rightarrow> amp_event list list \<Rightarrow> bool" where
  "reports_of p md tasks cmds \<longleftrightarrow> (\<exists>ts. subseq ts tasks \<and> list_all2 (reported p md) ts cmds)"

lemma reports_of_Nil [simp]: "reports_of p md tasks []"
  by (auto simp: reports_of_def intro: exI [of _ "[]"])

lemma reports_of_append:
  assumes "reports_of p md xs cs" and "reports_of p md ys ds"
  shows "reports_of p md (xs @ ys) (cs @ ds)"
proof -
  from assms obtain ts us where "subseq ts xs" "list_all2 (reported p md) ts cs"
    "subseq us ys" "list_all2 (reported p md) us ds" by (auto simp: reports_of_def)
  then show ?thesis unfolding reports_of_def
    by (intro exI [of _ "ts @ us"] conjI list_emb_append_mono list_all2_appendI)
qed

text \<open>Transactions that carry out some of the tasks.\<close>

definition carry_out_some ::
  "('w, ('w, 'z) world_scheme) tx_pusher \<Rightarrow> config_metadata \<Rightarrow> (instruction list \<Rightarrow> transaction \<Rightarrow> bool)
     \<Rightarrow> task_item set \<Rightarrow> transaction list \<Rightarrow> bool" where
  "carry_out_some p md carrying tasks txs \<longleftrightarrow>
     (\<forall>tx \<in> set txs. \<exists>item \<in> tasks. \<exists>ixs. carries_out p md item ixs \<and> carrying ixs tx)"

lemma carry_out_simps [simp]:
  "carry_out_some p md carrying tasks []"
  "carry_out_some p md carrying tasks (txs @ txs') \<longleftrightarrow>
     carry_out_some p md carrying tasks txs \<and> carry_out_some p md carrying tasks txs'"
  by (auto simp: carry_out_some_def)

lemma carry_out_some_mono:
  "carry_out_some p md carrying A txs \<Longrightarrow> A \<subseteq> B \<Longrightarrow> carry_out_some p md carrying B txs"
  unfolding carry_out_some_def by blast

lemma processed_received: "queue_trace evs q \<Longrightarrow> set (processed evs) \<subseteq> set (received evs)"
  using queue_sound_split [of evs "[]" q] by (auto dest: mset_subset_eqD)

context looping_pusher
begin

lemma process_effects:
  assumes "process_task p md item s = (r, s')"
  shows "(\<exists>cmds. published s' = published s @ cmds \<and> reports_of p md [item] cmds \<and> (r \<noteq> Inr () \<longrightarrow> cmds = [])) \<and>
    (\<exists>txs. sent (node_tag (tp_node p)) s' = sent (node_tag (tp_node p)) s @ txs \<and> carry_out_some p md carrying {item} txs)"
proof
  have "reports_of p md [item] [cmd]" if "reported p md item cmd" for cmd
    using that by (auto simp: reports_of_def intro: exI [of _ "[item]"])
  with process_publishes [OF assms]
  show "\<exists>cmds. published s' = published s @ cmds \<and> reports_of p md [item] cmds \<and> (r \<noteq> Inr () \<longrightarrow> cmds = [])"
    unfolding reported_def by (elim disjE) (blast, auto intro: exI [of _ "[]"])
qed (use process_sends [OF assms] in \<open>auto simp: carry_out_some_def list_all_iff\<close>)

lemma background_effects:
  "background p md (q, s) evs (q', s') \<Longrightarrow>
   (\<exists>cmds. published s' = published s @ cmds \<and> reports_of p md (processed evs) cmds) \<and>
   (\<exists>txs. sent (node_tag (tp_node p)) s' = sent (node_tag (tp_node p)) s @ txs \<and>
      carry_out_some p md carrying (set (processed evs)) txs)"
proof (induction "(q, s)" evs "(q', s')" arbitrary: q s rule: background.induct)
  case idle
  show ?case by (auto intro: exI [of _ "[]"])
next
  case (completes i queue task s res s1 evs)
  from catch_err_cases [OF completes.hyps(3)] obtain r where "process_task p md task s = (r, s1)" by blast
  from process_effects [OF this] obtain cmds txs where
    1: "published s1 = published s @ cmds" "reports_of p md [task] cmds"
      "sent (node_tag (tp_node p)) s1 = sent (node_tag (tp_node p)) s @ txs" "carry_out_some p md carrying {task} txs" by blast
  from completes.hyps(5) obtain cmds' txs' where
    2: "published s' = published s1 @ cmds'" "reports_of p md (processed evs) cmds'"
      "sent (node_tag (tp_node p)) s' = sent (node_tag (tp_node p)) s1 @ txs'"
      "carry_out_some p md carrying (set (processed evs)) txs'" by blast
  have "published s' = published s @ cmds @ cmds'" and "reports_of p md (processed (Processed task res # evs)) (cmds @ cmds')"
    using 1 2 reports_of_append [of p md "[task]" cmds "processed evs" cmds'] by simp_all
  moreover have "sent (node_tag (tp_node p)) s' = sent (node_tag (tp_node p)) s @ txs @ txs'"
    and "carry_out_some p md carrying (set (processed (Processed task res # evs))) (txs @ txs')"
    using 1 2 by (auto elim: carry_out_some_mono)
  ultimately show ?case by blast
qed

text \<open>
  What a step of the loop publishes are reports of tasks that it processed, and what it sends
  carries out tasks received so far.
\<close>

lemma step_effects:
  assumes "loop_step p md st (ph, s) out (ph', s')" and "sofar rx0 evs ph"
  shows "(\<exists>cmds. published s' = published s @ cmds \<and> reports_of p md (processed out) cmds) \<and>
   (\<exists>txs. sent (node_tag (tp_node p)) s' = sent (node_tag (tp_node p)) s @ txs \<and>
      carry_out_some p md carrying (set (received (evs @ out))) txs)"
  using assms(1)
proof (cases rule: loop_step.cases)
  case (polled rx queue got rx' queue1 bg queue2 s1 yielded)
  from step_sofar [OF assms] obtain q where "queue_trace (evs @ out) q" by (auto simp: sofar_def)
  then have sub: "set (processed bg) \<subseteq> set (received (evs @ out))"
    using processed_received polled(2) by fastforce
  have "published s' = published s1" "sent k s' = sent k s1" for k
    using polled(5) by (auto simp: yield_next_def save_task_def sent_def split: list.splits running.splits prod.splits
        sum.splits)
  moreover have "processed out = processed bg" using polled(2) yield_events [OF polled(5)] by simp
  ultimately show ?thesis using background_effects [OF polled(4)] carry_out_some_mono [OF _ sub] by auto
next
  case (panicked rx queue got rx' queue1 bg queue2 s1 i task f)
  from assms(2) panicked have "queue_trace evs queue" by (auto simp: sofar_def)
  from background_trace [OF panicked(5) receive_trace [OF panicked(4) this]] panicked(2)
  have trace: "queue_trace (evs @ out) queue2" by simp
  then have sub: "set (processed bg) \<subseteq> set (received (evs @ out))"
    using processed_received panicked(2) by fastforce
  from waiting_received [OF trace panicked(6,7)] have task: "{task} \<subseteq> set (received (evs @ out))" by simp
  from caught_panic [OF panicked(8)] have "process_task p md task s1 = (Inl f, s')" by blast
  from process_effects [OF this] obtain txs' where same: "published s' = published s1"
    and 1: "sent (node_tag (tp_node p)) s' = sent (node_tag (tp_node p)) s1 @ txs'" "carry_out_some p md carrying {task} txs'"
    by auto
  from background_effects [OF panicked(5)] obtain cmds txs where
    cmds: "published s1 = published s @ cmds" "reports_of p md (processed bg) cmds"
    and 2: "sent (node_tag (tp_node p)) s1 = sent (node_tag (tp_node p)) s @ txs"
      "carry_out_some p md carrying (set (processed bg)) txs" by blast
  have "carry_out_some p md carrying (set (received (evs @ out))) (txs @ txs')"
    using carry_out_some_mono [OF 2(2) sub] carry_out_some_mono [OF 1(2) task] by simp
  moreover have "sent (node_tag (tp_node p)) s' = sent (node_tag (tp_node p)) s @ txs @ txs'" using 1 2 by simp
  moreover have "reports_of p md (processed out) cmds" using panicked(2) cmds by simp
  ultimately show ?thesis using same cmds by auto
qed

end

end
