(* ===== verification/RelayerSystem.thy ===== *)
theory RelayerSystem
  imports Relayer Authority
begin

text \<open>
  The relayer as one system: the components that \<open>main\<close> builds
  (\<open>crates/solana-axelar-relayer/src/main.rs\<close>) run concurrently and share the chain they talk to,
  the storage file, the channel from the listener to the forwarder and the command channel of the
  Amplifier component. A step of the system is a step of one component on its view of the shared
  state, or a move of the environment: the chain changes, the Amplifier component stores the id of
  a task it queried, or it goes away.

  The engine, which is external, only decides when which component moves. The step relation leaves
  that open, so what holds in every run holds whatever the engine does, for instance when it stops
  polling the other components once one has ended.

  Each component is shown to keep to its part of the state whatever the others do, and from that
  follow the invariants of every run of the system, and of a sequence of runs in which the relayer
  is killed at any moment and started again on the file that it left.
\<close>

section \<open>Definitions\<close>

record 'w system =
  sys_env :: 'w
  sys_wire :: "request list"
  sys_channel :: channel
  sys_store :: bytes
  sys_published :: "amp_event list list"
  sys_amplifier_open :: bool
  sys_cache :: "pubkey \<Rightarrow> consumption_breakdown option"
  sys_listener :: "phase option"
  sys_pusher :: "loop_phase option"
  sys_forwarder :: "fault option"

text \<open>
  The system as \<open>main\<close> leaves it: the listener and the task processor have not started (\<open>None\<close>),
  and the forwarder, which has no start-up, has not ended.
\<close>

definition system_start :: "('w, 's, 'q, 'v) relayer \<Rightarrow> 'w \<Rightarrow> 'w system" where
  "system_start r e =
     \<lparr>sys_env = e, sys_wire = [], sys_channel = rl_channel r, sys_store = rl_storage r, sys_published = [],
      sys_amplifier_open = True, sys_cache = Map.empty, sys_listener = None, sys_pusher = None,
      sys_forwarder = None\<rparr>"

text \<open>What each component sees of the state, and the state after it has moved.\<close>

definition listener_view :: "'w system \<Rightarrow> ('w, bytes) storage_world" where
  "listener_view S =
     \<lparr>env = sys_env S, wire = sys_wire S, chan = ch_sent (sys_channel S), chan_open = (sys_forwarder S = None),
      store = sys_store S\<rparr>"

definition put_listener :: "'w system \<Rightarrow> ('w, bytes) storage_world \<Rightarrow> phase \<Rightarrow> 'w system" where
  "put_listener S v ph =
     S\<lparr>sys_env := env v, sys_wire := wire v, sys_channel := (sys_channel S)\<lparr>ch_sent := chan v\<rparr>,
       sys_store := store v, sys_listener := Some ph\<rparr>"

definition pusher_view :: "'w system \<Rightarrow> ('w, bytes) pusher_world" where
  "pusher_view S =
     \<lparr>env = sys_env S, wire = sys_wire S, published = sys_published S, amplifier_open = sys_amplifier_open S,
      gas_cache = sys_cache S, task_store = sys_store S\<rparr>"

definition put_pusher :: "'w system \<Rightarrow> ('w, bytes) pusher_world \<Rightarrow> loop_phase \<Rightarrow> 'w system" where
  "put_pusher S v ph =
     S\<lparr>sys_env := env v, sys_wire := wire v, sys_published := published v,
       sys_amplifier_open := amplifier_open v, sys_cache := gas_cache v, sys_store := task_store v, sys_pusher := Some ph\<rparr>"

definition forwarder_view :: "'w system \<Rightarrow> 'w amplifier_world" where
  "forwarder_view S =
     \<lparr>env = sys_env S, wire = sys_wire S, published = sys_published S, amplifier_open = sys_amplifier_open S\<rparr>"

definition put_forwarder :: "'w system \<Rightarrow> 'w amplifier_world \<Rightarrow> fault option \<Rightarrow> 'w system" where
  "put_forwarder S v status =
     S\<lparr>sys_env := env v, sys_wire := wire v, sys_published := published v, sys_amplifier_open := amplifier_open v,
       sys_channel := (sys_channel S)\<lparr>ch_taken := Suc (ch_taken (sys_channel S))\<rparr>, sys_forwarder := status\<rparr>"

text \<open>What is noted of a run: the register after the listener's start-up, and the events of the task loop.\<close>

datatype system_event = CaughtUp "fault + signature option" | Tasks "loop_event list"

inductive system_step ::
  "('w, ('w, bytes) pusher_world, 'q, 'v) relayer \<Rightarrow> forward_libs \<Rightarrow> file_os \<Rightarrow> string option
     \<Rightarrow> 'w system \<Rightarrow> system_event list \<Rightarrow> 'w system \<Rightarrow> bool"
  for r flibs os force where
  listener_starts:
    "sys_listener S = None \<Longrightarrow>
     startup (tp_fuel (rl_pusher r)) (tp_sdk (rl_pusher r)) (tp_runtime (rl_pusher r)) (sl_node (rl_listener r))
       (sl_config (rl_listener r)) (memmap_state os) force (listener_view S) = (res, v) \<Longrightarrow>
     system_step r flibs os force S [CaughtUp (processed_signature (store v))]
       (put_listener S v (case res of Inl f \<Rightarrow> Stopped f | Inr _ \<Rightarrow> Connecting))"
| listener_moves:
    "sys_listener S = Some ph \<Longrightarrow>
     rt_step (tp_fuel (rl_pusher r)) (tp_sdk (rl_pusher r)) (tp_runtime (rl_pusher r)) (sl_node (rl_listener r))
       (sl_config (rl_listener r)) (memmap_state os) (ph, listener_view S) (ph', v) \<Longrightarrow>
     system_step r flibs os force S [] (put_listener S v ph')"
| pusher_starts:
    "sys_pusher S = None \<Longrightarrow>
     pusher_startup (rl_pusher r) (get_config_metadata (rl_pusher r)) (pusher_view S) = (res, v) \<Longrightarrow>
     system_step r flibs os force S []
       (put_pusher S v (case res of Inl f \<Rightarrow> Halted f | Inr _ \<Rightarrow> Running rx []))"
| pusher_polls:
    "sys_pusher S = Some ph \<Longrightarrow>
     loop_step (rl_pusher r) (get_config_metadata (rl_pusher r)) (memmap_tasks os) (ph, pusher_view S) evs (ph', v) \<Longrightarrow>
     system_step r flibs os force S [Tasks evs] (put_pusher S v ph')"
| forwards:
    "sys_forwarder S = None \<Longrightarrow> ch_taken (sys_channel S) < length (ch_sent (sys_channel S)) \<Longrightarrow>
     forward_one flibs (rl_forwarder r) (relayer_gas r) (ch_sent (sys_channel S) ! ch_taken (sys_channel S))
       (forwarder_view S) = (res, v) \<Longrightarrow>
     system_step r flibs os force S []
       (put_forwarder S v (case res of Inl f \<Rightarrow> Some f | Inr _ \<Rightarrow> None))"
| channel_ends:
    "sys_forwarder S = None \<Longrightarrow> sys_listener S = Some (Stopped f) \<Longrightarrow>
     ch_taken (sys_channel S) = length (ch_sent (sys_channel S)) \<Longrightarrow>
     system_step r flibs os force S [] (S\<lparr>sys_forwarder := Some (msg_fault ''Listener has stopped unexpectedly'')\<rparr>)"
| amplifier_queries:
    "system_step r flibs os force S [] (S\<lparr>sys_store := snd (set_latest_queried_task_id os i (sys_store S))\<rparr>)"
| amplifier_ends: "system_step r flibs os force S [] (S\<lparr>sys_amplifier_open := False\<rparr>)"
| chain_moves: "system_step r flibs os force S [] (S\<lparr>sys_env := e\<rparr>)"

inductive system_run ::
  "('w, ('w, bytes) pusher_world, 'q, 'v) relayer \<Rightarrow> forward_libs \<Rightarrow> file_os \<Rightarrow> string option
     \<Rightarrow> 'w system \<Rightarrow> system_event list \<Rightarrow> 'w system \<Rightarrow> bool"
  for r flibs os force S0 where
  start: "system_run r flibs os force S0 [] S0"
| step: "system_run r flibs os force S0 evs S \<Longrightarrow> system_step r flibs os force S out S' \<Longrightarrow>
    system_run r flibs os force S0 (evs @ out) S'"

text \<open>
  The life of a relayer across restarts: each run starts on the file and the chain that the run
  before it left, wherever that run had come to. Of each run its notes and the transactions on its
  channel are kept.
\<close>

inductive lives ::
  "((string \<Rightarrow> bytes option) \<Rightarrow> fault + ('w, ('w, bytes) pusher_world, 'q, 'v) relayer) \<Rightarrow> string \<Rightarrow> forward_libs \<Rightarrow> file_os
     \<Rightarrow> (string \<Rightarrow> bytes option) \<Rightarrow> (system_event list \<times> solana_tx list) list \<Rightarrow> 'w system \<Rightarrow> bool"
  for main path flibs os disk where
  begins:
    "main disk = Inr r \<Longrightarrow> system_run r flibs os force (system_start r e) evs S \<Longrightarrow>
     lives main path flibs os disk [(evs, ch_sent (sys_channel S))] S"
| restarts:
    "lives main path flibs os disk runs S \<Longrightarrow> main (disk(path \<mapsto> sys_store S)) = Inr r \<Longrightarrow>
     system_run r flibs os force (system_start r (sys_env S)) evs S' \<Longrightarrow>
     lives main path flibs os disk (runs @ [(evs, ch_sent (sys_channel S'))]) S'"

definition task_trace :: "system_event list \<Rightarrow> loop_event list" where
  "task_trace evs = concat (map (\<lambda>e. case e of Tasks tr \<Rightarrow> tr | _ \<Rightarrow> []) evs)"

lemma task_trace_simps [simp]:
  "task_trace [] = []" "task_trace (xs @ ys) = task_trace xs @ task_trace ys"
  "task_trace [CaughtUp x] = []" "task_trace [Tasks tr] = tr"
  by (simp_all add: task_trace_def)

lemma view_simps [simp]:
  "env (listener_view S) = sys_env S" "wire (listener_view S) = sys_wire S"
  "chan (listener_view S) = ch_sent (sys_channel S)" "chan_open (listener_view S) = (sys_forwarder S = None)"
  "store (listener_view S) = sys_store S"
  "wire (pusher_view S) = sys_wire S" "published (pusher_view S) = sys_published S"
  "amplifier_open (pusher_view S) = sys_amplifier_open S" "task_store (pusher_view S) = sys_store S"
  "wire (forwarder_view S) = sys_wire S" "published (forwarder_view S) = sys_published S"
  by (simp_all add: listener_view_def pusher_view_def forwarder_view_def)

lemmas put_defs = put_listener_def put_pusher_def put_forwarder_def

section \<open>What the listener does to the shared state\<close>

text \<open>
  It appends to the channel, writes its own register and nothing else of the storage, and sends no
  transaction.
\<close>

definition listens :: "file_os \<Rightarrow> ('w, bytes) storage_world \<Rightarrow> ('w, bytes) storage_world \<Rightarrow> bool" where
  "listens os s s' \<longleftrightarrow> grows (\<lambda>q. \<not> is_send q) s s' \<and>
     (\<exists>ts. chan s' = chan s @ ts) \<and>
     (\<exists>sigs. store s' = fold (\<lambda>x m. snd (set_processed_signature os x m)) sigs (store s))"

named_theorems listening_rules \<open>computations that keep to the listener's part of the state\<close>

lemma listens_refl: "listens os s s"
  by (auto simp: listens_def grows_refl intro: exI [of _ "[]"])

lemma listens_trans:
  assumes "listens os s t" and "listens os t u"
  shows "listens os s u"
proof -
  from assms have "grows (\<lambda>q. \<not> is_send q) s u" by (auto simp: listens_def intro: grows_trans)
  moreover from assms obtain ts us xs ys where "chan t = chan s @ ts" "chan u = chan t @ us"
    and "store t = fold (\<lambda>x m. snd (set_processed_signature os x m)) xs (store s)"
      "store u = fold (\<lambda>x m. snd (set_processed_signature os x m)) ys (store t)"
    unfolding listens_def by blast
  ultimately show ?thesis unfolding listens_def
    by (intro conjI exI [of _ "ts @ us"] exI [of _ "xs @ ys"]) simp_all
qed

interpretation listening: state_order "listens os" for os
  by unfold_locales (auto intro: listens_refl listens_trans)

lemmas [listening_rules] = listening.rules

lemma extends_listens: "extends s s' \<Longrightarrow> listens os s s'"
  unfolding extends_def listens_def grows_def by (auto intro: exI [of _ "[]"])

lemma listening_extending: "extending m \<Longrightarrow> moves (listens os) m"
  by (erule moves_mono) (rule extends_listens)

lemma listening_save [listening_rules]: "moves (listens os) (save_latest (memmap_state os) sig)"
proof (rule movesI)
  fix s r and s' :: "('a, bytes) storage_world"
  assume "save_latest (memmap_state os) sig s = (r, s')"
  then have "s' = s\<lparr>store := snd (set_processed_signature os sig (store s))\<rparr>"
    by (auto simp: save_latest_def memmap_state_def split: prod.splits)
  then show "listens os s s'" unfolding listens_def grows_def by (auto intro: exI [of _ "[sig]"])
qed

lemma listening_startup: "moves (listens os) (startup fuel sdk rt nd cfg (memmap_state os) force)"
  unfolding startup_def
  by (intro listening_rules listening_extending [OF extending_load] listening_extending [OF extending_batches])

lemma listening_fetched: "moves (listens os) (handle_fetched (memmap_state os) r)"
proof -
  have "moves (listens os) (bindE (chan_send tx) (\<lambda>_. bindE (save_latest (memmap_state os) sig) (\<lambda>_. retE Continue)))"
    for tx sig by (intro listening_rules listening_extending [OF extending_chan_send])
  then show ?thesis unfolding handle_fetched_def
    by (auto split: sum.splits option.splits fault.splits intro: listening.ret listening.fail)
qed

lemma rt_step_listens:
  assumes "rt_step fuel sdk rt nd cfg (memmap_state os) (ph, s) (ph', s')"
  shows "listens os s s'"
  using assms
proof (cases rule: rt_step.cases)
  case (first_item ws i ws' r)
  then show ?thesis using movesD [OF extending_first] by (blast intro: extends_listens)
next
  case (fetched i inflight r s1 m ws)
  then have "listens os s s1" using movesD [OF extending_live] by (blast intro: extends_listens)
  moreover have "listens os s1 s'" using fetched by (blast intro: movesD [OF listening_fetched])
  ultimately show ?thesis by (rule listens_trans)
qed (simp_all add: listens_refl)

section \<open>The registers\<close>

lemma listener_registers:
  "fold (\<lambda>x m. snd (set_processed_signature os x m)) sigs (bytes_of m) =
     bytes_of (m\<lparr>latest_processed_signature := last (latest_processed_signature m # sigs)\<rparr>)"
  by (induction sigs arbitrary: m) (simp_all add: storage_defs Let_def)

lemma pusher_registers:
  "fold (\<lambda>i m. snd (set_latest_processed_task_id os i m)) ids (bytes_of m) =
     bytes_of (m\<lparr>latest_processed_task_item_id := last (latest_processed_task_item_id m # ids)\<rparr>)"
  by (induction ids arbitrary: m) (simp_all add: storage_defs Let_def)

lemma amplifier_registers:
  "snd (set_latest_queried_task_id os i (bytes_of m)) = bytes_of (m\<lparr>latest_queried_task_item_id := i\<rparr>)"
  by (simp add: storage_defs Let_def)

lemma read_registers:
  "latest_processed_task_id (bytes_of m) = Inr (as_option (latest_processed_task_item_id m))"
  "processed_signature (bytes_of m) = Inr (as_option (latest_processed_signature m))"
  by (simp_all add: storage_defs)

text \<open>
  What the file holds after the noted events: the id register is the last id recorded by the task
  loop, and the signature register is the initial one, the one after a start-up of the listener,
  or that of a transaction on the channel.
\<close>

definition register_origin :: "internal_state \<Rightarrow> system_event list \<Rightarrow> solana_tx list \<Rightarrow> signature \<Rightarrow> bool" where
  "register_origin m0 evs txs sig \<longleftrightarrow>
     sig = latest_processed_signature m0 \<or> CaughtUp (Inr (as_option sig)) \<in> set evs \<or>
     (\<exists>tx \<in> set txs. as_option sig = as_option (lt_signature tx))"

definition registers_inv :: "internal_state \<Rightarrow> system_event list \<Rightarrow> 'w system \<Rightarrow> bool" where
  "registers_inv m0 evs S \<longleftrightarrow>
     (\<exists>m. sys_store S = bytes_of m \<and>
        latest_processed_task_item_id m = last (latest_processed_task_item_id m0 # recorded_ids (task_trace evs)) \<and>
        register_origin m0 evs (ch_sent (sys_channel S)) (latest_processed_signature m))"

lemma register_origin_mono:
  "register_origin m0 evs txs sig \<Longrightarrow> set evs \<subseteq> set evs' \<Longrightarrow> set txs \<subseteq> set txs' \<Longrightarrow> register_origin m0 evs' txs' sig"
  unfolding register_origin_def by blast

lemma listener_keeps_registers:
  assumes inv: "registers_inv m0 evs S" and step: "listens os (listener_view S) v"
    and trace: "task_trace evs' = task_trace evs" and sub: "set evs \<subseteq> set evs'"
    and origin: "store v = sys_store S \<or> CaughtUp (processed_signature (store v)) \<in> set evs' \<or>
      (\<exists>tx \<in> set (chan v). processed_signature (store v) = Inr (as_option (lt_signature tx)))"
  shows "registers_inv m0 evs' (put_listener S v ph)"
proof -
  from inv obtain m where m: "sys_store S = bytes_of m"
    "latest_processed_task_item_id m = last (latest_processed_task_item_id m0 # recorded_ids (task_trace evs))"
    "register_origin m0 evs (ch_sent (sys_channel S)) (latest_processed_signature m)" by (auto simp: registers_inv_def)
  from step obtain sigs where
    "store v = fold (\<lambda>x m. snd (set_processed_signature os x m)) sigs (sys_store S)"
    and sent: "set (ch_sent (sys_channel S)) \<subseteq> set (chan v)" by (auto simp: listens_def)
  with m listener_registers obtain sig where v: "store v = bytes_of (m\<lparr>latest_processed_signature := sig\<rparr>)" by metis
  have "register_origin m0 evs' (chan v) sig"
    using origin
  proof (elim disjE)
    assume "store v = sys_store S"
    then have "m\<lparr>latest_processed_signature := sig\<rparr> = m" using v m(1) by (metis from_bytes_of sum.inject(2))
    then have "sig = latest_processed_signature m" by (metis internal_state.select_convs(3) internal_state.surjective internal_state.update_convs(3))
    with m(3) sub sent show ?thesis using register_origin_mono by blast
  qed (auto simp: v read_registers register_origin_def)
  with v m trace show ?thesis by (auto simp: registers_inv_def put_listener_def)
qed

section \<open>The invariant of the system\<close>

definition sys_sent :: "node_tag \<Rightarrow> 'w system \<Rightarrow> transaction list" where
  "sys_sent k S = concat (map (send_of k) (sys_wire S))"

lemma sys_sent_views:
  "sent k (listener_view S) = sys_sent k S" "sent k (pusher_view S) = sys_sent k S" "sent k (forwarder_view S) = sys_sent k S"
  "sys_sent k (put_listener S v ph) = sent k v" "sys_sent k (put_pusher S u lph) = sent k u"
  "sys_sent k (put_forwarder S w status) = sent k w"
  by (simp_all add: sys_sent_def sent_def put_defs)

text \<open>
  The task loop is on a run of its own; what is published interleaves the commands of the
  forwarder, one for each transaction it has taken, and the reports of the task processor; and
  what was sent carries out tasks received.
\<close>

definition tasks_inv :: "system_event list \<Rightarrow> 'w system \<Rightarrow> bool" where
  "tasks_inv evs S \<longleftrightarrow>
     (case sys_pusher S of None \<Rightarrow> task_trace evs = [] | Some ph \<Rightarrow> \<exists>rx0. sofar rx0 (task_trace evs) ph)"

definition forwarded :: "('w, 's, 'q, 'v) relayer \<Rightarrow> forward_libs \<Rightarrow> 'w system \<Rightarrow> amp_event list list \<Rightarrow> bool" where
  "forwarded r flibs S cmds \<longleftrightarrow>
     list_all2 (published_for flibs (rl_forwarder r)) (take (length cmds) (ch_sent (sys_channel S))) cmds \<and>
     length cmds \<le> ch_taken (sys_channel S) \<and> ch_taken (sys_channel S) \<le> Suc (length cmds) \<and>
     ch_taken (sys_channel S) \<le> length (ch_sent (sys_channel S)) \<and>
     (sys_forwarder S = None \<longrightarrow> ch_taken (sys_channel S) = length cmds)"

definition publish_inv ::
  "('w, ('w, bytes) pusher_world, 'q, 'v) relayer \<Rightarrow> forward_libs \<Rightarrow> system_event list \<Rightarrow> 'w system \<Rightarrow> bool" where
  "publish_inv r flibs evs S \<longleftrightarrow>
     (\<exists>cmds reps. sys_published S \<in> shuffles cmds reps \<and> forwarded r flibs S cmds \<and>
        reports_of (rl_pusher r) (get_config_metadata (rl_pusher r)) (processed (task_trace evs)) reps)"

definition system_inv ::
  "('w, ('w, bytes) pusher_world, 'q, 'v) relayer \<Rightarrow> forward_libs \<Rightarrow> (instruction list \<Rightarrow> transaction \<Rightarrow> bool)
     \<Rightarrow> internal_state \<Rightarrow> system_event list \<Rightarrow> 'w system \<Rightarrow> bool" where
  "system_inv r flibs carrying m0 evs S \<longleftrightarrow>
     registers_inv m0 evs S \<and> tasks_inv evs S \<and> publish_inv r flibs evs S \<and>
     carry_out_some (rl_pusher r) (get_config_metadata (rl_pusher r)) carrying (set (received (task_trace evs)))
       (sys_sent (node_tag (tp_node (rl_pusher r))) S)"

lemma forwarded_grows:
  assumes "forwarded r flibs S cmds" and "ch_sent (sys_channel S') = ch_sent (sys_channel S) @ ts"
    and "ch_taken (sys_channel S') = ch_taken (sys_channel S)" and "sys_forwarder S' = sys_forwarder S"
  shows "forwarded r flibs S' cmds"
  using assms by (auto simp: forwarded_def)

lemma sofar_start: "sofar rx [] (Running rx [])" "sofar rx [] (Halted f)"
  by (auto simp: sofar_def intro: queue_trace.empty)

lemma quiet_grows: "grows (\<lambda>q. \<not> is_send q) s s' \<Longrightarrow> sent k s' = sent k s"
  by (rule grows_no_send, erule grows_mono) simp

lemma listener_keeps_inv:
  assumes inv: "system_inv r flibs carrying m0 evs S" and step: "listens os (listener_view S) v"
    and trace: "task_trace evs' = task_trace evs" and sub: "set evs \<subseteq> set evs'"
    and origin: "store v = sys_store S \<or> CaughtUp (processed_signature (store v)) \<in> set evs' \<or>
      (\<exists>tx \<in> set (chan v). processed_signature (store v) = Inr (as_option (lt_signature tx)))"
  shows "system_inv r flibs carrying m0 evs' (put_listener S v ph)"
proof -
  from step obtain ts where ts: "chan v = ch_sent (sys_channel S) @ ts" and "grows (\<lambda>q. \<not> is_send q) (listener_view S) v"
    by (auto simp: listens_def)
  with quiet_grows have sends: "sys_sent k (put_listener S v ph) = sys_sent k S" for k
    by (metis sys_sent_views(1,4))
  have "publish_inv r flibs evs' (put_listener S v ph)"
    using inv trace ts forwarded_grows [of r flibs S _ "put_listener S v ph" ts]
    by (fastforce simp: system_inv_def publish_inv_def put_listener_def)
  moreover have "tasks_inv evs' (put_listener S v ph)"
    using inv trace by (cases "sys_pusher S") (auto simp: system_inv_def tasks_inv_def put_listener_def)
  ultimately show ?thesis
    using inv listener_keeps_registers [OF _ step trace sub origin] trace sends by (simp add: system_inv_def)
qed

text \<open>The task processor on the storage that it shares with the others.\<close>

locale storing_pusher = looping_pusher p carrying
  for p :: "('w, ('w, bytes) pusher_world) tx_pusher" and carrying
begin

lemma starting_keeps_inv:
  assumes inv: "system_inv r flibs carrying m0 evs S" and p: "rl_pusher r = p" and "sys_pusher S = None"
    and start: "pusher_startup p md (pusher_view S) = (res, v)"
  shows "system_inv r flibs carrying m0 evs (put_pusher S v (case res of Inl f \<Rightarrow> Halted f | Inr _ \<Rightarrow> Running rx []))"
    (is "system_inv _ _ _ _ _ (put_pusher S v ?ph)")
proof -
  from movesD [OF startup_confined start] have v: "published v = sys_published S" "task_store v = sys_store S"
    by (auto simp: same_component_def)
  from quiet_grows [OF movesD [OF startup_quiet start]]
  have sends: "sys_sent k (put_pusher S v ?ph) = sys_sent k S" for k
    by (simp add: sys_sent_views)
  from inv assms(3) have none: "task_trace evs = []" by (simp add: system_inv_def tasks_inv_def)
  have "tasks_inv evs (put_pusher S v ?ph)"
    using sofar_start by (auto simp: tasks_inv_def put_pusher_def none split: sum.splits)
  with inv v sends show ?thesis
    by (simp add: system_inv_def registers_inv_def publish_inv_def forwarded_def put_pusher_def)
qed

lemma polling_keeps_inv:
  assumes inv: "system_inv r flibs carrying m0 evs S" and p: "rl_pusher r = p" "get_config_metadata p = md"
    and ph: "sys_pusher S = Some ph"
    and step: "loop_step p md (memmap_tasks os) (ph, pusher_view S) out (ph', v)"
  shows "system_inv r flibs carrying m0 (evs @ [Tasks out]) (put_pusher S v ph')"
proof -
  from inv ph obtain rx0 where sofar: "sofar rx0 (task_trace evs) ph" by (auto simp: system_inv_def tasks_inv_def)
  from step_effects [OF step sofar] obtain cmds txs where
    cmds: "published v = sys_published S @ cmds" "reports_of p md (processed out) cmds"
    and txs: "sent (node_tag (tp_node p)) v = sys_sent (node_tag (tp_node p)) S @ txs"
      "carry_out_some p md carrying (set (received (task_trace evs @ out))) txs" by (auto simp: sys_sent_views)
  from inv obtain m where m: "sys_store S = bytes_of m"
    "latest_processed_task_item_id m = last (latest_processed_task_item_id m0 # recorded_ids (task_trace evs))"
    "register_origin m0 evs (ch_sent (sys_channel S)) (latest_processed_signature m)"
    by (auto simp: system_inv_def registers_inv_def)
  have "task_store v = fold (\<lambda>i m. snd (set_latest_processed_task_id os i m)) (recorded_ids out) (bytes_of m)"
    using step_store [OF step] m(1) by (simp add: memmap_tasks_def)
  moreover have "register_origin m0 (evs @ [Tasks out]) (ch_sent (sys_channel S)) (latest_processed_signature m)"
    by (rule register_origin_mono [OF m(3)]) auto
  ultimately have "registers_inv m0 (evs @ [Tasks out]) (put_pusher S v ph')"
    using m(2) by (auto simp: registers_inv_def put_pusher_def pusher_registers)
  moreover have "tasks_inv (evs @ [Tasks out]) (put_pusher S v ph')"
    using step_sofar [OF step sofar] by (auto simp: tasks_inv_def put_pusher_def)
  moreover from inv obtain fwds reps where "sys_published S \<in> shuffles fwds reps" "forwarded r flibs S fwds"
    and reps: "reports_of p md (processed (task_trace evs)) reps"
    by (auto simp: system_inv_def publish_inv_def p)
  then have "published v \<in> shuffles fwds (reps @ cmds)" "forwarded r flibs (put_pusher S v ph') fwds"
    using shuffles_append [of "sys_published S" fwds reps cmds "[]" cmds] cmds(1) by (simp_all add: forwarded_def put_pusher_def)
  then have "publish_inv r flibs (evs @ [Tasks out]) (put_pusher S v ph')"
    using reports_of_append [OF reps cmds(2)] by (auto simp: publish_inv_def put_pusher_def p)
  moreover have "carry_out_some p md carrying (set (received (task_trace evs @ out))) (sys_sent (node_tag (tp_node p)) S)"
    using inv by (auto simp: system_inv_def p elim!: carry_out_some_mono)
  ultimately show ?thesis using txs by (simp add: system_inv_def p sys_sent_views)
qed

end

text \<open>The forwarder publishes for the next transaction of the channel, or stops.\<close>

lemma forwarding_keeps_inv:
  assumes inv: "system_inv r flibs carrying m0 evs S"
    and ready: "sys_forwarder S = None" "ch_taken (sys_channel S) < length (ch_sent (sys_channel S))"
    and run: "forward_one flibs (rl_forwarder r) (relayer_gas r) (ch_sent (sys_channel S) ! ch_taken (sys_channel S))
       (forwarder_view S) = (res, v)"
  shows "system_inv r flibs carrying m0 evs (put_forwarder S v (case res of Inl f \<Rightarrow> Some f | Inr _ \<Rightarrow> None))"
    (is "system_inv _ _ _ _ _ (put_forwarder S v ?status)")
proof -
  let ?message = "ch_sent (sys_channel S) ! ch_taken (sys_channel S)"
  note forward = forward.forward_one_cases [OF run [unfolded relayer_gas_def Let_def]]
  then have sends: "sys_sent k (put_forwarder S v ?status) = sys_sent k S" for k by (simp add: sys_sent_views)
  from forward have cases: "res = Inr () \<and> (\<exists>amps. published_for flibs (rl_forwarder r) ?message amps \<and>
        published v = sys_published S @ [amps]) \<or> (\<exists>e. res = Inl e) \<and> published v = sys_published S"
    by auto
  from inv obtain cmds reps where 1: "sys_published S \<in> shuffles cmds reps" "forwarded r flibs S cmds"
    and reps: "reports_of (rl_pusher r) (get_config_metadata (rl_pusher r)) (processed (task_trace evs)) reps"
    by (auto simp: system_inv_def publish_inv_def)
  from 1 ready have taken: "ch_taken (sys_channel S) = length cmds"
    and all: "list_all2 (published_for flibs (rl_forwarder r)) (take (length cmds) (ch_sent (sys_channel S))) cmds"
    by (simp_all add: forwarded_def)
  have "\<exists>cmds'. published v \<in> shuffles cmds' reps \<and> forwarded r flibs (put_forwarder S v ?status) cmds'"
    using cases
  proof (elim disjE exE conjE)
    fix amps
    assume "res = Inr ()" and amps: "published_for flibs (rl_forwarder r) ?message amps"
      and v: "published v = sys_published S @ [amps]"
    then have "forwarded r flibs (put_forwarder S v ?status) (cmds @ [amps])"
      using ready all by (simp add: forwarded_def put_forwarder_def taken take_Suc_conv_app_nth list_all2_appendI)
    moreover have "published v \<in> shuffles (cmds @ [amps]) reps"
      using shuffles_append [OF 1(1), of "[amps]" "[amps]" "[]"] v by simp
    ultimately show ?thesis by blast
  next
    fix e
    assume "res = Inl e" "published v = sys_published S"
    with 1 ready all show ?thesis
      by (intro exI [of _ cmds]) (simp add: forwarded_def put_forwarder_def taken)
  qed
  then have "publish_inv r flibs evs (put_forwarder S v ?status)"
    using reps by (auto simp: publish_inv_def put_forwarder_def)
  with inv sends show ?thesis by (simp add: system_inv_def registers_inv_def tasks_inv_def put_forwarder_def)
qed

context storing_pusher
begin

lemma step_keeps_inv:
  assumes "system_step r flibs os force S out S'" and inv: "system_inv r flibs carrying m0 evs S" and p: "rl_pusher r = p"
  shows "system_inv r flibs carrying m0 (evs @ out) S'"
  using assms(1)
proof (cases rule: system_step.cases)
  case (listener_starts res v)
  show ?thesis unfolding listener_starts(1,2)
    by (rule listener_keeps_inv [OF inv movesD [OF listening_startup listener_starts(4)]]) auto
next
  case (listener_moves ph ph' v)
  have "recorded (memmap_state os) (\<lambda>bs. length bs = state_len) (listener_view S) (listener_view S)"
    using inv by (auto simp: recorded_def system_inv_def registers_inv_def)
  from memmap.rt_step_recorded [OF listener_moves(4) this]
  have "store v = sys_store S \<or> (\<exists>tx \<in> set (chan v). processed_signature (store v) = Inr (as_option (lt_signature tx)))"
    by (auto simp: recorded_def memmap_state_def)
  then show ?thesis unfolding listener_moves(1,2)
    by (intro listener_keeps_inv [OF inv rt_step_listens [OF listener_moves(4)]]) auto
next
  case (pusher_starts res v rx)
  with starting_keeps_inv [OF inv p] p show ?thesis by simp
next
  case (pusher_polls ph evs' ph' v)
  with polling_keeps_inv [OF inv p refl] p show ?thesis by simp
next
  case (forwards res v)
  with forwarding_keeps_inv [OF inv] show ?thesis by simp
next
  case (amplifier_queries i)
  with inv amplifier_registers show ?thesis
    by (auto simp: system_inv_def registers_inv_def tasks_inv_def publish_inv_def forwarded_def sys_sent_def)
qed (use inv in \<open>auto simp: system_inv_def registers_inv_def tasks_inv_def publish_inv_def forwarded_def sys_sent_def\<close>)

lemma run_keeps_inv:
  assumes "system_run r flibs os force (system_start r e) evs S" and "rl_pusher r = p" and "rl_storage r = bytes_of m0"
    and "rl_channel r = \<lparr>ch_sent = [], ch_taken = 0\<rparr>"
  shows "system_inv r flibs carrying m0 evs S"
  using assms(1)
proof induction
  case start
  have "registers_inv m0 [] (system_start r e)"
    using assms(3) by (auto simp: registers_inv_def system_start_def register_origin_def)
  moreover have "publish_inv r flibs [] (system_start r e)"
    using assms(4) by (auto simp: publish_inv_def forwarded_def system_start_def intro!: exI [of _ "[]"])
  ultimately show ?case by (simp add: system_inv_def tasks_inv_def system_start_def sys_sent_def)
next
  case (step evs S out S')
  then show ?case using step_keeps_inv assms(2) by blast
qed

end

interpretation storing: storing_pusher "new_pusher cfg name nd sn rt sdk libs codec fuel" "carries sdk (gc_keypair cfg)"
  for cfg name nd sn rt sdk libs codec fuel
  by (rule storing_pusher.intro) (rule looping.looping_pusher_axioms)

section \<open>Runs of the task processor are runs of the system\<close>

lemma pusher_view_put [simp]: "pusher_view (put_pusher S v ph) = v"
  by (cases v) (simp add: pusher_view_def put_pusher_def)

lemma put_pusher_put [simp]: "put_pusher (put_pusher S v ph) v' ph' = put_pusher S v' ph'"
  by (simp add: put_pusher_def)

lemma loop_in_system:
  assumes "loop_run (rl_pusher r) (get_config_metadata (rl_pusher r)) (memmap_tasks os) (ph0, v0) evs (ph, v)"
    and "system_run r flibs os force S0 es (put_pusher S v0 ph0)"
  shows "\<exists>es'. system_run r flibs os force S0 (es @ es') (put_pusher S v ph) \<and> task_trace es' = evs"
  using assms(1)
proof (induction evs "(ph, v)" arbitrary: ph v rule: loop_run.induct)
  case start
  with assms(2) show ?case by (intro exI [of _ "[]"]) simp
next
  case (step evs c1 out)
  obtain ph1 v1 where c1: "c1 = (ph1, v1)" by fastforce
  with step obtain es' where run: "system_run r flibs os force S0 (es @ es') (put_pusher S v1 ph1)"
    and trace: "task_trace es' = evs" by blast
  have "sys_pusher (put_pusher S v1 ph1) = Some ph1" by (simp add: put_pusher_def)
  from system_step.pusher_polls [OF this, of r os out ph v flibs force] step(3) c1
  have "system_step r flibs os force (put_pusher S v1 ph1) [Tasks out] (put_pusher S v ph)" by simp
  from system_run.step [OF run this] trace show ?case by (intro exI [of _ "es' @ [Tasks out]"]) simp
qed

lemma pusher_in_system:
  assumes "pusher_process (rl_pusher r) (memmap_tasks os) rx (pusher_view S) evs (ph, v)" and "sys_pusher S = None"
  shows "\<exists>es. system_run r flibs os force S es (put_pusher S v ph) \<and> task_trace es = evs"
proof -
  obtain res v1 where first: "pusher_startup (rl_pusher r) (get_config_metadata (rl_pusher r)) (pusher_view S) = (res, v1)"
    by fastforce
  let ?ph = "case res of Inl f \<Rightarrow> Halted f | Inr _ \<Rightarrow> Running rx []"
  have one: "system_run r flibs os force S [] (put_pusher S v1 ?ph)"
    using system_run.step [OF system_run.start system_step.pusher_starts [OF assms(2) first]] by simp
  show ?thesis
  proof (cases res)
    case (Inl f)
    with assms(1) first one show ?thesis by (intro exI [of _ "[]"]) (simp add: pusher_process_def)
  next
    case (Inr u)
    with assms(1) first have "loop_run (rl_pusher r) (get_config_metadata (rl_pusher r)) (memmap_tasks os) (Running rx [], v1) evs (ph, v)"
      by (simp add: pusher_process_def)
    from loop_in_system [OF this] one Inr show ?thesis by force
  qed
qed

section \<open>Properties\<close>

lemma relayer_inv:
  assumes wired: "relayer_main os disk cfg nd sn rt sdk libs codec fuel = Inr r" and m0: "rl_storage r = bytes_of m0"
    and run: "system_run r flibs os force (system_start r e) evs S"
  shows "system_inv r flibs (carries sdk (gc_keypair (cfg_processor cfg))) m0 evs S"
  using storing.run_keeps_inv [OF run _ m0] relayer_main_ok [OF wired] by blast

text \<open>
  C11. In every run of the relayer, however its components interleave with each other and with the
  Amplifier component, the file stays well formed; the task ids recorded so far are those of the
  first tasks received, each processed before, and the id register holds the last of them; and
  the signature register holds what it held at first, what the start-up of the listener left, or
  the signature of a transaction that is on the channel.
\<close>

theorem system_registers:
  fixes r :: "('w, ('w, bytes) pusher_world, 'q, 'v) relayer"
  assumes "relayer_main os disk cfg nd sn rt sdk libs codec fuel = Inr r" and "length (rl_storage r) = state_len"
    and "system_run r flibs os force (system_start r e) evs S"
  shows "length (sys_store S) = state_len \<and>
    (\<forall>e1 e2. task_trace evs = e1 @ e2 \<longrightarrow> (\<exists>old new. received e1 = old @ new \<and> recorded_ids e1 = map ti_id old \<and>
       mset old \<subseteq># mset (processed e1) \<and> mset (processed e1) \<subseteq># mset (received e1))) \<and>
    latest_processed_task_id (sys_store S) =
      (if recorded_ids (task_trace evs) = [] then latest_processed_task_id (rl_storage r)
       else Inr (as_option (last (recorded_ids (task_trace evs))))) \<and>
    (processed_signature (sys_store S) = processed_signature (rl_storage r) \<or>
     CaughtUp (processed_signature (sys_store S)) \<in> set evs \<or>
     (\<exists>tx \<in> set (ch_sent (sys_channel S)). processed_signature (sys_store S) = Inr (as_option (lt_signature tx))))"
proof -
  obtain m0 where m0: "rl_storage r = bytes_of m0" using from_bytes_total [OF assms(2)] by blast
  from relayer_inv [OF assms(1) m0 assms(3)] obtain m where
    m: "sys_store S = bytes_of m"
      "latest_processed_task_item_id m = last (latest_processed_task_item_id m0 # recorded_ids (task_trace evs))"
      "register_origin m0 evs (ch_sent (sys_channel S)) (latest_processed_signature m)"
    and tasks: "tasks_inv evs S" by (auto simp: system_inv_def registers_inv_def)
  from tasks obtain q where "queue_trace (task_trace evs) q"
    by (auto simp: tasks_inv_def sofar_def intro: queue_trace.empty split: option.splits)
  then have "\<forall>e1 e2. task_trace evs = e1 @ e2 \<longrightarrow> (\<exists>old new. received e1 = old @ new \<and> recorded_ids e1 = map ti_id old \<and>
       mset old \<subseteq># mset (processed e1) \<and> mset (processed e1) \<subseteq># mset (received e1))"
    using queue_sound_split by metis
  with m show ?thesis by (auto simp: m0 read_registers register_origin_def simp del: as_option.simps)
qed

abbreviation gas_relayer :: "fault + (nat, (nat, bytes) pusher_world, string, nat) relayer" where
  "gas_relayer \<equiv> live_relayer gas_node (easy_node SimNode)"

lemma gas_relayer_ok:
  "\<exists>r. gas_relayer = Inr r \<and> rl_pusher r = gas_pusher \<and> pusher_view (system_start r 0) = loop_start \<and>
     rl_storage r = bytes_of default_state \<and> sys_pusher (system_start r 0) = None"
proof -
  obtain r :: "(nat, (nat, bytes) pusher_world, string, nat) relayer" where
    r: "gas_relayer = Inr r" "rl_storage r = bytes_of default_state" using live_relayer_ok by blast
  with relayer_main_ok [OF r(1)] show ?thesis
    by (simp add: live_relayer_config_def system_start_def pusher_view_def loop_start_def)
qed

lemma system_registers_witness:
  "\<exists>r evs S. gas_relayer = Inr r \<and> system_run r sample_libs fair_os None (system_start r 0) evs S \<and>
     latest_processed_task_id (sys_store S) = Inr (Some 8) \<and> latest_queried_task_id (sys_store S) = Inr (Some 9)"
proof -
  obtain r where r: "gas_relayer = Inr r" "rl_pusher r = gas_pusher" "pusher_view (system_start r 0) = loop_start"
    "rl_storage r = bytes_of default_state" "sys_pusher (system_start r 0) = None" using gas_relayer_ok by blast
  obtain v where "pusher_process (rl_pusher r) (memmap_tasks fair_os) [Item task7, Item task8, Ended]
      (pusher_view (system_start r 0)) sample_trace (Halted (msg_fault ''fatal error''), v)"
    using sample_loop r(2,3) by auto
  from pusher_in_system [OF this r(5)] obtain es where
    es: "system_run r sample_libs fair_os None (system_start r 0) es
       (put_pusher (system_start r 0) v (Halted (msg_fault ''fatal error'')))" "task_trace es = sample_trace" by blast
  let ?S = "put_pusher (system_start r 0) v (Halted (msg_fault ''fatal error''))"
  let ?S' = "?S\<lparr>sys_store := snd (set_latest_queried_task_id fair_os 9 (sys_store ?S))\<rparr>"
  have run: "system_run r sample_libs fair_os None (system_start r 0) es ?S'"
    using system_run.step [OF es(1) system_step.amplifier_queries] by simp
  have len: "length (rl_storage r) = state_len" using r(4) by simp
  from system_registers [OF r(1) len run] have id: "latest_processed_task_id (sys_store ?S') = Inr (Some 8)"
    by (simp add: es(2) sample_trace_def)
  from system_registers [OF r(1) len es(1)] have "length (sys_store ?S) = state_len" by blast
  then have "latest_queried_task_id (sys_store ?S') = Inr (Some 9)" by (simp add: queried.get_set)
  with r(1) run id show ?thesis by blast
qed


text \<open>What the file holds after several runs.\<close>

fun run_origin :: "signature \<Rightarrow> system_event list \<times> solana_tx list \<Rightarrow> bool" where
  "run_origin sig (evs, txs) \<longleftrightarrow> CaughtUp (Inr (as_option sig)) \<in> set evs \<or>
     (\<exists>tx \<in> set txs. as_option sig = as_option (lt_signature tx))"

definition lives_inv :: "internal_state \<Rightarrow> (system_event list \<times> solana_tx list) list \<Rightarrow> internal_state \<Rightarrow> bool" where
  "lives_inv m0 runs m \<longleftrightarrow>
     latest_processed_task_item_id m =
       last (latest_processed_task_item_id m0 # recorded_ids (task_trace (concat (map fst runs)))) \<and>
     (latest_processed_signature m = latest_processed_signature m0 \<or>
      (\<exists>run \<in> set runs. run_origin (latest_processed_signature m) run))"

lemma lives_inv_more:
  assumes "lives_inv m0 runs m1" and "registers_inv m1 evs S"
  shows "\<exists>m. sys_store S = bytes_of m \<and> lives_inv m0 (runs @ [(evs, ch_sent (sys_channel S))]) m"
proof -
  let ?run = "(evs, ch_sent (sys_channel S))"
  from assms(2) obtain m where m: "sys_store S = bytes_of m"
    "latest_processed_task_item_id m = last (latest_processed_task_item_id m1 # recorded_ids (task_trace evs))"
    "latest_processed_signature m = latest_processed_signature m1 \<or> run_origin (latest_processed_signature m) ?run"
    by (auto simp: registers_inv_def register_origin_def simp del: as_option.simps)
  have "latest_processed_task_item_id m =
      last (latest_processed_task_item_id m0 # recorded_ids (task_trace (concat (map fst (runs @ [?run])))))"
    using assms(1) m(2) by (simp add: lives_inv_def)
  moreover have "latest_processed_signature m = latest_processed_signature m0 \<or>
      (\<exists>run \<in> set (runs @ [?run]). run_origin (latest_processed_signature m) run)"
    using assms(1) m(3) by (auto simp: lives_inv_def simp del: run_origin.simps)
  ultimately show ?thesis using m(1) by (auto simp: lives_inv_def simp del: run_origin.simps)
qed

lemma lives_keep_registers:
  assumes "lives (\<lambda>disk. relayer_main os disk cfg nd sn rt sdk libs codec fuel) (cfg_storage_path cfg) flibs os disk runs S"
    and "disk (cfg_storage_path cfg) = Some (bytes_of m0)"
  shows "\<exists>m. sys_store S = bytes_of m \<and> lives_inv m0 runs m"
proof -
  have kept: "memmap_new os (Some (bytes_of m)) = Inr bs \<Longrightarrow> bs = bytes_of m" for m bs
    by (auto simp: memmap_new_def Let_def split: option.splits)
  have none: "lives_inv m0 [] m0" by (simp add: lives_inv_def task_trace_def)
  from assms(1) show ?thesis
  proof induction
    case (begins r force e evs S)
    from relayer_main_ok [OF begins(1)] assms(2) kept have "rl_storage r = bytes_of m0" by auto
    from relayer_inv [OF begins(1) this begins(2)] lives_inv_more [OF none] show ?case
      by (fastforce simp: system_inv_def)
  next
    case (restarts runs S r force evs S')
    then obtain m1 where m1: "sys_store S = bytes_of m1" "lives_inv m0 runs m1" by blast
    from relayer_main_ok [OF restarts(2)] m1 kept have "rl_storage r = bytes_of m1" by auto
    from relayer_inv [OF restarts(2) this restarts(3)] lives_inv_more [OF m1(2)] show ?case
      by (fastforce simp: system_inv_def)
  qed
qed

text \<open>
  C12. Both registers survive restarts. However often the relayer is killed, at whatever moment, and
  started again on its file: the file stays well formed, the id register holds the last id that any
  of the runs recorded, and the signature register holds what it held at first, what the start-up
  of a run left, or the signature of a transaction that was on the channel of a run.
\<close>

theorem registers_survive_restarts:
  assumes "lives (\<lambda>disk. relayer_main os disk cfg nd sn rt sdk libs codec fuel) (cfg_storage_path cfg) flibs os disk runs S"
    and "disk (cfg_storage_path cfg) = Some bs" and "length bs = state_len"
  shows "let ids = recorded_ids (task_trace (concat (map fst runs))) in
    length (sys_store S) = state_len \<and>
    latest_processed_task_id (sys_store S) = (if ids = [] then latest_processed_task_id bs else Inr (as_option (last ids))) \<and>
    (processed_signature (sys_store S) = processed_signature bs \<or>
     (\<exists>(evs, txs) \<in> set runs. CaughtUp (processed_signature (sys_store S)) \<in> set evs \<or>
        (\<exists>tx \<in> set txs. processed_signature (sys_store S) = Inr (as_option (lt_signature tx)))))"
proof -
  obtain m0 where m0: "bs = bytes_of m0" using from_bytes_total [OF assms(3)] by blast
  from lives_keep_registers [OF assms(1)] assms(2) m0 obtain m where "sys_store S = bytes_of m" "lives_inv m0 runs m" by blast
  then show ?thesis
    by (fastforce simp: m0 Let_def lives_inv_def read_registers simp del: as_option.simps)
qed

abbreviation gas_main :: "(string \<Rightarrow> bytes option) \<Rightarrow> fault + (nat, (nat, bytes) pusher_world, string, nat) relayer" where
  "gas_main disk \<equiv> relayer_main fair_os disk live_relayer_config gas_node (easy_node SimNode) counting_runtime
     decimal_sdk sample_gateway sample_codec 1"

lemma gas_main_ok:
  assumes "disk ''./store'' = Some (bytes_of m)"
  shows "\<exists>r. gas_main disk = Inr r \<and> rl_pusher r = gas_pusher \<and> rl_storage r = bytes_of m"
proof -
  have "memmap_new fair_os (Some (bytes_of m)) = Inr (bytes_of m)" by (simp add: memmap_new_def fair_os_def Let_def)
  then show ?thesis using assms by (simp add: relayer_main_def live_relayer_config_def)
qed

lemma registers_survive_restarts_witness:
  "\<exists>runs S. lives gas_main ''./store'' sample_libs fair_os [''./store'' \<mapsto> bytes_of default_state] runs S \<and> length runs = 2 \<and>
     latest_processed_task_id (sys_store S) = Inr (Some 8)"
proof -
  let ?disk = "[''./store'' \<mapsto> bytes_of default_state] :: string \<Rightarrow> bytes option"
  obtain r where r: "gas_main ?disk = Inr r" "rl_pusher r = gas_pusher" "rl_storage r = bytes_of default_state"
    using gas_main_ok [of ?disk default_state] by auto
  then have start: "pusher_view (system_start r 0) = loop_start" "sys_pusher (system_start r 0) = None"
    by (simp_all add: system_start_def pusher_view_def loop_start_def)
  obtain v where "pusher_process (rl_pusher r) (memmap_tasks fair_os) [Item task7, Item task8, Ended]
      (pusher_view (system_start r 0)) sample_trace (Halted (msg_fault ''fatal error''), v)"
    using sample_loop r(2) start(1) by auto
  from pusher_in_system [OF this start(2)] obtain es S1 where
    es: "system_run r sample_libs fair_os None (system_start r 0) es S1" "task_trace es = sample_trace" by blast
  have path: "cfg_storage_path live_relayer_config = ''./store''" by (simp add: live_relayer_config_def)
  from lives.begins [where main = gas_main and disk = ?disk, OF r(1) es(1)]
  have life: "lives gas_main ''./store'' sample_libs fair_os ?disk [(es, ch_sent (sys_channel S1))] S1" .
  from lives_keep_registers [where disk = ?disk and cfg = live_relayer_config, unfolded path, OF life] obtain m where m: "sys_store S1 = bytes_of m" by auto
  obtain r' where r': "gas_main (?disk(''./store'' \<mapsto> sys_store S1)) = Inr r'" "rl_storage r' = bytes_of m"
    using gas_main_ok [of "?disk(''./store'' \<mapsto> sys_store S1)" m] m by auto
  from lives.restarts [where main = gas_main, OF life r'(1) system_run.start]
  have lives: "lives gas_main ''./store'' sample_libs fair_os ?disk
      [(es, ch_sent (sys_channel S1)), ([], ch_sent (sys_channel (system_start r' (sys_env S1))))] (system_start r' (sys_env S1))"
    (is "lives _ _ _ _ _ ?runs ?S") by simp
  have "length (bytes_of default_state) = state_len" by simp
  with registers_survive_restarts [where disk = ?disk and cfg = live_relayer_config, unfolded path, OF lives] have
    "latest_processed_task_id (sys_store ?S) = Inr (Some 8)"
    by (simp add: Let_def es(2) sample_trace_def)
  with lives show ?thesis by (intro exI [of _ ?runs] exI [of _ ?S]) simp
qed

definition eventless_libs :: forward_libs where
  "eventless_libs = sample_libs\<lparr>parse_events := \<lambda>chain gas_service gateway tx. Inr []\<rparr>"

lemma eventless_forward:
  "forward_one eventless_libs cfg (relayer_gas r) (live_tx sig) s =
     (case relayer_gas r (live_tx sig) s of (Inl e, s') \<Rightarrow> (Inl e, s') | (Inr g, s') \<Rightarrow> publish [] s')"
  by (auto simp: forward_one_def bindE_def eventless_libs_def map_core_events_to_amplifier_def u64_of_len_def
      List.map_filter_simps split: prod.splits sum.splits)

lemma live_gas:
  assumes "live_relayer nd sn = Inr r"
  shows "relayer_gas r (live_tx sig) s = (Inr 5000, s)"
  using relayer_main_ok [OF assms]
  by (simp add: relayer_gas_def live_relayer_config_def live_config_def compute_total_gas_def live_tx_def add_gas_def
      sample_codec_def)

lemma live_system_publishes:
  fixes r :: "(nat, (nat, bytes) pusher_world, string, nat) relayer"
  assumes "live_relayer live_node live_node = Inr r" and "rl_storage r = bytes_of default_state"
  shows "\<exists>evs S. system_run r eventless_libs fair_os None (system_start r 0) evs S \<and>
     sys_published S = [[]] \<and> length (ch_sent (sys_channel S)) = 4 \<and> ch_taken (sys_channel S) = 1 \<and> sys_forwarder S = None"
proof -
  let ?S = "system_start r (0 :: nat)"
  note wired = relayer_main_ok [OF assms(1)]
  have start: "processed_signature (store (listener_view ?S)) = Inr None" "length (store (listener_view ?S)) = state_len"
    "chan_open (listener_view ?S)" "chan (listener_view ?S) = []"
    using assms(2) wired by (simp_all add: system_start_def listener_view_def read_registers default_state_def)
  from live_startup [OF start] obtain v where
    up: "startup (Suc 0) decimal_sdk counting_runtime live_node live_config (memmap_state fair_os) None (listener_view ?S) = (Inr (), v)"
    and v: "mset (chan v) = mset (map live_tx [4, 3, 2, 1])" by blast
  define S1 where "S1 = put_listener ?S v Connecting"
  have "system_step r eventless_libs fair_os None ?S [CaughtUp (processed_signature (store v))] S1"
    using system_step.listener_starts [of ?S r fair_os None "Inr ()" v eventless_libs] up wired
    by (simp add: live_relayer_config_def system_start_def S1_def)
  note one = system_run.step [OF system_run.start this]
  have len: "length (chan v) = 4" using arg_cong [OF v, of size] by simp
  then have S1: "ch_sent (sys_channel S1) = chan v" "ch_taken (sys_channel S1) = 0" "sys_forwarder S1 = None"
    "amplifier_open (forwarder_view S1)" "sys_published S1 = []"
    using wired by (simp_all add: S1_def put_listener_def system_start_def forwarder_view_def)
  from len have "chan v ! 0 \<in> set (chan v)" by simp
  with mset_eq_setD [OF v] obtain sig where "chan v ! 0 = live_tx sig" by auto
  with live_gas [OF assms(1), of sig "forwarder_view S1"] S1 have
    "forward_one eventless_libs (rl_forwarder r) (relayer_gas r) (ch_sent (sys_channel S1) ! ch_taken (sys_channel S1)) (forwarder_view S1)
      = (Inr (), (forwarder_view S1)\<lparr>published := [[]]\<rparr>)"
    by (simp add: eventless_forward publish_def)
  from system_step.forwards [OF S1(3) _ this, of fair_os None] S1(1,2) len
  have "system_step r eventless_libs fair_os None S1 [] (put_forwarder S1 ((forwarder_view S1)\<lparr>published := [[]]\<rparr>) None)"
    by simp
  from system_run.step [OF one this] S1 len show ?thesis
    by (intro exI conjI) (assumption | simp add: put_forwarder_def)+
qed


text \<open>
  C8. The relayer's key signs nothing but the tasks: in every run, each transaction that was sent
  to the chain carries the instructions of a step of a task that the task processor had received
  from the Amplifier, behind the unit price and a budget within the limit. The listener and the
  forwarder send nothing.
\<close>

theorem system_sends_tasks_only:
  fixes r :: "('w, ('w, bytes) pusher_world, 'q, 'v) relayer"
  assumes "relayer_main os disk cfg nd sn rt sdk libs codec fuel = Inr r" and "length (rl_storage r) = state_len"
    and "system_run r flibs os force (system_start r e) evs S"
  shows "\<forall>tx \<in> set (sys_sent MainNode S). \<exists>item \<in> set (received (task_trace evs)). \<exists>ixs.
    carries_out (rl_pusher r) (get_config_metadata (rl_pusher r)) item ixs \<and> carries sdk (gc_keypair (cfg_processor cfg)) ixs tx"
proof -
  obtain m0 where m0: "rl_storage r = bytes_of m0" using from_bytes_total [OF assms(2)] by blast
  have "node_tag (tp_node (rl_pusher r)) = MainNode" using relayer_main_ok [OF assms(1)] by simp
  with relayer_inv [OF assms(1) m0 assms(3)] show ?thesis by (simp add: system_inv_def carry_out_some_def)
qed

definition refund7 :: task_item where
  "refund7 = \<lparr>ti_id = 7, ti_task = Refund \<lparr>rf_message = et_message (sample_task ''15'' []), rf_recipient = ''30'',
     rf_remaining = native 7\<rparr>\<rparr>"

lemma refund7_id: "ti_id refund7 = 7"
  by (simp add: refund7_def)

lemma gas_pusher_refunds:
  "\<exists>s'. process_task gas_pusher md refund7 s = (Inr (), s') \<and> task_store s' = task_store s \<and>
     sent MainNode s' \<noteq> []"
proof -
  have parse: "parse_pubkey decimal_sdk ''30'' = Some 30"
    by (simp add: decimal_sdk_def decimal_word_def digit_val_def)
  have ix: "refund_fees_ix sample_gateway k a i n = tagged_ix 12" for k a i n
    by (simp add: sample_gateway_def)
  have "\<exists>sig s'. send_transaction decimal_sdk counting_runtime (main_client gas_node) 5 ixs s = (Inr sig, s')" for ixs
    by (simp add: send_transaction_def evaluate_compute_ixs_def try_join_def pick_def counting_runtime_def
        compute_unit_price_def compute_budget_def new_sender_def generic_rpc_def call_def bindE_def
        map_faultE_def main_client_def gas_node_def easy_node_def ledger_node_def send_tx_def Let_def budget_units_fits [simplified])
  then obtain sig s' where "send_transaction decimal_sdk counting_runtime (main_client gas_node) 5
      [\<lparr>ix_program = 1, ix_metas = [], ix_data = [12]\<rparr>] s = (Inr sig, s')" by blast
  then have refund: "refund_task gas_pusher \<lparr>rf_message = et_message (sample_task ''15'' []), rf_recipient = ''30'',
      rf_remaining = native 7\<rparr> s = (Inr (), s')"
    by (simp add: refund_task_def parse native_def u64_of_int_def ix tagged_ix_def lift_eyre_def bindE_def)
  then have "process_task gas_pusher md refund7 s = (Inr (), s')" by (simp add: process_task_def refund7_def)
  moreover from pusher.refund_sends [OF refund] have "sent MainNode s' \<noteq> []" by auto
  ultimately show ?thesis using looping.process_store by blast
qed

lemma system_sends_tasks_only_witness:
  "\<exists>r evs S tx ixs. gas_relayer = Inr r \<and> system_run r sample_libs fair_os None (system_start r 0) evs S \<and>
     tx \<in> set (sys_sent MainNode S) \<and> carries_out (rl_pusher r) (get_config_metadata (rl_pusher r)) refund7 ixs \<and>
     carries decimal_sdk 5 ixs tx"
proof -
  let ?md = "get_config_metadata gas_pusher" and ?st = "memmap_tasks fair_os"
  obtain r where r: "gas_relayer = Inr r" "rl_pusher r = gas_pusher" "pusher_view (system_start r 0) = loop_start"
    "rl_storage r = bytes_of default_state" "sys_pusher (system_start r 0) = None" using gas_relayer_ok by blast
  obtain s1 where start: "pusher_startup gas_pusher ?md loop_start = (Inr (), s1)"
    and s1: "length (task_store s1) = state_len" using gas_pusher_starts by auto
  from gas_pusher_refunds [of ?md s1] obtain s2 where s2: "process_task gas_pusher ?md refund7 s1 = (Inr (), s2)"
    "task_store s2 = task_store s1" "sent MainNode s2 \<noteq> []" by blast
  with s1 save_task_ok [of s2 7] obtain s3 where s3: "save_task ?st 7 s2 = (Inr (), s3)" by auto
  then have sent: "sent MainNode s3 \<noteq> []" using s2(3) by (auto simp: save_task_def sent_def split: prod.splits)
  have caught: "catch_errE (process_task gas_pusher ?md refund7) s1 = (Inr (Inr ()), s2)"
    unfolding catch_errE_def s2(1) by simp
  have bg: "background gas_pusher ?md ([Waiting refund7], s1) [Processed refund7 (Inr ())] ([Finished 7 (Inr ())], s2)"
    by (rule background.completes [where i = 0, OF _ _ caught]) (simp_all add: background.idle refund7_id)
  have "loop_step gas_pusher ?md ?st (Running [Item refund7] [], s1)
      (map Received [refund7] @ [Processed refund7 (Inr ())] @ [Recorded 7]) (Running [] [], s3)"
    by (rule loop_step.polled [OF _ bg]) (simp add: poll_receiver_def, simp add: yield_next_def s3)
  from loop_run.step [OF loop_run.start this] start
  have "pusher_process (rl_pusher r) ?st [Item refund7] (pusher_view (system_start r 0))
      [Received refund7, Processed refund7 (Inr ()), Recorded 7] (Running [] [], s3)"
    by (simp add: pusher_process_def r(2,3))
  from pusher_in_system [OF this r(5)] obtain es where
    run: "system_run r sample_libs fair_os None (system_start r 0) es (put_pusher (system_start r 0) s3 (Running [] []))"
    and es: "task_trace es = [Received refund7, Processed refund7 (Inr ()), Recorded 7]" by blast
  let ?S = "put_pusher (system_start r 0) s3 (Running [] [])"
  from sent obtain tx where tx: "tx \<in> set (sys_sent MainNode ?S)" by (cases "sent MainNode s3") (auto simp: sys_sent_views)
  have "length (rl_storage r) = state_len" using r(4) by simp
  from system_sends_tasks_only [OF r(1) this run] tx es obtain ixs where
    "carries_out (rl_pusher r) (get_config_metadata (rl_pusher r)) refund7 ixs" "carries decimal_sdk 5 ixs tx"
    by (auto simp: live_relayer_config_def)
  with r(1) run tx show ?thesis by blast
qed

end
