(* ===== verification/Interleaving.thy ===== *)
theory Interleaving
  imports Chain
begin

text \<open>
  The bodies of \<open>async fn\<close>s at the granularity of their requests. In \<open>Prelude\<close> a future that
  another one awaits runs in one go; here it can be left after every request, so that the
  futures of a set interleave request by request and other tasks may change the world in
  between. A process is done, or asks: given the world, it issues requests and goes on.

  \<open>run_proc\<close> runs a process alone and agrees with the computations of \<open>Prelude\<close>.
  \<open>open_run\<close> lets the world change arbitrarily before every step and records the requests of
  the process itself; it may stop anywhere, as a future that is dropped does. What holds of
  every open run holds of the process in whatever company it is polled.
\<close>

section \<open>Definitions\<close>

datatype ('f, 'w, 'a) proc =
    Done "'f + 'a"
  | Ask "'w \<Rightarrow> request list \<times> ('f, 'w, 'a) proc \<times> 'w"

primrec then_proc :: "('f, 'w, 'a) proc \<Rightarrow> ('f + 'a \<Rightarrow> ('g, 'w, 'b) proc) \<Rightarrow> ('g, 'w, 'b) proc" where
  "then_proc (Done r) g = g r"
| "then_proc (Ask k) g = Ask (\<lambda>e. map_prod id (map_prod (\<lambda>p. then_proc p g) id) (k e))"

definition bind_proc :: "('f, 'w, 'a) proc \<Rightarrow> ('a \<Rightarrow> ('f, 'w, 'b) proc) \<Rightarrow> ('f, 'w, 'b) proc" where
  "bind_proc p g = then_proc p (\<lambda>r. case r of Inl f \<Rightarrow> Done (Inl f) | Inr x \<Rightarrow> g x)"

definition map_proc :: "('a \<Rightarrow> 'b) \<Rightarrow> ('f, 'w, 'a) proc \<Rightarrow> ('f, 'w, 'b) proc" where
  "map_proc h p = bind_proc p (\<lambda>x. Done (Inr (h x)))"

definition map_fault_proc :: "('f \<Rightarrow> 'g) \<Rightarrow> ('f, 'w, 'a) proc \<Rightarrow> ('g, 'w, 'a) proc" where
  "map_fault_proc h p = then_proc p (\<lambda>r. Done (map_sum h id r))"

definition call_proc :: "request \<Rightarrow> ('w \<Rightarrow> ('e + 'a) \<times> 'w) \<Rightarrow> ('e, 'w, 'a) proc" where
  "call_proc q f = Ask (\<lambda>e. case f e of (r, e') \<Rightarrow> ([q], Done r, e'))"

text \<open>
  A future that is dropped: the request it waits for may have left already, in which case it
  takes effect although nobody reads the answer; the runtime \<open>p\<close> decides.
\<close>

function abandon :: "('w \<Rightarrow> nat) \<Rightarrow> 'g \<Rightarrow> ('f, 'w, 'a) proc list \<Rightarrow> ('g, 'w, 'b) proc" where
  "abandon p f ms =
     (if ms = [] then Done (Inl f)
      else Ask (\<lambda>e.
        let i = p e mod length ms; rest = abandon p f (without i ms)
        in case ms ! i of
             Done r \<Rightarrow> ([], rest, e)
           | Ask k \<Rightarrow>
               if odd (p e div length ms) then (case k e of (qs, m, e') \<Rightarrow> (qs, rest, e'))
               else ([], rest, e)))"
  by pat_completeness auto
termination
  by (relation "measure (\<lambda>(p, f, ms). length ms)") (auto simp: mod_less_divisor)

declare abandon.simps [simp del]

text \<open>The steps of a process, a well-founded relation.\<close>

definition steps_to :: "(('f, 'w, 'a) proc \<times> ('f, 'w, 'a) proc) set" where
  "steps_to = {(p', Ask k) |p' k. \<exists>e qs e'. k e = (qs, p', e')}"

lemma steps_toI: "k e = (qs, p', e') \<Longrightarrow> (p', Ask k) \<in> steps_to"
  unfolding steps_to_def by blast

lemma proc_induct [case_names Done Ask]:
  assumes "\<And>r. P (Done r)"
    and "\<And>k. (\<And>e qs p e'. k e = (qs, p, e') \<Longrightarrow> P p) \<Longrightarrow> P (Ask k)"
  shows "P p"
proof (induction p)
  case (Ask k)
  have "P q" if "k e = (qs, q, e')" for e qs q e'
    using Ask.IH [of "k e" "(q, e')" q] that rangeI [of k e] by (simp add: snds.simps fsts.simps)
  then show ?case by (rule assms(2))
qed (rule assms(1))

lemma wf_steps_to: "wf (steps_to :: (('f, 'w, 'a) proc \<times> ('f, 'w, 'a) proc) set)"
proof (rule wfUNIVI)
  fix P :: "('f, 'w, 'a) proc \<Rightarrow> bool" and p
  assume step: "\<forall>p. (\<forall>q. (q, p) \<in> steps_to \<longrightarrow> P q) \<longrightarrow> P p"
  show "P p"
  proof (induction p rule: proc_induct)
    case (Done r)
    have "(q, Done r) \<notin> steps_to" for q by (simp add: steps_to_def)
    with step show ?case by blast
  next
    case (Ask k)
    have "P q" if "(q, Ask k) \<in> steps_to" for q
      using that Ask by (auto simp: steps_to_def)
    with step show ?case by blast
  qed
qed

text \<open>\<open>try_join!\<close>: both members are polled; the runtime decides whose answer comes first.\<close>

function join_proc ::
  "('w \<Rightarrow> nat) \<Rightarrow> ('f, 'w, 'a) proc \<Rightarrow> ('f, 'w, 'b) proc \<Rightarrow> ('f, 'w, 'a \<times> 'b) proc" where
  "join_proc p (Done (Inl f)) n = abandon p f [n]"
| "join_proc p (Done (Inr x)) n = map_proc (Pair x) n"
| "join_proc p (Ask k) (Done (Inl f)) = abandon p f [Ask k]"
| "join_proc p (Ask k) (Done (Inr y)) = map_proc (\<lambda>x. (x, y)) (Ask k)"
| "join_proc p (Ask k) (Ask l) = Ask (\<lambda>e.
     if even (p e) then (case k e of (qs, m, e') \<Rightarrow> (qs, join_proc p m (Ask l), e'))
     else (case l e of (qs, n, e') \<Rightarrow> (qs, join_proc p (Ask k) n, e')))"
  by pat_completeness auto
termination
  by (relation "inv_image (steps_to <*lex*> steps_to) (\<lambda>(p, m, n). (m, n))")
    (auto intro: wf_steps_to steps_toI dest: sym)

text \<open>
  The loop over a \<open>FuturesUnordered\<close> with \<open>?\<close>: the results of the members that are done are
  consumed at once, the first error drops the others; otherwise the runtime decides which of
  the waiting members gets its answer next.
\<close>

fun result_of :: "('f, 'w, 'a) proc \<Rightarrow> ('f + 'a) option" where
  "result_of (Done r) = Some r"
| "result_of (Ask k) = None"

definition waiting :: "('f, 'w, 'a) proc list \<Rightarrow> ('f, 'w, 'a) proc list" where
  "waiting ms = filter (\<lambda>m. result_of m = None) ms"

definition finished :: "('f, 'w, 'a) proc list \<Rightarrow> ('f + 'a) list" where
  "finished ms = List.map_filter result_of ms"

lemma mult_update:
  assumes i: "i < length ws" and "(m, ws ! i) \<in> r" and sub: "mset ws \<subseteq># mset ms"
  shows "(mset (ws[i := m]), mset ms) \<in> mult r"
proof -
  have "mset ws = add_mset (ws ! i) (mset (without i ws))"
    using mset_without [OF i] by simp
  moreover from i have "mset (ws[i := m]) = add_mset m (mset (without i ws))"
    using mset_without [of i "ws[i := m]"] by (simp add: without_def)
  ultimately have "(mset (ws[i := m]), mset ws) \<in> mult r"
    using assms(2) unfolding mult_def
    by (intro r_into_trancl mult1I [where ?K = "{#m#}" and ?a = "ws ! i"]) simp_all
  moreover have "mset ws = mset ms \<or> (mset ws, mset ms) \<in> mult r"
    using sub subset_implies_mult [of "mset ws" "mset ms" r] by (auto simp: subset_mset.less_le)
  ultimately show ?thesis unfolding mult_def by (auto intro: trancl_trans)
qed

lemma waiting_subset: "mset (waiting ms) \<subseteq># mset ms"
  by (simp add: waiting_def)

function group_proc ::
  "('w \<Rightarrow> nat) \<Rightarrow> ('f, 'w, 'a) proc list \<Rightarrow> ('f, 'w, 'a list) proc" where
  "group_proc p ms =
     (case traverse id (finished ms) of
        Inl f \<Rightarrow> abandon p f (waiting ms)
      | Inr xs \<Rightarrow>
          (let ws = waiting ms in
           if ws = [] then Done (Inr xs)
           else Ask (\<lambda>e.
             let i = p e mod length ws in
             case ws ! i of
               Done r \<Rightarrow> ([], Done (Inr xs), e)
             | Ask k \<Rightarrow>
                 (case k e of (qs, m, e') \<Rightarrow> (qs, map_proc ((@) xs) (group_proc p (ws[i := m])), e')))))"
  by pat_completeness auto
termination
proof (relation "inv_image (mult steps_to) (\<lambda>(p, ms). mset ms)", goal_cases)
  case 1
  show ?case by (simp add: wf_mult wf_steps_to)
next
  case (2 p ms xs ws e i k qs z m e')
  then have "(m, ws ! i) \<in> steps_to" using steps_toI [of k e qs m e'] by simp
  moreover from 2 have "i < length ws" by simp
  ultimately show ?case using waiting_subset [of ms] 2 by (simp add: mult_update)
qed

declare group_proc.simps [simp del]

text \<open>A process on its own.\<close>

primrec run_proc :: "('f, 'w, 'a) proc \<Rightarrow> ('f, ('w, 'z) world_scheme, 'a) io" where
  "run_proc (Done r) = (\<lambda>s. (r, s))"
| "run_proc (Ask k) = (\<lambda>s. case map_prod id (map_prod run_proc id) (k (env s)) of
     (qs, go, e) \<Rightarrow> go (s\<lparr>env := e, wire := wire s @ qs\<rparr>))"

text \<open>A process in any company: the world before a step is arbitrary.\<close>

inductive open_run :: "('f, 'w, 'a) proc \<Rightarrow> request list \<Rightarrow> ('f, 'w, 'a) proc \<Rightarrow> bool" where
  stay: "open_run p [] p"
| go: "k e = (qs, p, e') \<Longrightarrow> open_run p rs z \<Longrightarrow> open_run (Ask k) (qs @ rs) z"

inductive_simps open_run_Done [simp]: "open_run (Done r) qs z"
inductive_simps open_run_Ask: "open_run (Ask k) qs z"

lemma open_askE:
  assumes "open_run (Ask k) qs z"
  obtains (stays) "qs = []" "z = Ask k"
  | (goes) e as p e' bs where "k e = (as, p, e')" "qs = as @ bs" "open_run p bs z"
  using assms unfolding open_run_Ask by blast

section \<open>Running alone\<close>

lemma run_then: "run_proc (then_proc p g) s = (case run_proc p s of (r, s') \<Rightarrow> run_proc (g r) s')"
proof (induction p arbitrary: s rule: proc_induct)
  case (Ask k)
  obtain qs q e where "k (env s) = (qs, q, e)" by (metis prod_cases3)
  with Ask.IH show ?case by simp
qed simp

lemma run_bind [simp]: "run_proc (bind_proc p g) = bindE (run_proc p) (\<lambda>x. run_proc (g x))"
  by (rule ext) (auto simp: bind_proc_def run_then bindE_def split: prod.splits sum.splits)

lemma run_map_fault [simp]: "run_proc (map_fault_proc h p) = map_faultE h (run_proc p)"
  by (rule ext) (auto simp: map_fault_proc_def run_then map_faultE_def split: prod.splits sum.splits)

lemma run_call [simp]: "run_proc (call_proc q f) = call q f"
  by (rule ext) (auto simp: call_proc_def call_def split: prod.splits)

lemma run_ask:
  "k (env s) = (qs, p, e) \<Longrightarrow> run_proc (Ask k) s = run_proc p (s\<lparr>env := e, wire := wire s @ qs\<rparr>)"
  by simp

lemma without_Cons [simp]: "without 0 (x # xs) = xs"
  by (simp add: without_def)

lemma run_abandon:
  assumes never: "\<And>e. p e = 0"
  shows "run_proc (abandon p f ms) s = (Inl f, s)"
proof (induction ms arbitrary: s)
  case Nil
  show ?case by (simp add: abandon.simps)
next
  case (Cons m ms)
  show ?case
    by (subst abandon.simps) (simp add: never Cons Let_def split: proc.split)
qed

lemma then_assoc: "then_proc (then_proc p g) h = then_proc p (\<lambda>r. then_proc (g r) h)"
  by (induction p rule: proc_induct) (auto simp: fun_eq_iff map_prod_def split: prod.splits)

lemma then_done: "then_proc p Done = p"
  by (induction p rule: proc_induct) (auto simp: fun_eq_iff map_prod_def split: prod.splits)

lemma map_proc_simps [simp]:
  "map_proc h (Done (Inl f)) = Done (Inl f)" "map_proc h (Done (Inr x)) = Done (Inr (h x))"
  by (simp_all add: map_proc_def bind_proc_def)

lemma map_proc_ask: "map_proc h (Ask k) = Ask (\<lambda>e. map_prod id (map_prod (map_proc h) id) (k e))"
  unfolding map_proc_def bind_proc_def by simp

lemma map_proc_map: "map_proc h (map_proc g p) = map_proc (h \<circ> g) p"
  by (simp add: map_proc_def bind_proc_def then_assoc)
    (rule arg_cong [where f = "then_proc p"], auto split: sum.splits)

lemma finished_simps [simp]:
  "finished [] = []" "finished (Done r # ms) = r # finished ms" "finished (Ask k # ms) = finished ms"
  by (simp_all add: finished_def List.map_filter_def)

lemma waiting_simps [simp]:
  "waiting [] = []" "waiting (Done r # ms) = waiting ms" "waiting (Ask k # ms) = Ask k # waiting ms"
  by (simp_all add: waiting_def)

lemma all_waiting:
  assumes "list_all (\<lambda>m. result_of m = None) ws"
  shows "waiting ws = ws" and "finished ws = []"
proof -
  show "waiting ws = ws" using assms by (simp add: waiting_def filter_id_conv list_all_iff)
  show "finished ws = []"
    using assms by (induction ws) (auto simp: finished_def List.map_filter_def)
qed

lemma group_consume:
  assumes ws: "list_all (\<lambda>m. result_of m = None) ws"
  shows "group_proc p (Done (Inr x) # ws) = map_proc (Cons x) (group_proc p ws)"
proof -
  have append: "(@) [x] = Cons x" and none: "(@) [] = (id :: 'c list \<Rightarrow> 'c list)"
    by (simp_all add: fun_eq_iff)
  show ?thesis
    using ws
    by (auto simp: group_proc.simps [of p ws] group_proc.simps [of p "Done (Inr x) # ws"] all_waiting
        append map_proc_ask map_proc_map comp_def Let_def fun_eq_iff split: proc.split prod.split)
qed

lemma bindE_retE: "bindE m retE = m"
  by (simp add: fun_eq_iff bindE_def split: prod.split sum.split)

lemma run_map [simp]: "run_proc (map_proc h p) = bindE (run_proc p) (\<lambda>x. retE (h x))"
  by (simp add: map_proc_def fun_eq_iff bindE_def split: prod.split sum.split)

text \<open>With a runtime that always serves the first member, the members run one after the other.\<close>

lemma run_join:
  assumes never: "\<And>e. p e = 0" and n: "result_of n = None"
  shows "run_proc (join_proc p m n) s =
     bindE (run_proc m) (\<lambda>a. bindE (run_proc n) (\<lambda>b. retE (a, b))) s"
proof (induction m arbitrary: s rule: proc_induct)
  case (Done r)
  show ?case
    by (cases r) (simp_all add: run_abandon [OF never] bindE_def split: prod.split sum.split)
next
  case (Ask k)
  obtain qs m e where k: "k (env s) = (qs, m, e)" by (metis prod_cases3)
  from n obtain l where "n = Ask l" by (cases n) auto
  with k Ask.IH [OF k] show ?case by (simp add: never bindE_def)
qed

lemma run_group_cons:
  assumes never: "\<And>e. p e = 0" and ws: "list_all (\<lambda>m. result_of m = None) ws"
  shows "run_proc (group_proc p (m # ws)) s =
     (case run_proc m s of
        (Inl f, s') \<Rightarrow> (Inl f, s')
      | (Inr x, s') \<Rightarrow> run_proc (map_proc (Cons x) (group_proc p ws)) s')"
proof (induction m arbitrary: s rule: proc_induct)
  case (Done r)
  show ?case
  proof (cases r)
    case (Inl f)
    have "group_proc p (Done (Inl f) # ws) = abandon p f ws"
      by (simp add: group_proc.simps [of p "Done (Inl f) # ws"] all_waiting [OF ws])
    with Inl show ?thesis by (simp add: run_abandon [OF never])
  qed (simp add: group_consume [OF ws])
next
  case (Ask k)
  obtain qs m e where k: "k (env s) = (qs, m, e)" by (metis prod_cases3)
  have "run_proc (group_proc p (Ask k # ws)) s = run_proc (group_proc p (m # ws)) (s\<lparr>env := e, wire := wire s @ qs\<rparr>)"
    by (subst group_proc.simps) (simp add: never all_waiting [OF ws] k bindE_retE Let_def)
  with Ask.IH [OF k] k show ?case by simp
qed

lemma run_group:
  assumes never: "\<And>e. p e = 0" and ask: "\<And>x. result_of (f x) = None"
  shows "run_proc (group_proc p (map f xs)) s = try_unordered (\<lambda>s. p (env s)) (\<lambda>x. run_proc (f x)) xs s"
proof (induction xs arbitrary: s)
  case Nil
  show ?case by (simp add: group_proc.simps [of p "[]"])
next
  case (Cons x xs)
  have ws: "list_all (\<lambda>m. result_of m = None) (map f xs)" by (simp add: list_all_iff ask)
  show ?case
    by (subst try_unordered.simps)
      (auto simp: run_group_cons [OF never ws] Cons never Let_def bindE_def split: prod.split sum.split)
qed

section \<open>Running in company\<close>

lemma run_open:
  assumes "run_proc p s = (r, s')"
  shows "\<exists>qs. open_run p qs (Done r) \<and> wire s' = wire s @ qs"
  using assms
proof (induction p arbitrary: s rule: proc_induct)
  case (Ask k)
  obtain qs p e where k: "k (env s) = (qs, p, e)" by (metis prod_cases3)
  from Ask.prems k have "run_proc p (s\<lparr>env := e, wire := wire s @ qs\<rparr>) = (r, s')" by simp
  from Ask.IH [OF k this] obtain rs where "open_run p rs (Done r)" "wire s' = wire s @ qs @ rs"
    by auto
  with open_run.go [of k _ qs p e, OF k this(1)] show ?case by blast
qed simp

lemma confined_run: "confined (run_proc (p :: ('f, 'w, 'a) proc) :: ('f, ('w, 'z) world_scheme, 'a) io)"
proof (rule movesI)
  fix s s' :: "('w, 'z) world_scheme" and r
  show "run_proc p s = (r, s') \<Longrightarrow> same_component s s'"
  proof (induction p arbitrary: s rule: proc_induct)
    case (Ask k)
    obtain qs p e where k: "k (env s) = (qs, p, e)" by (metis prod_cases3)
    with Ask.prems have "same_component (s\<lparr>env := e, wire := wire s @ qs\<rparr>) s'"
      by (intro Ask.IH [OF k]) simp
    then show ?case by (rule same.R_trans [OF same_component_intro])
  qed simp
qed

text \<open>What an open run of a composed process says of its parts.\<close>

lemma open_then:
  assumes "open_run (then_proc p g) qs z"
  shows "(\<exists>p'. open_run p qs p' \<and> z = then_proc p' g) \<or>
     (\<exists>as bs r. qs = as @ bs \<and> open_run p as (Done r) \<and> open_run (g r) bs z)"
  using assms
proof (induction p arbitrary: qs rule: proc_induct)
  case (Done r)
  then show ?case by (intro disjI2 exI [of _ "[]"] exI [of _ qs] exI [of _ r]) simp
next
  case (Ask k)
  from Ask.prems [simplified] show ?case
  proof (cases rule: open_askE)
    case stays
    then show ?thesis by (auto intro: open_run.stay)
  next
    case (goes e as p e' bs)
    then obtain q where k: "k e = (as, q, e')" and p: "p = then_proc q g"
      by (auto simp: map_prod_def split: prod.splits)
    from Ask.IH [OF k goes(3) [unfolded p]] show ?thesis
    proof (elim disjE exE conjE)
      fix p' assume "open_run q bs p'" "z = then_proc p' g"
      with open_run.go [of k _ as q e', OF k this(1)] goes(2) show ?thesis by blast
    next
      fix cs ds r assume "bs = cs @ ds" "open_run q cs (Done r)" "open_run (g r) ds z"
      with open_run.go [of k _ as q e', OF k this(2)] goes(2) show ?thesis
        by (intro disjI2 exI [of _ "as @ cs"] exI [of _ ds] exI [of _ r]) simp
    qed
  qed
qed

lemma then_ask_waits: "result_of p = None \<Longrightarrow> result_of (then_proc p g) = None"
  by (cases p) simp_all

lemma open_thenE:
  assumes "open_run (then_proc p g) qs z"
  obtains (during) p' where "open_run p qs p'" "result_of z = None"
  | (after) as bs r where "qs = as @ bs" "open_run p as (Done r)" "open_run (g r) bs z"
proof -
  have "thesis" if p': "open_run p qs p'" and z: "z = then_proc p' g" for p'
  proof (cases p')
    case (Done r)
    with p' z after [of qs "[]" r] show ?thesis by (simp add: open_run.stay)
  next
    case (Ask k)
    with p' z during [of p'] show ?thesis by simp
  qed
  with open_then [OF assms] after show thesis by blast
qed

lemma open_bindE:
  assumes "open_run (bind_proc p g) qs z"
  obtains (during) p' where "open_run p qs p'" "result_of z = None"
  | (failed) f where "open_run p qs (Done (Inl f))" "z = Done (Inl f)"
  | (after) as bs x where "qs = as @ bs" "open_run p as (Done (Inr x))" "open_run (g x) bs z"
  using assms unfolding bind_proc_def
  by (rule open_thenE) (auto split: sum.splits)

lemma open_mapE:
  assumes "open_run (map_proc h p) qs z"
  obtains (during) p' where "open_run p qs p'" "result_of z = None"
  | (ended) r where "open_run p qs (Done r)" "z = Done (map_sum id h r)"
proof (rule open_bindE [OF assms [unfolded map_proc_def]], goal_cases)
  case (1 p') show ?case using 1(3,4) during by blast
next
  case (2 f) show ?case using 2(3,4) ended [of "Inl f"] by simp
next
  case (3 as bs x) show ?case using 3(3-) ended [of "Inr x"] by simp
qed

lemma open_map_result:
  assumes "open_run (map_proc h p) qs z"
  shows "\<exists>y. open_run p qs y \<and> (\<forall>r. z = Done r \<longrightarrow> (\<exists>r'. y = Done r' \<and> r = map_sum id h r'))"
  using assms
proof (cases rule: open_mapE)
  case (during p')
  then show ?thesis by (intro exI [of _ p']) auto
next
  case (ended r)
  then show ?thesis by (intro exI [of _ "Done r"]) simp
qed

lemma open_map_ok:
  assumes "open_run (map_proc h p) qs z"
  shows "\<exists>y. open_run p qs y \<and> (\<forall>x. z = Done (Inr x) \<longrightarrow> (\<exists>x'. y = Done (Inr x')))"
proof -
  obtain y where y: "open_run p qs y" "\<forall>r. z = Done r \<longrightarrow> (\<exists>r'. y = Done r' \<and> r = map_sum id h r')"
    using open_map_result [OF assms] by (elim exE conjE)
  have "\<exists>x'. y = Done (Inr x')" if "z = Done (Inr x)" for x
  proof -
    from that y(2) obtain r' where "y = Done r'" "Inr x = map_sum id h r'" by blast
    then show ?thesis by (cases r') auto
  qed
  with y(1) show ?thesis by blast
qed

lemma open_map_faultE:
  assumes "open_run (map_fault_proc h p) qs z"
  obtains (during) p' where "open_run p qs p'" "result_of z = None"
  | (ended) r where "open_run p qs (Done r)" "z = Done (map_sum h id r)"
proof (rule open_thenE [OF assms [unfolded map_fault_proc_def]], goal_cases)
  case (1 p') show ?case using 1(3,4) during by blast
next
  case (2 as bs r) show ?case using 2(3-) ended [of r] by simp
qed

lemma open_callE:
  assumes "open_run (call_proc q f) qs z"
  obtains (during) "qs = []" "z = call_proc q f"
  | (answered) e r e' where "qs = [q]" "f e = (r, e')" "z = Done r"
  using assms unfolding call_proc_def
  by (rule open_askE) (auto split: prod.splits)

text \<open>
  What each member of a set does of its own: the requests of the set are those of its members,
  shuffled.
\<close>

definition company ::
  "('f, 'w, 'a) proc list \<Rightarrow> request list \<Rightarrow> (request list \<times> ('f, 'w, 'a) proc) list \<Rightarrow> bool" where
  "company ms qs ts \<longleftrightarrow>
     list_all2 (\<lambda>m (rs, m'). open_run m rs m') ms ts \<and> mset qs = mset (concat (map fst ts))"

lemma company_Nil [simp]: "company [] qs ts \<longleftrightarrow> qs = [] \<and> ts = []"
  by (auto simp: company_def)

lemma company_stay: "company ms [] (List.map (\<lambda>m. ([], m)) ms)"
  by (induction ms) (auto simp: company_def open_run.stay)

lemma company_Cons:
  "company ms qs ts \<Longrightarrow> open_run m rs m' \<Longrightarrow> company (m # ms) (rs @ qs) ((rs, m') # ts)"
  by (simp add: company_def)

lemma company_without:
  assumes "company (without i ms) qs ts" and i: "i < length ms" and m: "open_run (ms ! i) rs m'"
  shows "company ms (rs @ qs) (take i ts @ (rs, m') # drop i ts)"
proof -
  let ?R = "\<lambda>m (rs, m'). open_run m rs m'"
  from assms(1) have "list_all2 ?R (take i ms @ drop (Suc i) ms) ts"
    and qs: "mset qs = mset (concat (map fst ts))" by (simp_all add: company_def without_def)
  then obtain us vs where ts: "ts = us @ vs" and us: "list_all2 ?R (take i ms) us"
    and vs: "list_all2 ?R (drop (Suc i) ms) vs" by (auto simp: list_all2_append1)
  from list_all2_lengthD [OF us] i have "length us = i" by simp
  moreover have "list_all2 ?R (take i ms @ ms ! i # drop (Suc i) ms) (us @ (rs, m') # vs)"
    using us vs m by (intro list_all2_appendI) simp_all
  ultimately show ?thesis using i qs ts by (simp add: company_def id_take_nth_drop [symmetric])
qed

lemma company_update:
  assumes "company (ws[i := m]) qs ts" and i: "i < length ws" and w: "ws ! i = Ask k" "k e = (rs, m, e')"
  shows "company ws (rs @ qs) (ts[i := (rs @ fst (ts ! i), snd (ts ! i))])"
proof -
  let ?R = "\<lambda>m (rs, m'). open_run m rs m'"
  from assms(1) have ts: "list_all2 ?R (ws[i := m]) ts"
    and qs: "mset qs = mset (concat (map fst ts))" by (auto simp: company_def)
  from ts i have len: "i < length ts" and "open_run m (fst (ts ! i)) (snd (ts ! i))"
    by (auto simp: list_all2_conv_all_nth case_prod_beta)
  then have "open_run (ws ! i) (rs @ fst (ts ! i)) (snd (ts ! i))"
    using open_run.go [of k e rs m e', OF w(2)] w(1) by simp
  from list_all2_update_cong [OF ts, of "ws ! i" "(rs @ fst (ts ! i), snd (ts ! i))" i] this
  have "list_all2 ?R ws (ts[i := (rs @ fst (ts ! i), snd (ts ! i))])" by simp
  moreover have "mset (concat (map fst (ts[i := (rs @ fst (ts ! i), snd (ts ! i))]))) = mset rs + mset qs"
  proof -
    have "mset qs = mset (concat (map fst (take i ts @ ts ! i # drop (Suc i) ts)))"
      using qs len by (simp only: id_take_nth_drop [symmetric])
    with len show ?thesis by (simp add: upd_conv_take_nth_drop)
  qed
  ultimately show ?thesis by (simp add: company_def)
qed

lemma open_abandon:
  "open_run (abandon p f ms) qs z \<Longrightarrow>
   \<exists>ts. company ms qs ts \<and> (\<forall>r. z = Done r \<longrightarrow> r = Inl f)"
proof (induction "length ms" arbitrary: ms qs)
  case 0
  then show ?case by (simp add: abandon.simps)
next
  case (Suc n)
  then have "ms \<noteq> []" by auto
  with Suc.prems have "open_run (Ask (\<lambda>e.
        let i = p e mod length ms; rest = abandon p f (without i ms)
        in case ms ! i of
             Done r \<Rightarrow> ([], rest, e)
           | Ask k \<Rightarrow>
               if odd (p e div length ms) then (case k e of (qs, m, e') \<Rightarrow> (qs, rest, e'))
               else ([], rest, e))) qs z"
    by (simp only: abandon.simps [of p f ms] if_False)
  then show ?case
  proof (cases rule: open_askE)
    case stays
    then show ?thesis using company_stay [of ms] by auto
  next
    case (goes e as q e' bs)
    define i where "i = p e mod length ms"
    with \<open>ms \<noteq> []\<close> have i: "i < length ms" by simp
    from goes(1) have q: "q = abandon p f (without i ms)" and as: "\<exists>m'. open_run (ms ! i) as m'"
      by (auto simp: Let_def open_run.stay open_run_Ask split: proc.splits prod.splits if_splits
          simp flip: i_def) (metis append_Nil2 open_run.stay)
    from Suc(2) i have "n = length (without i ms)" by simp
    from Suc.hyps(1) [OF this goes(3) [unfolded q]] obtain ts where
      ts: "company (without i ms) bs ts" "\<forall>r. z = Done r \<longrightarrow> r = Inl f" by blast
    from as company_without [OF ts(1) i] ts(2) goes(2) show ?thesis by blast
  qed
qed

lemma open_join:
  "open_run (join_proc p m n) qs z \<Longrightarrow>
   \<exists>as m' bs n'. open_run m as m' \<and> open_run n bs n' \<and> mset qs = mset (as @ bs) \<and>
     (\<forall>x y. z = Done (Inr (x, y)) \<longrightarrow> m' = Done (Inr x) \<and> n' = Done (Inr y)) \<and>
     (\<forall>f. z = Done (Inl f) \<longrightarrow> m' = Done (Inl f) \<or> n' = Done (Inl f))"
proof (induction p m n arbitrary: qs rule: join_proc.induct)
  case (1 p f n)
  then obtain ts where ts: "company [n] qs ts" "\<forall>r. z = Done r \<longrightarrow> r = Inl f"
    using open_abandon [of p f "[n]" qs z] by auto
  then obtain rs n' where "open_run n rs n'" "mset qs = mset rs"
    by (auto simp: company_def list_all2_Cons1)
  with ts(2) show ?case by (intro exI [of _ "[]"] exI [of _ "Done (Inl f)"] exI [of _ rs] exI [of _ n']) auto
next
  case (2 p x n)
  from 2 [simplified] show ?case
  proof (cases rule: open_mapE)
    case (during n')
    then show ?thesis
      by (intro exI [of _ "[]"] exI [of _ "Done (Inr x)"] exI [of _ qs] exI [of _ n']) auto
  next
    case (ended r)
    then show ?thesis
      by (intro exI [of _ "[]"] exI [of _ "Done (Inr x)"] exI [of _ qs] exI [of _ "Done r"]) (cases r; auto)
  qed
next
  case (3 p k f)
  then obtain ts where ts: "company [Ask k] qs ts" "\<forall>r. z = Done r \<longrightarrow> r = Inl f"
    using open_abandon [of p f "[Ask k]" qs z] by auto
  then obtain rs m' where "open_run (Ask k) rs m'" "mset qs = mset rs"
    by (auto simp: company_def list_all2_Cons1)
  with ts(2) show ?case by (intro exI [of _ rs] exI [of _ m'] exI [of _ "[]"] exI [of _ "Done (Inl f)"]) auto
next
  case (4 p k y)
  from 4 [simplified] show ?case
  proof (cases rule: open_mapE)
    case (during m')
    then show ?thesis
      by (intro exI [of _ qs] exI [of _ m'] exI [of _ "[]"] exI [of _ "Done (Inr y)"]) auto
  next
    case (ended r)
    then show ?thesis
      by (intro exI [of _ qs] exI [of _ "Done r"] exI [of _ "[]"] exI [of _ "Done (Inr y)"]) (cases r; auto)
  qed
next
  case (5 p k l)
  from 5(3) [simplified] show ?case
  proof (cases rule: open_askE)
    case stays
    then show ?thesis
      by (intro exI [of _ "[]"] exI [of _ "Ask k"] exI [of _ "[]"] exI [of _ "Ask l"]) (simp add: open_run.stay)
  next
    case (goes e as q e' bs)
    show ?thesis
    proof (cases "even (p e)")
      case True
      with goes(1) obtain m where k: "k e = (as, m, e')" and q: "q = join_proc p m (Ask l)"
        by (auto split: prod.splits)
      from 5(1) [OF True k [symmetric] refl goes(3) [unfolded q]] obtain rs m' us n' where
        "open_run m rs m'" "open_run (Ask l) us n'" "mset bs = mset (rs @ us)" and
        z: "\<forall>x y. z = Done (Inr (x, y)) \<longrightarrow> m' = Done (Inr x) \<and> n' = Done (Inr y)"
          "\<forall>f. z = Done (Inl f) \<longrightarrow> m' = Done (Inl f) \<or> n' = Done (Inl f)" by blast
      then show ?thesis using open_run.go [of k e as m e', OF k] goes(2)
        by (intro exI [of _ "as @ rs"] exI [of _ m'] exI [of _ us] exI [of _ n']) simp
    next
      case False
      with goes(1) obtain n where l: "l e = (as, n, e')" and q: "q = join_proc p (Ask k) n"
        by (auto split: prod.splits)
      from 5(2) [OF False l [symmetric] refl goes(3) [unfolded q]] obtain rs m' us n' where
        "open_run (Ask k) rs m'" "open_run n us n'" "mset bs = mset (rs @ us)" and
        z: "\<forall>x y. z = Done (Inr (x, y)) \<longrightarrow> m' = Done (Inr x) \<and> n' = Done (Inr y)"
          "\<forall>f. z = Done (Inl f) \<longrightarrow> m' = Done (Inl f) \<or> n' = Done (Inl f)" by blast
      then show ?thesis using open_run.go [of l e as n e', OF l] goes(2)
        by (intro exI [of _ rs] exI [of _ m'] exI [of _ "as @ us"] exI [of _ n']) simp
    qed
  qed
qed

lemma set_finished: "r \<in> set (finished ms) \<longleftrightarrow> Done r \<in> set ms"
proof (induction ms)
  case (Cons m ms)
  then show ?case by (cases m) auto
qed simp

lemma company_waiting:
  "company (waiting ms) qs ts \<Longrightarrow>
   \<exists>ts'. company ms qs ts' \<and> set ts' = set ts \<union> {([], Done r) |r. Done r \<in> set ms}"
proof (induction ms arbitrary: qs ts)
  case (Cons m ms)
  show ?case
  proof (cases m)
    case (Done r)
    with Cons.prems have "company (waiting ms) qs ts" by simp
    from Cons.IH [OF this] obtain us where us: "company ms qs us"
      "set us = set ts \<union> {([], Done r) |r. Done r \<in> set ms}" by blast
    from company_Cons [OF us(1), of m "[]" m] have "company (m # ms) qs (([], m) # us)"
      by (simp add: open_run.stay)
    with us(2) Done show ?thesis by (intro exI [of _ "([], m) # us"]) auto
  next
    case (Ask k)
    with Cons.prems obtain rs m' us where ts: "ts = (rs, m') # us" "open_run m rs m'"
      "list_all2 (\<lambda>m (rs, m'). open_run m rs m') (waiting ms) us" "mset qs = mset rs + mset (concat (map fst us))"
      by (auto simp: company_def list_all2_Cons1)
    then have "company (waiting ms) (concat (map fst us)) us" by (simp add: company_def)
    from Cons.IH [OF this] obtain vs where vs: "company ms (concat (map fst us)) vs"
      "set vs = set us \<union> {([], Done r) |r. Done r \<in> set ms}" by blast
    with ts have "company (m # ms) qs ((rs, m') # vs)" by (simp add: company_def)
    with vs(2) ts(1) Ask show ?thesis by (intro exI [of _ "(rs, m') # vs"]) auto
  qed
qed simp

lemma traverse_id_Inl: "traverse id rs = Inl f \<Longrightarrow> Inl f \<in> set rs"
  by (auto simp: traverse_err_iff)

lemma traverse_id_Inr: "traverse id rs = Inr xs \<Longrightarrow> r \<in> set rs \<Longrightarrow> \<exists>x. r = Inr x"
  by (auto simp: traverse_ok_iff list_all2_conv_all_nth in_set_conv_nth)

lemma waiting_nth: "i < length (waiting ms) \<Longrightarrow> \<exists>k. waiting ms ! i = Ask k"
proof -
  assume "i < length (waiting ms)"
  then have "waiting ms ! i \<in> set (waiting ms)" by (rule nth_mem)
  then have "result_of (waiting ms ! i) = None" by (simp add: waiting_def)
  then show ?thesis by (cases "waiting ms ! i") simp_all
qed

lemma group_waits:
  assumes "traverse id (finished ms) = Inr xs" and "waiting ms \<noteq> []"
  shows "group_proc p ms = Ask (\<lambda>e.
      let i = p e mod length (waiting ms) in
      case waiting ms ! i of
        Done r \<Rightarrow> ([], Done (Inr xs), e)
      | Ask k \<Rightarrow> (case k e of (qs, m, e') \<Rightarrow>
          (qs, map_proc ((@) xs) (group_proc p ((waiting ms)[i := m])), e')))"
  using assms by (subst group_proc.simps) (simp only: sum.case Let_def if_False)

text \<open>How an open run of a set goes on.\<close>

lemma open_groupE:
  assumes run: "open_run (group_proc p ms) qs z"
  obtains (fails) f where "Inl f \<in> set (finished ms)" "open_run (abandon p f (waiting ms)) qs z"
  | (ends) xs where "traverse id (finished ms) = Inr xs" "waiting ms = []" "qs = []" "z = Done (Inr xs)"
  | (waits) "qs = []" "result_of z = None"
  | (polls) xs i k e as m e' bs y where "traverse id (finished ms) = Inr xs" "i < length (waiting ms)"
      "waiting ms ! i = Ask k" "k e = (as, m, e')" "qs = as @ bs"
      "open_run (group_proc p ((waiting ms)[i := m])) bs y"
      "\<forall>r. z = Done r \<longrightarrow> (\<exists>r'. y = Done r' \<and> r = map_sum id ((@) xs) r')"
proof (cases "traverse id (finished ms)")
  case (Inl f)
  with run have "open_run (abandon p f (waiting ms)) qs z" by (simp add: group_proc.simps [of p ms])
  with traverse_id_Inl [OF Inl] show ?thesis by (rule fails)
next
  case (Inr xs)
  show ?thesis
  proof (cases "waiting ms = []")
    case True
    with run Inr have "qs = []" "z = Done (Inr xs)" by (simp_all add: group_proc.simps [of p ms])
    with Inr True show ?thesis by (rule ends)
  next
    case False
    from run [unfolded group_waits [OF Inr False]] show ?thesis
    proof (cases rule: open_askE)
      case stays
      then show ?thesis by (intro waits) simp_all
    next
      case (goes e as q e' bs)
      define i where "i = p e mod length (waiting ms)"
      with False have i: "i < length (waiting ms)" by simp
      from waiting_nth [OF i] obtain k where w: "waiting ms ! i = Ask k" by blast
      with goes(1) obtain m where k: "k e = (as, m, e')"
        and q: "q = map_proc ((@) xs) (group_proc p ((waiting ms)[i := m]))"
        by (auto simp: Let_def simp flip: i_def split: prod.splits)
      from open_map_result [OF goes(3) [unfolded q]] show ?thesis
        by (elim exE conjE) (rule polls [OF Inr i w k goes(2)])
    qed
  qed
qed

text \<open>The result of a set: all members succeeded, or one failed.\<close>

definition group_result :: "('f, 'w, 'a list) proc \<Rightarrow> (request list \<times> ('f, 'w, 'a) proc) list \<Rightarrow> bool" where
  "group_result z ts \<longleftrightarrow>
     (\<forall>xs. z = Done (Inr xs) \<longrightarrow> (\<forall>m \<in> snd ` set ts. \<exists>x. m = Done (Inr x))) \<and>
     (\<forall>f. z = Done (Inl f) \<longrightarrow> Done (Inl f) \<in> snd ` set ts)"

lemma group_result_wait: "result_of z = None \<Longrightarrow> group_result z ts"
  by (auto simp: group_result_def)

lemma group_result_poll:
  assumes "group_result y us" and "\<forall>r. z = Done r \<longrightarrow> (\<exists>r'. y = Done r' \<and> r = map_sum id ((@) xs) r')"
    and "snd ` set ts = snd ` set us \<union> R" and "\<forall>m \<in> R. \<exists>x. m = Done (Inr x)"
  shows "group_result z ts"
proof -
  have "\<exists>x. m = Done (Inr x)" if "z = Done (Inr ys)" and m: "m \<in> snd ` set ts" for ys m
  proof -
    from that(1) assms(2) obtain r where "y = Done r" "Inr ys = map_sum id ((@) xs) r" by blast
    then obtain ys' where "y = Done (Inr ys')" by (cases r) simp_all
    with assms(1) have "\<forall>m \<in> snd ` set us. \<exists>x. m = Done (Inr x)" by (simp add: group_result_def)
    with m assms(3,4) show ?thesis by blast
  qed
  moreover have "Done (Inl f) \<in> snd ` set ts" if z: "z = Done (Inl f)" for f
  proof -
    from z assms(2) obtain r where "y = Done r" "Inl f = map_sum id ((@) xs) r" by blast
    then have "y = Done (Inl f)" by (cases r) simp_all
    with assms(1) have "Done (Inl f) \<in> snd ` set us" by (simp add: group_result_def)
    with assms(3) show ?thesis by blast
  qed
  ultimately show ?thesis unfolding group_result_def by blast
qed

lemma open_group:
  "open_run (group_proc p ms) qs z \<Longrightarrow> \<exists>ts. company ms qs ts \<and> group_result z ts"
proof (induction "mset ms" arbitrary: ms qs z rule: wf_induct_rule [OF wf_mult [OF wf_steps_to]])
  case 1
  from 1(2) show ?case
  proof (cases rule: open_groupE)
    case (fails f)
    from open_abandon [OF fails(2)] obtain us where
      us: "company (waiting ms) qs us" "\<forall>r. z = Done r \<longrightarrow> r = Inl f" by blast
    from company_waiting [OF us(1)] obtain ts where ts: "company ms qs ts"
      "set ts = set us \<union> {([], Done r) |r. Done r \<in> set ms}" by blast
    from fails(1) have "([], Done (Inl f)) \<in> set ts" by (simp add: ts(2) set_finished)
    then have "Done (Inl f) \<in> snd ` set ts" by force
    with ts(1) us(2) show ?thesis by (intro exI [of _ ts]) (auto simp: group_result_def)
  next
    case (ends xs)
    then obtain ts where ts: "company ms [] ts" "set ts = {([], Done r) |r. Done r \<in> set ms}"
      using company_waiting [of ms "[]" "[]"] by auto
    with ends traverse_id_Inr [OF ends(1)] show ?thesis
      by (intro exI [of _ ts]) (auto simp: group_result_def set_finished)
  next
    case waits
    with company_stay [of ms] show ?thesis by (blast intro: group_result_wait)
  next
    case (polls xs i k e as m e' bs y)
    from polls(3,4) have "(m, waiting ms ! i) \<in> steps_to" using steps_toI [of k e as m e'] by simp
    from 1(1) [OF mult_update [OF polls(2) this waiting_subset] polls(6)] obtain us where
      us: "company ((waiting ms)[i := m]) bs us" "group_result y us" by blast
    let ?vs = "us[i := (as @ fst (us ! i), snd (us ! i))]"
    from company_update [OF us(1) polls(2-4)] have "company (waiting ms) qs ?vs" by (simp add: polls(5))
    from company_waiting [OF this] obtain ts where ts: "company ms qs ts"
      "set ts = set ?vs \<union> {([], Done r) |r. Done r \<in> set ms}" by blast
    have "map snd ?vs = map snd us"
      by (cases "i < length us") (simp_all add: map_update list_update_same_conv list_update_beyond)
    then have "snd ` set ?vs = snd ` set us" by (metis set_map)
    have "snd ` {([] :: request list, Done r) |r. Done r \<in> set ms} = {Done r |r. Done r \<in> set ms}"
      by force
    with \<open>snd ` set ?vs = snd ` set us\<close>
    have "snd ` set ts = snd ` set us \<union> {Done r |r. Done r \<in> set ms}"
      unfolding ts(2) image_Un by (rule arg_cong2 [where f = "(\<union>)"])
    from group_result_poll [OF us(2) polls(7) this] traverse_id_Inr [OF polls(1)]
    have "group_result z ts" by (auto simp: set_finished)
    with ts(1) show ?thesis by blast
  qed
qed

end
