(* ===== verification/ConcurrentSteps.thy ===== *)
theory ConcurrentSteps
  imports Interleaving TaskProcessor
begin

text \<open>
  The code that runs many futures at once, at the granularity of its requests: sending a
  transaction (\<open>crates/effective-tx-sender/src/lib.rs\<close>, where the price and the budget are
  computed concurrently), \<open>send_gateway_tx\<close>, the gateway transaction task with its two sets of
  futures, and the upload of a payload with its set of chunk writes
  (\<open>crates/solana-gateway-task-processor/src/component.rs\<close> and
  \<open>component/message_payload.rs\<close>). Each is a process of \<open>Interleaving\<close>; run alone, under a
  runtime that serves the futures of a set one after the other, it is the computation of the
  same name in \<open>EffectiveSender\<close>, \<open>MessagePayload\<close> and \<open>TaskProcessor\<close>.

  The properties hold of every open run: whatever the other tasks do to the chain between two
  requests, and wherever the future is dropped.
\<close>

section \<open>Definitions\<close>

definition generic_rpc_proc ::
  "request \<Rightarrow> ('w \<Rightarrow> (client_error + 'a) \<times> 'w) \<Rightarrow> (fault, 'w, 'a) proc" where
  "generic_rpc_proc q f = map_fault_proc generic_fault (call_proc q f)"

definition compute_unit_price_proc ::
  "sdk \<Rightarrow> 'w node \<Rightarrow> instruction list \<Rightarrow> (fault, 'w, instruction) proc" where
  "compute_unit_price_proc sdk nd ixs =
     (let keys = take 128 (touched ixs)
      in map_proc (\<lambda>fees. cu_price_ix sdk (fee_average fees))
           (generic_rpc_proc (ReqFees (node_tag nd) keys) (n_fees nd keys)))"

definition compute_budget_proc ::
  "sdk \<Rightarrow> 'w node \<Rightarrow> pubkey \<Rightarrow> instruction list \<Rightarrow> (fault, 'w, instruction \<times> blockhash) proc" where
  "compute_budget_proc sdk nd kp ixs =
     bind_proc (generic_rpc_proc (ReqBlockhash (node_tag nd)) (n_blockhash nd)) (\<lambda>hash.
     let tx = \<lparr>tx_ixs = ixs, tx_payer = kp, tx_hash = hash\<rparr>
     in bind_proc (generic_rpc_proc (ReqSimulate (node_tag nd) tx) (n_simulate nd tx)) (\<lambda>result.
        Done
          (if sim_err result \<noteq> None then Inl (Err (ComputeBudget (SimulationError result)))
           else
             let units = (case sim_units result of None \<Rightarrow> 0 | Some u \<Rightarrow> u);
                 budget = budget_units (max_cu_limit sdk) units
             in if unat budget < 2 ^ 32 then Inr (cu_limit_ix sdk (ucast budget), hash)
                else Inl (Err (ComputeBudget (Generic (Msg ''out of range integral type conversion attempted'')))))))"

definition evaluate_compute_ixs_proc ::
  "sdk \<Rightarrow> 'w runtime \<Rightarrow> 'w node \<Rightarrow> effective_sender \<Rightarrow> (fault, 'w, effective_sender) proc" where
  "evaluate_compute_ixs_proc sdk rt nd es =
     (let ixs = cu_limit_ix sdk 1399850 # es_ixs es
      in map_proc (\<lambda>(price, budget, hash). es\<lparr>es_ixs := (price # ixs)[1 := budget], es_hash := hash\<rparr>)
           (join_proc (rt_pick rt) (compute_unit_price_proc sdk nd ixs)
              (compute_budget_proc sdk nd (es_keypair es) ixs)))"

definition send_tx_proc :: "sdk \<Rightarrow> 'w node \<Rightarrow> effective_sender \<Rightarrow> (fault, 'w, signature) proc" where
  "send_tx_proc sdk nd es =
     (let tx = \<lparr>tx_ixs = es_ixs es, tx_payer = es_keypair es, tx_hash = es_hash es\<rparr>
      in map_fault_proc (send_fault sdk tx) (call_proc (ReqSend (node_tag nd) tx) (n_send nd tx)))"

definition send_transaction_proc ::
  "sdk \<Rightarrow> 'w runtime \<Rightarrow> 'w node \<Rightarrow> pubkey \<Rightarrow> instruction list \<Rightarrow> (fault, 'w, signature) proc" where
  "send_transaction_proc sdk rt nd kp ixs =
     bind_proc (evaluate_compute_ixs_proc sdk rt nd (new_sender kp ixs)) (send_tx_proc sdk nd)"

type_synonym 'w sender_proc = "instruction list \<Rightarrow> (fault, 'w, signature) proc"

definition send_gateway_tx_proc ::
  "'w sender_proc \<Rightarrow> 'w gateway_libs \<Rightarrow> instruction \<Rightarrow> (fault, 'w, unit) proc" where
  "send_gateway_tx_proc send libs ix =
     then_proc (send [ix]) (\<lambda>r.
       case r of
         Inr sig \<Rightarrow> Done (Inr ())
       | Inl err \<Rightarrow>
           if should_continue libs err then Done (Inr ())
           else Done (Inl (add_ctx ''irrecoverable error'' err)))"

text \<open>A value or an early return.\<close>

definition option_proc :: "fault \<Rightarrow> 'a option \<Rightarrow> (fault, 'w, 'a) proc" where
  "option_proc f r = (case r of None \<Rightarrow> Done (Inl f) | Some x \<Rightarrow> Done (Inr x))"

definition eyre_proc :: "eyre + 'a \<Rightarrow> (fault, 'w, 'a) proc" where
  "eyre_proc r = (case r of Inl e \<Rightarrow> Done (Inl (Err e)) | Inr x \<Rightarrow> Done (Inr x))"

definition built_proc :: "string \<Rightarrow> eyre + instruction \<Rightarrow> (fault, 'w, instruction) proc" where
  "built_proc m r = (case r of Inl e \<Rightarrow> Done (Inl (Err (Ctx m e))) | Inr ix \<Rightarrow> Done (Inr ix))"

definition gateway_tx_task_proc ::
  "'w sender_proc \<Rightarrow> 'w gateway_libs \<Rightarrow> 'w runtime \<Rightarrow> bytes \<Rightarrow> pubkey \<Rightarrow> (fault, 'w, unit) proc" where
  "gateway_tx_task_proc send_ixs libs rt data signer =
     (let send = send_gateway_tx_proc send_ixs libs
      in bind_proc (option_proc (msg_fault ''cannot decode execute data'') (decode_execute_data libs data)) (\<lambda>ed.
         bind_proc (eyre_proc (initialize_session libs signer (gateway_root libs) (ed_payload_root ed)
                      (ed_signing_set_root ed))) (\<lambda>ix.
         bind_proc (send ix) (\<lambda>_.
         bind_proc (group_proc (rt_pick rt) (map send (verify_ixs libs ed))) (\<lambda>_.
         case ed_items ed of
           VerifierSetRotation new_root \<Rightarrow>
             bind_proc (eyre_proc (rotate_ix libs signer ed new_root)) send
         | NewMessages messages \<Rightarrow>
             map_proc (\<lambda>_. ())
               (group_proc (rt_pick rt)
                  (map send (built_ixs (approve_ix libs signer ed) messages))))))))"

text \<open>The upload: initialize, write the chunks concurrently, commit.\<close>

definition context_proc :: "string \<Rightarrow> (fault, 'w, 'a) proc \<Rightarrow> (fault, 'w, 'a) proc" where
  "context_proc m p = map_fault_proc (add_ctx m) p"

definition initialize_proc ::
  "'w sender_proc \<Rightarrow> 'w gateway_libs \<Rightarrow> pubkey \<Rightarrow> hash256 \<Rightarrow> bytes \<Rightarrow> (fault, 'w, unit) proc" where
  "initialize_proc send libs kp cmd payload =
     bind_proc (option_proc (Err (Ctx ''Unexpected u64 overflow in buffer size'' (Msg ''out of range integral type conversion attempted'')))
                  (u64_of_len (length payload))) (\<lambda>len.
     bind_proc (built_proc ''failed to construct an instruction to initialize the message payload pda''
                  (initialize_message_payload libs (gateway_root libs) kp cmd len)) (\<lambda>ix.
     context_proc ''faled to initialize the message payload pda'' (send_gateway_tx_proc send libs ix)))"

definition write_one_proc ::
  "'w sender_proc \<Rightarrow> 'w gateway_libs \<Rightarrow> nat \<times> instruction \<Rightarrow> (fault, 'w, unit) proc" where
  "write_one_proc send libs w =
     context_proc (''failed to  write message payload at offset '' @ show_nat (fst w))
       (send_gateway_tx_proc send libs (snd w))"

definition write_chunks_proc ::
  "'w sender_proc \<Rightarrow> 'w gateway_libs \<Rightarrow> 'w runtime \<Rightarrow> pubkey \<Rightarrow> hash256 \<Rightarrow> bytes \<Rightarrow> (fault, 'w, unit) proc" where
  "write_chunks_proc send libs rt kp cmd payload =
     bind_proc (Done (chunks_with_offset payload (max_chunk_size libs))) (\<lambda>cs.
     bind_proc (Done (write_ixs libs kp cmd cs)) (\<lambda>ixs.
     map_proc (\<lambda>_. ()) (group_proc (rt_pick rt) (List.map (write_one_proc send libs) ixs))))"

definition commit_proc ::
  "'w sender_proc \<Rightarrow> 'w gateway_libs \<Rightarrow> pubkey \<Rightarrow> hash256 \<Rightarrow> (fault, 'w, unit) proc" where
  "commit_proc send libs kp cmd =
     bind_proc (built_proc ''failed to construct an instruction to commit the message payload pda''
                  (commit_message_payload libs (gateway_root libs) kp cmd)) (\<lambda>ix.
     context_proc ''failed to commit the message payload pda'' (send_gateway_tx_proc send libs ix))"

definition upload_proc ::
  "'w sender_proc \<Rightarrow> 'w gateway_libs \<Rightarrow> 'w runtime \<Rightarrow> pubkey \<Rightarrow> gmp_message \<Rightarrow> bytes \<Rightarrow> (fault, 'w, pubkey) proc" where
  "upload_proc send libs rt kp message payload =
     (let cmd = message_to_command_id libs message in
      bind_proc (initialize_proc send libs kp cmd payload) (\<lambda>_.
      bind_proc (write_chunks_proc send libs rt kp cmd payload) (\<lambda>_.
      map_proc (\<lambda>_. find_message_payload_pda libs
                 (incoming_message_pda libs (message_to_command_id libs message)) kp)
        (commit_proc send libs kp cmd))))"

section \<open>Run alone\<close>

lemma run_result: "run_proc (Done (Inl f)) = failE f" "run_proc (Done (Inr x)) = retE x"
  by (simp_all add: fun_eq_iff)

lemmas run_simps = run_result if_distrib [where f = run_proc] if_distrib [where f = Done] Let_def

declare run_proc.simps(1) [simp del]

lemma run_generic_rpc [simp]: "run_proc (generic_rpc_proc q f) = generic_rpc q f"
  by (simp add: generic_rpc_proc_def generic_rpc_def)

lemma run_unit_price [simp]: "run_proc (compute_unit_price_proc sdk nd ixs) = compute_unit_price sdk nd ixs"
  by (simp add: compute_unit_price_proc_def compute_unit_price_def Let_def)

lemma run_budget [simp]: "run_proc (compute_budget_proc sdk nd kp ixs) = compute_budget sdk nd kp ixs"
  by (simp add: compute_budget_proc_def compute_budget_def run_simps cong: if_cong)

lemma run_lifted [simp]:
  "run_proc (option_proc f r) = ok_or f r" "run_proc (eyre_proc x) = lift_eyre x"
  "run_proc (built_proc m x) = built m x"
  by (simp_all add: option_proc_def eyre_proc_def lift_eyre_def built_proc_def built_def ok_or_def
      run_result split: option.split sum.split)

lemma budget_waits: "result_of (compute_budget_proc sdk nd kp ixs) = None"
  by (simp add: compute_budget_proc_def generic_rpc_proc_def call_proc_def map_fault_proc_def bind_proc_def)

lemma run_evaluate:
  assumes in_turn: "\<And>e. rt_pick rt e = 0"
  shows "run_proc (evaluate_compute_ixs_proc sdk rt nd es) = evaluate_compute_ixs sdk rt nd es"
  by (rule ext) (simp add: evaluate_compute_ixs_proc_def evaluate_compute_ixs_def Let_def try_join_def
      pick_def in_turn run_join budget_waits bindE_assoc bindE_def split: prod.split sum.split)

lemma run_send_tx [simp]: "run_proc (send_tx_proc sdk nd es) = send_tx sdk nd es"
  by (simp add: send_tx_proc_def send_tx_def Let_def)

lemma run_send_transaction:
  assumes in_turn: "\<And>e. rt_pick rt e = 0"
  shows "run_proc (send_transaction_proc sdk rt nd kp ixs) = send_transaction sdk rt nd kp ixs"
  by (simp add: send_transaction_proc_def send_transaction_def run_evaluate [OF in_turn])

lemma run_send_gateway_tx:
  "run_proc (send_gateway_tx_proc send libs ix) = send_gateway_tx (\<lambda>ixs. run_proc (send ixs)) libs ix"
  by (rule ext) (auto simp: send_gateway_tx_proc_def send_gateway_tx_def run_then run_simps
      split: prod.split sum.split)

lemma send_waits: "result_of (send_transaction_proc sdk rt nd kp ixs) = None"
proof -
  have "result_of (join_proc p (compute_unit_price_proc sdk nd is) (compute_budget_proc sdk nd kp js)) = None"
    for p "is" js
    by (simp add: compute_unit_price_proc_def compute_budget_proc_def generic_rpc_proc_def call_proc_def
        map_fault_proc_def map_proc_def bind_proc_def Let_def)
  then show ?thesis
    by (simp add: send_transaction_proc_def evaluate_compute_ixs_proc_def map_proc_def bind_proc_def
        new_sender_def Let_def then_ask_waits)
qed

lemma send_gateway_waits: "result_of (send_gateway_tx_proc (send_transaction_proc sdk rt nd kp) libs ix) = None"
  unfolding send_gateway_tx_proc_def by (rule then_ask_waits [OF send_waits])

lemma run_send_gateway:
  assumes in_turn: "\<And>e. rt_pick rt e = 0"
  shows "run_proc (send_gateway_tx_proc (send_transaction_proc sdk rt nd kp) libs ix) =
     send_gateway_tx (send_transaction sdk rt nd kp) libs ix"
  unfolding run_send_gateway_tx run_send_transaction [OF in_turn] ..

lemma run_gateway_group:
  assumes in_turn: "\<And>e. rt_pick rt e = 0"
  shows "run_proc (group_proc (rt_pick rt)
       (List.map (send_gateway_tx_proc (send_transaction_proc sdk rt nd kp) libs) ixs)) =
     try_unordered (pick rt) (send_gateway_tx (send_transaction sdk rt nd kp) libs) ixs"
  by (rule ext) (simp add: run_group [OF in_turn send_gateway_waits] run_send_gateway [OF in_turn] pick_def [abs_def])

lemma run_gateway_task:
  assumes in_turn: "\<And>e. rt_pick rt e = 0"
  shows "run_proc (gateway_tx_task_proc (send_transaction_proc sdk rt (main_client nd) (gc_keypair cfg)) libs rt data signer) =
     gateway_tx_task (new_pusher cfg name nd sn rt sdk libs codec fuel) data signer"
  by (simp add: gateway_tx_task_proc_def gateway_tx_task_def Let_def run_gateway_group [OF in_turn]
      run_send_gateway [OF in_turn] merkleised_payload.case_distrib [where h = run_proc]
      cong: merkleised_payload.case_cong)

lemma run_write_one:
  assumes in_turn: "\<And>e. rt_pick rt e = 0"
  shows "run_proc (write_one_proc (send_transaction_proc sdk rt nd kp) libs w) =
     write_one (send_transaction sdk rt nd kp) libs w"
  by (cases w) (simp add: write_one_proc_def write_one_def context_proc_def with_context_def
      run_send_gateway [OF in_turn])

lemma run_write_group:
  assumes in_turn: "\<And>e. rt_pick rt e = 0"
  shows "run_proc (group_proc (rt_pick rt) (List.map (write_one_proc (send_transaction_proc sdk rt nd kp) libs) ixs)) =
     try_unordered (pick rt) (write_one (send_transaction sdk rt nd kp) libs) ixs"
proof -
  have waits: "result_of (write_one_proc (send_transaction_proc sdk rt nd kp) libs w) = None" for w
    by (simp add: write_one_proc_def context_proc_def map_fault_proc_def then_ask_waits send_gateway_waits)
  show ?thesis
    by (intro ext) (simp add: run_group [OF in_turn waits] run_write_one [OF in_turn] pick_def [abs_def])
qed

lemma run_done: "run_proc (Done r) = liftE r"
  by (cases r) (simp_all add: run_result)

lemma run_upload:
  assumes in_turn: "\<And>e. rt_pick rt e = 0"
  shows "run_proc (upload_proc (send_transaction_proc sdk rt nd kp) libs rt kp message payload) =
     upload (send_transaction sdk rt nd kp) libs rt kp message payload"
  by (simp add: upload_proc_def upload_def initialize_proc_def initialize_def write_chunks_proc_def
      write_chunks_def commit_proc_def commit_def context_proc_def with_context_def Let_def run_done
      run_send_gateway [OF in_turn] run_write_group [OF in_turn] bindE_assoc)

section \<open>In company\<close>

text \<open>The transactions among the requests of an open run.\<close>

definition sends_of :: "node_tag \<Rightarrow> request list \<Rightarrow> transaction list" where
  "sends_of tag qs = concat (List.map (send_of tag) qs)"

lemma sends_of_simps [simp]:
  "sends_of tag [] = []" "sends_of tag (q # qs) = send_of tag q @ sends_of tag qs"
  "sends_of tag (as @ bs) = sends_of tag as @ sends_of tag bs"
  by (simp_all add: sends_of_def)

lemma sends_of_perm: "mset qs = mset rs \<Longrightarrow> mset (sends_of tag qs) = mset (sends_of tag rs)"
proof -
  have "mset (sends_of tag qs) = (\<Sum>q \<in># mset qs. mset (send_of tag q))" for qs
    by (induction qs) simp_all
  then show "mset qs = mset rs \<Longrightarrow> ?thesis" by simp
qed

lemma sends_of_concat: "sends_of tag (concat qss) = concat (List.map (sends_of tag) qss)"
  by (induction qss) simp_all

lemma open_rpcE:
  assumes "open_run (generic_rpc_proc q f) qs z"
  obtains (during) "qs = [] \<or> qs = [q]" "result_of z = None"
  | (answered) e r e' where "qs = [q]" "f e = (r, e')" "z = Done (map_sum generic_fault id r)"
  using assms unfolding generic_rpc_proc_def
proof (cases rule: open_map_faultE)
  case (during p')
  from during(1) show ?thesis
    by (cases rule: open_callE) (use during(2) that(1) in auto)
next
  case (ended r)
  from ended(1) show ?thesis
  proof (cases rule: open_callE)
    case (answered e r' e')
    with ended(2) show ?thesis by (intro that(2)) auto
  qed (simp add: call_proc_def)
qed

lemma open_price:
  assumes "open_run (compute_unit_price_proc sdk nd ixs) qs z"
  shows "sends_of k qs = [] \<and> (\<forall>price. z = Done (Inr price) \<longrightarrow>
     (\<exists>fees w w'. n_fees nd (take 128 (touched ixs)) w = (Inr fees, w') \<and> price = cu_price_ix sdk (fee_average fees)))
     \<and> (\<forall>f. z = Done (Inl f) \<longrightarrow> (\<exists>e. f = Err (ComputeBudget (Generic e))))"
  using assms unfolding compute_unit_price_proc_def Let_def
proof (cases rule: open_mapE)
  case (during p')
  from during(1) show ?thesis by (cases rule: open_rpcE) (use during(2) in auto)
next
  case (ended r)
  from ended(1) show ?thesis
  proof (cases rule: open_rpcE)
    case (answered e r' e')
    with ended(2) show ?thesis by (cases r') (auto simp: generic_fault_def)
  qed simp
qed

lemma open_budget:
  assumes "open_run (compute_budget_proc sdk nd kp ixs) qs z"
  shows "sends_of k qs = [] \<and> (\<forall>budget hash. z = Done (Inr (budget, hash)) \<longrightarrow>
     ReqSimulate (node_tag nd) \<lparr>tx_ixs = ixs, tx_payer = kp, tx_hash = hash\<rparr> \<in> set qs \<and>
     (\<exists>res w w'. n_simulate nd \<lparr>tx_ixs = ixs, tx_payer = kp, tx_hash = hash\<rparr> w = (Inr res, w') \<and> sim_err res = None \<and>
        budget = cu_limit_ix sdk (ucast (budget_units (max_cu_limit sdk) (simulated_units res)))))
     \<and> (\<forall>f. z = Done (Inl f) \<longrightarrow> (\<exists>e. f = Err (ComputeBudget e)))"
  using assms unfolding compute_budget_proc_def
proof (cases rule: open_bindE)
  case (during p')
  from during(1) show ?thesis by (cases rule: open_rpcE) (use during(2) in auto)
next
  case (failed f)
  from failed(1) show ?thesis
    by (cases rule: open_rpcE) (use failed(2) in \<open>auto simp: generic_fault_def map_sum_def split: sum.splits\<close>)
next
  case (after as bs hash)
  from after(2) have as: "sends_of k as = []" by (cases rule: open_rpcE) auto
  from after(3) [unfolded Let_def] show ?thesis
  proof (cases rule: open_bindE)
    case (during p')
    from during(1) show ?thesis by (cases rule: open_rpcE) (use during(2) after(1) as in auto)
  next
    case (failed f)
    from failed(1) show ?thesis
      by (cases rule: open_rpcE)
        (use failed(2) after(1) as in \<open>auto simp: generic_fault_def map_sum_def split: sum.splits\<close>)
  next
    case inner: (after cs ds result)
    from inner(2) obtain w w' where "n_simulate nd \<lparr>tx_ixs = ixs, tx_payer = kp, tx_hash = hash\<rparr> w = (Inr result, w')"
      and "sends_of k cs = []" and "ReqSimulate (node_tag nd) \<lparr>tx_ixs = ixs, tx_payer = kp, tx_hash = hash\<rparr> \<in> set cs"
      by (cases rule: open_rpcE) (auto simp: map_sum_def split: sum.splits)
    then show ?thesis using inner(1,3) after(1) as
      by (auto simp: budget_units_fits [simplified] simulated_units_def split: if_splits)
  qed
qed

lemma open_evaluate:
  assumes "open_run (evaluate_compute_ixs_proc sdk rt nd es) qs z"
  shows "sends_of k qs = [] \<and>
     (\<forall>es'. z = Done (Inr es') \<longrightarrow> evaluated sdk nd (es_keypair es) (es_ixs es)
        \<lparr>tx_ixs = es_ixs es', tx_payer = es_keypair es', tx_hash = es_hash es'\<rparr> \<and>
        ReqSimulate (node_tag nd) \<lparr>tx_ixs = cu_limit_ix sdk 1399850 # es_ixs es, tx_payer = es_keypair es,
          tx_hash = es_hash es'\<rparr> \<in> set qs) \<and>
     (\<forall>f. z = Done (Inl f) \<longrightarrow> (\<exists>e. f = Err (ComputeBudget e)))"
proof -
  let ?ixs = "cu_limit_ix sdk 1399850 # es_ixs es"
  let ?es = "\<lambda>(price, budget, hash). es\<lparr>es_ixs := (price # ?ixs)[1 := budget], es_hash := hash\<rparr>"
  from assms obtain y where y: "open_run (join_proc (rt_pick rt) (compute_unit_price_proc sdk nd ?ixs)
      (compute_budget_proc sdk nd (es_keypair es) ?ixs)) qs y"
    and z: "\<forall>r. z = Done r \<longrightarrow> (\<exists>r'. y = Done r' \<and> r = map_sum id ?es r')"
    unfolding evaluate_compute_ixs_proc_def Let_def using open_map_result by fast
  from open_join [OF y] obtain as m bs n where m: "open_run (compute_unit_price_proc sdk nd ?ixs) as m"
    and n: "open_run (compute_budget_proc sdk nd (es_keypair es) ?ixs) bs n" and qs: "mset qs = mset (as @ bs)"
    and ok: "\<forall>x y'. y = Done (Inr (x, y')) \<longrightarrow> m = Done (Inr x) \<and> n = Done (Inr y')"
    and err: "\<forall>f. y = Done (Inl f) \<longrightarrow> m = Done (Inl f) \<or> n = Done (Inl f)" by blast
  from sends_of_perm [OF qs, of k] open_price [OF m, of k] open_budget [OF n, of k]
  have sends: "sends_of k qs = []" by simp
  have "evaluated sdk nd (es_keypair es) (es_ixs es)
      \<lparr>tx_ixs = es_ixs es', tx_payer = es_keypair es', tx_hash = es_hash es'\<rparr> \<and>
      ReqSimulate (node_tag nd) \<lparr>tx_ixs = ?ixs, tx_payer = es_keypair es, tx_hash = es_hash es'\<rparr> \<in> set qs"
    if "z = Done (Inr es')" for es'
  proof -
    from that z obtain r where r: "y = Done r" "Inr es' = map_sum id ?es r" by blast
    then obtain price budget hash where "y = Done (Inr (price, budget, hash))" "es' = ?es (price, budget, hash)"
      by (cases r) auto
    with ok have mn: "m = Done (Inr price)" "n = Done (Inr (budget, hash))" and es': "es' = ?es (price, budget, hash)"
      by auto
    from mset_eq_setD [OF qs] have "set bs \<subseteq> set qs" by auto
    with open_price [OF m, of k] open_budget [OF n, of k] mn es' show ?thesis
      unfolding evaluated_def by fastforce
  qed
  moreover have "\<exists>e. f = Err (ComputeBudget e)" if "z = Done (Inl f)" for f
  proof -
    from that z obtain r where r: "y = Done r" "Inl f = map_sum id ?es r" by blast
    then have "y = Done (Inl f)" by (cases r) auto
    with err open_price [OF m, of k] open_budget [OF n, of k] show ?thesis by blast
  qed
  ultimately show ?thesis using sends by blast
qed

lemma open_send_tx:
  assumes "open_run (send_tx_proc sdk nd es) qs z"
  shows "(qs = [] \<and> result_of z = None) \<or>
     qs = [ReqSend (node_tag nd) \<lparr>tx_ixs = es_ixs es, tx_payer = es_keypair es, tx_hash = es_hash es\<rparr>] \<and>
     (\<forall>f. z = Done (Inl f) \<longrightarrow> (\<exists>tx c. f = send_fault sdk tx c))"
  using assms unfolding send_tx_proc_def Let_def
proof (cases rule: open_map_faultE)
  case (during p')
  from during(1) show ?thesis
  proof (cases rule: open_callE)
    case (answered e r e')
    with during(2) show ?thesis by (cases z) auto
  qed (use during(2) in auto)
next
  case (ended r)
  from ended(1) show ?thesis
    by (cases rule: open_callE) (use ended(2) in \<open>auto simp: call_proc_def map_sum_def split: sum.splits\<close>)
qed

lemma open_send:
  assumes "open_run (send_transaction_proc sdk rt nd kp ixs) qs z"
  shows "(\<exists>tx pre. evaluated sdk nd kp ixs tx \<and> qs = pre @ [ReqSend (node_tag nd) tx] \<and>
       sends_of (node_tag nd) pre = [] \<and>
       ReqSimulate (node_tag nd) \<lparr>tx_ixs = cu_limit_ix sdk 1399850 # ixs, tx_payer = kp, tx_hash = tx_hash tx\<rparr> \<in> set pre \<and>
       (\<forall>res. z \<noteq> Done (Inl (Err (ComputeBudget (SimulationError res))))))
     \<or> sends_of (node_tag nd) qs = [] \<and> (\<forall>sig. z \<noteq> Done (Inr sig))"
  using assms unfolding send_transaction_proc_def
proof (cases rule: open_bindE)
  case (during p')
  with open_evaluate [OF during(1), of "node_tag nd"] show ?thesis by auto
next
  case (failed f)
  with open_evaluate [OF failed(1), of "node_tag nd"] show ?thesis by simp
next
  case (after as bs es)
  note ev = open_evaluate [OF after(2), of "node_tag nd"]
  let ?tx = "\<lparr>tx_ixs = es_ixs es, tx_payer = es_keypair es, tx_hash = es_hash es\<rparr>"
  from open_send_tx [OF after(3)] show ?thesis
  proof
    assume "bs = [] \<and> result_of z = None"
    with ev after(1) show ?thesis by auto
  next
    assume *: "bs = [ReqSend (node_tag nd) ?tx] \<and> (\<forall>f. z = Done (Inl f) \<longrightarrow> (\<exists>tx c. f = send_fault sdk tx c))"
    have "z \<noteq> Done (Inl (Err (ComputeBudget (SimulationError res))))" for res
      using * by (auto simp: send_fault_def generic_fault_def split: option.splits)
    with ev * after(1) show ?thesis
      by (intro disjI1 exI [of _ ?tx] exI [of _ as]) (auto simp: new_sender_def)
  qed
qed

text \<open>Gateways without an error that is safe to pass over: a step that succeeds was sent.\<close>

definition strict_gateway :: "'w gateway_libs \<Rightarrow> bool" where
  "strict_gateway libs \<longleftrightarrow> (\<forall>c. \<not> gateway_err_proceed libs c)"

lemma strict_continue: "strict_gateway libs \<Longrightarrow> \<not> should_continue libs f"
  by (cases "(libs, f)" rule: should_continue.cases)
    (auto simp: strict_gateway_def split: option.splits transaction_error.splits instruction_error.splits)

text \<open>A future that takes one step of a task, and the transactions of a set of such futures.\<close>

definition one_step ::
  "node_tag \<Rightarrow> (instruction list \<Rightarrow> transaction \<Rightarrow> bool) \<Rightarrow> bool \<Rightarrow> instruction \<Rightarrow> (fault, 'w, 'a) proc \<Rightarrow> bool" where
  "one_step tag carrying strict ix p \<longleftrightarrow>
     (\<forall>qs z. open_run p qs z \<longrightarrow> at_most_one carrying [ix] (sends_of tag qs) \<and>
        (strict \<longrightarrow> (\<forall>x. z = Done (Inr x) \<longrightarrow> sends_of tag qs \<noteq> [])))"

definition each_once ::
  "(instruction list \<Rightarrow> transaction \<Rightarrow> bool) \<Rightarrow> instruction list \<Rightarrow> transaction list \<Rightarrow> bool" where
  "each_once carrying ixs txs \<longleftrightarrow>
     (\<exists>tss. list_all2 (\<lambda>ix. at_most_one carrying [ix]) ixs tss \<and> mset txs = mset (concat tss))"

lemma each_once_Nil [simp]: "each_once carrying ixs []"
  unfolding each_once_def by (intro exI [of _ "List.map (\<lambda>_. []) ixs"]) (simp add: list_all2_conv_all_nth)

lemma each_once_single: "at_most_one carrying [ix] txs \<Longrightarrow> each_once carrying [ix] txs"
  unfolding each_once_def by (intro exI [of _ "[txs]"]) simp

lemma one_step_done:
  assumes "open_run p qs (Done (Inr x))" and "one_step tag carrying True ix p"
  shows "length (sends_of tag qs) = 1"
proof -
  from assms have "at_most_one carrying [ix] (sends_of tag qs)" and "sends_of tag qs \<noteq> []"
    unfolding one_step_def by blast+
  then show ?thesis by (auto simp: at_most_one_def)
qed

lemma one_step_map_fault: "one_step tag carrying strict ix p \<Longrightarrow> one_step tag carrying strict ix (map_fault_proc h p)"
  unfolding one_step_def
proof (intro allI impI)
  fix qs z
  assume p: "\<forall>qs z. open_run p qs z \<longrightarrow> at_most_one carrying [ix] (sends_of tag qs) \<and>
        (strict \<longrightarrow> (\<forall>x. z = Done (Inr x) \<longrightarrow> sends_of tag qs \<noteq> []))"
    and "open_run (map_fault_proc h p) qs z"
  from this(2) show "at_most_one carrying [ix] (sends_of tag qs) \<and>
        (strict \<longrightarrow> (\<forall>x. z = Done (Inr x) \<longrightarrow> sends_of tag qs \<noteq> []))"
  proof (cases rule: open_map_faultE)
    case (during p')
    with p show ?thesis by auto
  next
    case (ended r)
    with p show ?thesis by (cases r) auto
  qed
qed

lemma one_step_group:
  assumes steps: "\<And>x. x \<in> set xs \<Longrightarrow> one_step tag carrying strict (g x) (f x)"
    and run: "open_run (group_proc p (map f xs)) qs z"
  shows "each_once carrying (map g xs) (sends_of tag qs) \<and>
     (strict \<and> (\<exists>ys. z = Done (Inr ys)) \<longrightarrow> length (sends_of tag qs) = length xs)"
proof -
  from open_group [OF run] obtain ts where ts: "company (map f xs) qs ts" "group_result z ts" by blast
  let ?tss = "List.map (sends_of tag \<circ> fst) ts"
  from ts(1) have all: "list_all2 (\<lambda>x (rs, m). open_run (f x) rs m) xs ts"
    and qs: "mset qs = mset (concat (map fst ts))"
    by (simp_all add: company_def list_all2_map1)
  have "mset (sends_of tag qs) = mset (concat ?tss)"
    using sends_of_perm [OF qs, of tag] by (simp add: sends_of_concat)
  moreover have "list_all2 (\<lambda>ix. at_most_one carrying [ix]) (map g xs) ?tss"
    unfolding list_all2_map1 list_all2_map2 using all
    by (rule list.rel_mono_strong) (use steps in \<open>auto simp: one_step_def\<close>)
  moreover have "length (concat ?tss) = length xs" if "strict" and "z = Done (Inr ys)" for ys
  proof -
    from ts(2) that(2) have ends: "\<forall>t \<in> set ts. \<exists>x. snd t = Done (Inr x)" by (auto simp: group_result_def)
    have "list_all2 (\<lambda>x t. length (sends_of tag (fst t)) = 1) xs ts"
      using all
    proof (rule list.rel_mono_strong)
      fix x t assume x: "x \<in> set xs" and "t \<in> set ts" and "case t of (rs, m) \<Rightarrow> open_run (f x) rs m"
      with ends obtain y where "open_run (f x) (fst t) (Done (Inr y))" by (cases t) auto
      with steps [OF x] that(1) show "length (sends_of tag (fst t)) = 1" by (auto dest: one_step_done)
    qed
    then show ?thesis by (induction rule: list_all2_induct) simp_all
  qed
  ultimately show ?thesis unfolding each_once_def by (metis size_mset)
qed

text \<open>What the steps need of a sender, whatever its company.\<close>

locale open_sender =
  fixes send :: "'w sender_proc" and tag :: node_tag
    and carrying :: "instruction list \<Rightarrow> transaction \<Rightarrow> bool"
  assumes open_at_most_one: "open_run (send ixs) qs z \<Longrightarrow>
      sends_of tag qs = [] \<or> (\<exists>tx. sends_of tag qs = [tx] \<and> carrying ixs tx)"
    and open_ok: "open_run (send ixs) qs (Done (Inr sig)) \<Longrightarrow> sends_of tag qs \<noteq> []"
begin

lemma gateway_step: "one_step tag carrying (strict_gateway libs) ix (send_gateway_tx_proc send libs ix)"
  unfolding one_step_def
proof (intro allI impI)
  fix qs and z :: "(fault, 'w, unit) proc"
  assume "open_run (send_gateway_tx_proc send libs ix) qs z"
  then show "at_most_one carrying [ix] (sends_of tag qs) \<and>
      (strict_gateway libs \<longrightarrow> (\<forall>x. z = Done (Inr x) \<longrightarrow> sends_of tag qs \<noteq> []))"
    unfolding send_gateway_tx_proc_def
  proof (cases rule: open_thenE)
    case (during p')
    with open_at_most_one [OF during(1)] show ?thesis by (auto simp: at_most_one_def)
  next
    case (after as bs r)
    then have "bs = []" by (auto split: sum.splits if_splits)
    moreover have "sends_of tag as \<noteq> []" if "strict_gateway libs" "z = Done (Inr x)" for x
    proof (cases r)
      case (Inl f)
      with after(3) that strict_continue [OF that(1)] show ?thesis by auto
    next
      case (Inr sig)
      with after(2) open_ok show ?thesis by blast
    qed
    ultimately show ?thesis using after(1) open_at_most_one [OF after(2)]
      by (auto simp: at_most_one_def)
  qed
qed

lemma gateway_group:
  assumes "open_run (group_proc p (List.map (send_gateway_tx_proc send libs) ixs)) qs z"
  shows "each_once carrying ixs (sends_of tag qs) \<and>
     (strict_gateway libs \<and> (\<exists>ys. z = Done (Inr ys)) \<longrightarrow> length (sends_of tag qs) = length ixs)"
  using one_step_group [OF gateway_step assms] by simp

end

interpretation es_open: open_sender "send_transaction_proc sdk rt nd kp" "node_tag nd" "carries sdk kp"
  for sdk rt nd kp
proof
  fix ixs qs and z :: "(fault, 'a, signature) proc"
  assume "open_run (send_transaction_proc sdk rt nd kp ixs) qs z"
  from open_send [OF this] show "sends_of (node_tag nd) qs = [] \<or>
      (\<exists>tx. sends_of (node_tag nd) qs = [tx] \<and> carries sdk kp ixs tx)"
    by (auto dest: evaluated_carries)
next
  fix ixs qs sig
  assume "open_run (send_transaction_proc sdk rt nd kp ixs) qs (Done (Inr sig))"
  from open_send [OF this] show "sends_of (node_tag nd) qs \<noteq> []" by auto
qed

section \<open>The gateway transaction task\<close>

lemma open_option [simp]: "open_run (option_proc f r) qs z \<longleftrightarrow> qs = [] \<and> z = option_proc f r"
  by (auto simp: option_proc_def split: option.splits)

lemma open_eyre [simp]: "open_run (eyre_proc r) qs z \<longleftrightarrow> qs = [] \<and> z = eyre_proc r"
  by (auto simp: eyre_proc_def split: sum.splits)

lemma open_built [simp]: "open_run (built_proc m r) qs z \<longleftrightarrow> qs = [] \<and> z = built_proc m r"
  by (auto simp: built_proc_def split: sum.splits)

lemma option_proc_Done [simp]: "Done (Inr y) = option_proc f r \<longleftrightarrow> r = Some y"
  by (auto simp: option_proc_def split: option.splits)

lemma eyre_proc_Done [simp]: "Done (Inr y) = eyre_proc r \<longleftrightarrow> r = Inr y"
  by (auto simp: eyre_proc_def split: sum.splits)

lemma built_proc_Done [simp]: "Done (Inr y) = built_proc m r \<longleftrightarrow> r = Inr y"
  by (auto simp: built_proc_def split: sum.splits)

text \<open>The instructions of the last stage: the rotation, or the approvals that could be built.\<close>

definition last_ixs :: "'w gateway_libs \<Rightarrow> pubkey \<Rightarrow> execute_data \<Rightarrow> instruction list" where
  "last_ixs libs signer ed =
     (case ed_items ed of
        VerifierSetRotation h \<Rightarrow> (case rotate_ix libs signer ed h of Inr ix \<Rightarrow> [ix] | Inl e \<Rightarrow> [])
      | NewMessages ms \<Rightarrow> built_ixs (approve_ix libs signer ed) ms)"

context open_sender
begin

lemma last_stage:
  assumes "open_run (case ed_items ed of
         VerifierSetRotation new_root \<Rightarrow>
           bind_proc (eyre_proc (rotate_ix libs signer ed new_root)) (send_gateway_tx_proc send libs)
       | NewMessages messages \<Rightarrow>
           map_proc (\<lambda>_. ())
             (group_proc p (List.map (send_gateway_tx_proc send libs) (built_ixs (approve_ix libs signer ed) messages)))) qs z"
  shows "each_once carrying (last_ixs libs signer ed) (sends_of tag qs) \<and>
     (strict_gateway libs \<and> z = Done (Inr ()) \<longrightarrow> length (sends_of tag qs) = length (last_ixs libs signer ed))"
proof (cases "ed_items ed")
  case (VerifierSetRotation root)
  from assms [unfolded VerifierSetRotation merkleised_payload.case] show ?thesis
  proof (cases rule: open_bindE)
    case (after as bs ix)
    from after(2) have as: "as = []" "rotate_ix libs signer ed root = Inr ix" by auto
    then have ix: "last_ixs libs signer ed = [ix]" by (simp add: last_ixs_def VerifierSetRotation)
    from gateway_step [of libs ix] after(3) have "at_most_one carrying [ix] (sends_of tag bs)"
      and "strict_gateway libs \<longrightarrow> z = Done (Inr ()) \<longrightarrow> sends_of tag bs \<noteq> []"
      unfolding one_step_def by blast+
    then show ?thesis using ix as after(1) by (auto simp: each_once_single at_most_one_def)
  qed auto
next
  case (NewMessages ms)
  then have ixs: "last_ixs libs signer ed = built_ixs (approve_ix libs signer ed) ms"
    by (simp add: last_ixs_def)
  from assms [unfolded NewMessages merkleised_payload.case] show ?thesis
  proof (cases rule: open_mapE)
    case (during p')
    with gateway_group [OF during(1)] ixs show ?thesis by auto
  next
    case (ended r)
    with gateway_group [OF ended(1)] ixs show ?thesis by (cases r) auto
  qed
qed

lemma gateway_task_open:
  assumes "open_run (gateway_tx_task_proc send libs rt data signer) qs z"
  shows "sends_of tag qs = [] \<and> z \<noteq> Done (Inr ()) \<or>
    (\<exists>ed ix0 as bs cs. decode_execute_data libs data = Some ed \<and>
       initialize_session libs signer (gateway_root libs) (ed_payload_root ed) (ed_signing_set_root ed) = Inr ix0 \<and>
       qs = as @ bs @ cs \<and> each_once carrying [ix0] (sends_of tag as) \<and>
       each_once carrying (verify_ixs libs ed) (sends_of tag bs) \<and>
       each_once carrying (last_ixs libs signer ed) (sends_of tag cs) \<and>
       (strict_gateway libs \<longrightarrow>
         (bs @ cs \<noteq> [] \<or> z = Done (Inr ()) \<longrightarrow> length (sends_of tag as) = 1) \<and>
         (cs \<noteq> [] \<or> z = Done (Inr ()) \<longrightarrow> length (sends_of tag bs) = length (verify_ixs libs ed)) \<and>
         (z = Done (Inr ()) \<longrightarrow> length (sends_of tag cs) = length (last_ixs libs signer ed))))"
  (is "?none \<or> (\<exists>ed ix0 as bs cs. ?stages ed ix0 as bs cs)")
  using assms unfolding gateway_tx_task_proc_def Let_def
proof (cases rule: open_bindE)
  case (after d0 qs1 ed)
  from after(2) have d0: "d0 = []" "decode_execute_data libs data = Some ed" by auto
  from after(3) show ?thesis
  proof (cases rule: open_bindE)
    case inner: (after d1 qs2 ix0)
    from inner(2) have d1: "d1 = []"
      "initialize_session libs signer (gateway_root libs) (ed_payload_root ed) (ed_signing_set_root ed) = Inr ix0"
      by auto
    with inner(1) after(1) d0 have ix0: "qs = qs2" by simp
    note step = gateway_step [of libs ix0, unfolded one_step_def, rule_format]
    from inner(3) show ?thesis
    proof (cases rule: open_bindE)
      case (during p')
      with step [OF during(1)] d0 d1 ix0 have "?stages ed ix0 qs [] []" by (auto simp: each_once_single)
      then show ?thesis by blast
    next
      case (failed f)
      with step [OF failed(1)] d0 d1 ix0 have "?stages ed ix0 qs [] []" by (auto simp: each_once_single)
      then show ?thesis by blast
    next
      case session: (after as qs3 u)
      from step [OF session(2)] have as: "each_once carrying [ix0] (sends_of tag as)"
        "strict_gateway libs \<longrightarrow> length (sends_of tag as) = 1"
        by (auto simp: each_once_single at_most_one_def)
      from session(3) show ?thesis
      proof (cases rule: open_bindE)
        case (during p')
        with gateway_group [OF during(1)] d0 d1 ix0 as session(1) have "?stages ed ix0 as qs3 []" by auto
        then show ?thesis by blast
      next
        case (failed f)
        with gateway_group [OF failed(1)] d0 d1 ix0 as session(1) have "?stages ed ix0 as qs3 []" by auto
        then show ?thesis by blast
      next
        case verified: (after bs cs us)
        from gateway_group [OF verified(2)] last_stage [OF verified(3)] d0 d1 ix0 as session(1) verified(1)
        have "?stages ed ix0 as bs cs" by auto
        then show ?thesis by blast
      qed
    qed
  qed (use after(1) d0 in \<open>auto\<close>)
qed auto

end

section \<open>The upload\<close>

text \<open>The instructions of the three stages, as far as they can be built.\<close>

definition init_ixs :: "'w gateway_libs \<Rightarrow> pubkey \<Rightarrow> hash256 \<Rightarrow> bytes \<Rightarrow> instruction list" where
  "init_ixs libs kp cmd payload =
     (case u64_of_len (length payload) of
        None \<Rightarrow> []
      | Some len \<Rightarrow> (case initialize_message_payload libs (gateway_root libs) kp cmd len of Inl e \<Rightarrow> [] | Inr ix \<Rightarrow> [ix]))"

definition chunk_ixs :: "'w gateway_libs \<Rightarrow> pubkey \<Rightarrow> hash256 \<Rightarrow> bytes \<Rightarrow> instruction list" where
  "chunk_ixs libs kp cmd payload =
     (case chunks_with_offset payload (max_chunk_size libs) of
        Inl e \<Rightarrow> []
      | Inr cs \<Rightarrow> (case write_ixs libs kp cmd cs of Inl e \<Rightarrow> [] | Inr ws \<Rightarrow> map snd ws))"

definition commit_ixs :: "'w gateway_libs \<Rightarrow> pubkey \<Rightarrow> hash256 \<Rightarrow> instruction list" where
  "commit_ixs libs kp cmd =
     (case commit_message_payload libs (gateway_root libs) kp cmd of Inl e \<Rightarrow> [] | Inr ix \<Rightarrow> [ix])"

lemma write_ixs_length: "write_ixs libs kp cmd cs = Inr ws \<Longrightarrow> length ws = length cs"
  unfolding write_ixs_def by (auto simp: traverse_ok_iff dest: list_all2_lengthD)

lemma open_Done_iff: "open_run (Done r) qs z \<longleftrightarrow> qs = [] \<and> z = Done r"
  by auto

context open_sender
begin

lemma context_step:
  "one_step tag carrying (strict_gateway libs) ix (context_proc m (send_gateway_tx_proc send libs ix))"
  unfolding context_proc_def by (rule one_step_map_fault [OF gateway_step])

text \<open>A stage that builds one instruction and sends it.\<close>

lemma built_stage:
  assumes "open_run (bind_proc (built_proc m r) (\<lambda>ix. context_proc c (send_gateway_tx_proc send libs ix))) qs z"
  shows "each_once carrying (case r of Inl e \<Rightarrow> [] | Inr ix \<Rightarrow> [ix]) (sends_of tag qs) \<and>
     (strict_gateway libs \<and> z = Done (Inr ()) \<longrightarrow> length (sends_of tag qs) = 1)"
  using assms
proof (cases rule: open_bindE)
  case (after as bs ix)
  from after(2) have as: "as = []" "r = Inr ix" by auto
  from context_step [of libs ix c] after(3) have "at_most_one carrying [ix] (sends_of tag bs)"
    and "strict_gateway libs \<longrightarrow> z = Done (Inr ()) \<longrightarrow> sends_of tag bs \<noteq> []"
    unfolding one_step_def by blast+
  then show ?thesis using as after(1) by (auto simp: each_once_single at_most_one_def)
qed auto

lemma initialize_stage:
  assumes "open_run (initialize_proc send libs kp cmd payload) qs z"
  shows "each_once carrying (init_ixs libs kp cmd payload) (sends_of tag qs) \<and>
     (strict_gateway libs \<and> z = Done (Inr ()) \<longrightarrow> length (sends_of tag qs) = 1)"
  using assms unfolding initialize_proc_def
proof (cases rule: open_bindE)
  case (after as bs len)
  from after(2) have "as = []" "u64_of_len (length payload) = Some len" by auto
  with built_stage [OF after(3)] after(1) show ?thesis by (simp add: init_ixs_def)
qed auto

lemma write_stage:
  assumes "open_run (write_chunks_proc send libs rt kp cmd payload) qs z"
  shows "each_once carrying (chunk_ixs libs kp cmd payload) (sends_of tag qs) \<and>
     (strict_gateway libs \<and> z = Done (Inr ()) \<longrightarrow>
        length (sends_of tag qs) = length (chunks (max_chunk_size libs) payload))"
  using assms unfolding write_chunks_proc_def
proof (cases rule: open_bindE)
  case (after d0 qs1 cs)
  then have d0: "d0 = []" "chunks_with_offset payload (max_chunk_size libs) = Inr cs" by auto
  from after(3) show ?thesis
  proof (cases rule: open_bindE)
    case inner: (after d1 qs2 ws)
    then have d1: "d1 = []" "write_ixs libs kp cmd cs = Inr ws" by auto
    with d0 have ixs: "chunk_ixs libs kp cmd payload = map snd ws" by (simp add: chunk_ixs_def)
    have len: "length ws = length (chunks (max_chunk_size libs) payload)"
      using write_ixs_length [OF d1(2)] d0(2) by (auto simp: chunks_with_offset_def split: if_splits)
    have steps: "one_step tag carrying (strict_gateway libs) (snd w) (write_one_proc send libs w)" for w
      by (simp add: write_one_proc_def context_step)
    from inner(3) obtain y where y: "open_run (group_proc (rt_pick rt) (List.map (write_one_proc send libs) ws)) qs2 y"
      and z: "z = Done (Inr ()) \<Longrightarrow> \<exists>us. y = Done (Inr us)"
      using open_map_ok by fast
    from one_step_group [of ws, OF steps y] z ixs len d0 d1 inner(1) after(1) show ?thesis by auto
  qed (use after(1) d0 in auto)
qed auto

lemma commit_stage:
  assumes "open_run (commit_proc send libs kp cmd) qs z"
  shows "each_once carrying (commit_ixs libs kp cmd) (sends_of tag qs) \<and>
     (strict_gateway libs \<and> z = Done (Inr ()) \<longrightarrow> length (sends_of tag qs) = 1)"
  using built_stage [OF assms [unfolded commit_proc_def]] by (simp add: commit_ixs_def)

lemma upload_open:
  assumes run: "open_run (upload_proc send libs rt kp message payload) qs z"
    and cmd: "cmd = message_to_command_id libs message"
  shows "\<exists>as bs cs. qs = as @ bs @ cs \<and>
     each_once carrying (init_ixs libs kp cmd payload) (sends_of tag as) \<and>
     each_once carrying (chunk_ixs libs kp cmd payload) (sends_of tag bs) \<and>
     each_once carrying (commit_ixs libs kp cmd) (sends_of tag cs) \<and>
     (strict_gateway libs \<longrightarrow>
       (bs @ cs \<noteq> [] \<or> (\<exists>pda. z = Done (Inr pda)) \<longrightarrow> length (sends_of tag as) = 1) \<and>
       (cs \<noteq> [] \<or> (\<exists>pda. z = Done (Inr pda)) \<longrightarrow>
          length (sends_of tag bs) = length (chunks (max_chunk_size libs) payload)) \<and>
       ((\<exists>pda. z = Done (Inr pda)) \<longrightarrow> length (sends_of tag cs) = 1))"
  (is "\<exists>as bs cs. ?stages as bs cs")
  using run unfolding upload_proc_def Let_def cmd [symmetric]
proof (cases rule: open_bindE)
  case (during p')
  with initialize_stage [OF during(1)] have "?stages qs [] []" by auto
  then show ?thesis by blast
next
  case (failed f)
  with initialize_stage [OF failed(1)] have "?stages qs [] []" by auto
  then show ?thesis by blast
next
  case (after as qs1 u)
  note init = initialize_stage [OF after(2)] 
  from after(3) show ?thesis
  proof (cases rule: open_bindE)
    case (during p')
    with init write_stage [OF during(1)] after(1) have "?stages as qs1 []" by auto
    then show ?thesis by blast
  next
    case (failed f)
    with init write_stage [OF failed(1)] after(1) have "?stages as qs1 []" by auto
    then show ?thesis by blast
  next
    case written: (after bs cs v)
    from written(3) obtain y where y: "open_run (commit_proc send libs kp cmd) cs y"
      and z: "\<And>pda. z = Done (Inr pda) \<Longrightarrow> \<exists>v. y = Done (Inr v)"
      using open_map_ok by fast
    from init write_stage [OF written(2)] commit_stage [OF y] z after(1) written(1)
    have "?stages as bs cs" by auto
    then show ?thesis by blast
  qed
qed

end

section \<open>Properties\<close>

text \<open>A runtime that serves the futures of a set one after the other.\<close>

definition in_turn_runtime :: "nat runtime" where
  "in_turn_runtime = counting_runtime\<lparr>rt_pick := (\<lambda>w. 0)\<rparr>"

lemma in_turn_pick [simp]: "rt_pick in_turn_runtime e = 0"
  by (simp add: in_turn_runtime_def)

text \<open>
  C6. Whatever other tasks do to the chain in between, and wherever it is stopped,
  \<open>send_transaction\<close> sends at most one transaction, as its last request, and only after it has
  simulated the same instructions with the same blockhash and the answer was free of errors; the
  transaction is made of the unit price from the fees it was answered, the budget computed from
  that simulation, and the instructions unchanged. When nothing was sent it has not succeeded,
  and a simulation error means that nothing was sent.
\<close>

theorem simulated_before_sent:
  assumes "open_run (send_transaction_proc sdk rt nd kp ixs) qs z"
  shows "(\<exists>tx pre. evaluated sdk nd kp ixs tx \<and> qs = pre @ [ReqSend (node_tag nd) tx] \<and>
       sends_of (node_tag nd) pre = [] \<and>
       ReqSimulate (node_tag nd) \<lparr>tx_ixs = cu_limit_ix sdk 1399850 # ixs, tx_payer = kp, tx_hash = tx_hash tx\<rparr> \<in> set pre \<and>
       (\<forall>res. z \<noteq> Done (Inl (Err (ComputeBudget (SimulationError res))))))
     \<or> sends_of (node_tag nd) qs = [] \<and> (\<forall>sig. z \<noteq> Done (Inr sig))"
  using assms by (rule open_send)

lemma simulated_before_sent_witness:
  "\<exists>qs sig tx. open_run (send_transaction_proc decimal_sdk in_turn_runtime (easy_node MainNode) 5 []) qs (Done (Inr sig)) \<and>
     sends_of MainNode qs = [tx] \<and> evaluated decimal_sdk (easy_node MainNode) 5 [] tx"
proof -
  obtain sig s' where "send_transaction decimal_sdk in_turn_runtime (easy_node MainNode) 5 [] start_world = (Inr sig, s')"
    using easy_send by blast
  then have "run_proc (send_transaction_proc decimal_sdk in_turn_runtime (easy_node MainNode) 5 []) start_world = (Inr sig, s')"
    by (simp add: run_send_transaction)
  from run_open [OF this] obtain qs where
    qs: "open_run (send_transaction_proc decimal_sdk in_turn_runtime (easy_node MainNode) 5 []) qs (Done (Inr sig))" by blast
  have tag: "node_tag (easy_node MainNode) = MainNode" by (simp add: easy_node_def)
  from simulated_before_sent [OF qs] qs show ?thesis by (auto simp: tag)
qed

text \<open>
  Under a runtime that serves the futures of a set one after the other, the gateway
  transaction task at the granularity of its requests is the one in which every future runs in
  one go: same result, same world, same requests.
\<close>

theorem gateway_task_alone:
  assumes "\<And>e. rt_pick rt e = 0"
  shows "run_proc (gateway_tx_task_proc (send_transaction_proc sdk rt (main_client nd) (gc_keypair cfg)) libs rt data signer) =
     gateway_tx_task (new_pusher cfg name nd sn rt sdk libs codec fuel) data signer"
  using assms by (rule run_gateway_task)

lemma gateway_task_alone_witness:
  "\<exists>s'. run_proc (gateway_tx_task_proc (send_transaction_proc decimal_sdk in_turn_runtime (easy_node MainNode) 5)
     sample_gateway in_turn_runtime [] 5) processor_start = (Inr (), s')"
proof -
  let ?pusher = "new_pusher sample_config ''solana'' (easy_node MainNode) (easy_node SimNode) in_turn_runtime decimal_sdk
     sample_gateway sample_codec 1"
  obtain s' where "gateway_tx_task ?pusher [] 5 processor_start = (Inr (), s')"
    using sample_rotation_succeeds [of _ _ _ "gateway_err_proceed sample_gateway"] by simp blast
  moreover have "run_proc (gateway_tx_task_proc (send_transaction_proc decimal_sdk in_turn_runtime
      (main_client (easy_node MainNode)) (gc_keypair sample_config)) sample_gateway in_turn_runtime [] 5) processor_start =
    gateway_tx_task ?pusher [] 5 processor_start"
    by (simp only: gateway_task_alone [OF in_turn_pick, where name = "''solana''" and sn = "easy_node SimNode"
      and codec = sample_codec and fuel = 1])
  ultimately show ?thesis by simp
qed


abbreviation strict_sample :: "nat gateway_libs" where
  "strict_sample \<equiv> sample_gateway\<lparr>gateway_err_proceed := (\<lambda>c. False)\<rparr>"

lemma strict_sample [simp]: "strict_gateway strict_sample"
  by (simp add: strict_gateway_def)


text \<open>
  C4. Whatever other tasks do to the chain in between, however the futures of a set interleave,
  and wherever the task is stopped or fails: a gateway transaction task sends at most one
  transaction that opens the session, then at most one for each signature whose instruction can
  be built, then at most one for the rotation or for each approval, in this order of stages and
  nothing else. If the gateway marks no error as safe to pass over, no signature is verified
  before the session was opened, nothing is rotated or approved before every signature was
  sent, and a task that succeeds sent all of them.
\<close>

theorem gateway_task_in_company:
  assumes "open_run (gateway_tx_task_proc (send_transaction_proc sdk rt nd kp) libs rt data signer) qs z"
  shows "sends_of (node_tag nd) qs = [] \<and> z \<noteq> Done (Inr ()) \<or>
    (\<exists>ed ix0 as bs cs. decode_execute_data libs data = Some ed \<and>
       initialize_session libs signer (gateway_root libs) (ed_payload_root ed) (ed_signing_set_root ed) = Inr ix0 \<and>
       qs = as @ bs @ cs \<and> each_once (carries sdk kp) [ix0] (sends_of (node_tag nd) as) \<and>
       each_once (carries sdk kp) (verify_ixs libs ed) (sends_of (node_tag nd) bs) \<and>
       each_once (carries sdk kp) (last_ixs libs signer ed) (sends_of (node_tag nd) cs) \<and>
       (strict_gateway libs \<longrightarrow>
         (bs @ cs \<noteq> [] \<or> z = Done (Inr ()) \<longrightarrow> length (sends_of (node_tag nd) as) = 1) \<and>
         (cs \<noteq> [] \<or> z = Done (Inr ()) \<longrightarrow> length (sends_of (node_tag nd) bs) = length (verify_ixs libs ed)) \<and>
         (z = Done (Inr ()) \<longrightarrow> length (sends_of (node_tag nd) cs) = length (last_ixs libs signer ed))))"
  using assms by (rule es_open.gateway_task_open)

lemma gateway_task_in_company_witness:
  "\<exists>qs. open_run (gateway_tx_task_proc (send_transaction_proc decimal_sdk in_turn_runtime (easy_node MainNode) 5)
       strict_sample in_turn_runtime [] 5) qs (Done (Inr ())) \<and> length (sends_of MainNode qs) = 4"
proof -
  let ?task = "gateway_tx_task_proc (send_transaction_proc decimal_sdk in_turn_runtime (easy_node MainNode) 5)
       strict_sample in_turn_runtime [] 5"
  let ?pusher = "new_pusher sample_config ''solana'' (easy_node MainNode) (easy_node SimNode) in_turn_runtime decimal_sdk
     strict_sample sample_codec 1"
  obtain s' where "gateway_tx_task ?pusher [] 5 processor_start = (Inr (), s')"
    using sample_rotation_succeeds by blast
  moreover have "run_proc (gateway_tx_task_proc (send_transaction_proc decimal_sdk in_turn_runtime
      (main_client (easy_node MainNode)) (gc_keypair sample_config)) strict_sample in_turn_runtime [] 5) processor_start =
    gateway_tx_task ?pusher [] 5 processor_start"
    by (simp only: run_gateway_task [OF in_turn_pick, where name = "''solana''" and sn = "easy_node SimNode"
      and codec = sample_codec and fuel = 1])
  ultimately have "run_proc ?task processor_start = (Inr (), s')" by simp
  from run_open [OF this] obtain qs where qs: "open_run ?task qs (Done (Inr ()))" by blast
  have tag: "node_tag (easy_node MainNode) = MainNode" by (simp add: easy_node_def)
  have "decode_execute_data strict_sample [] = Some sample_rotation" by (simp add: sample_decoders)
  moreover have "length (verify_ixs strict_sample sample_rotation) = 2"
    by (simp add: verify_ixs_def built_ixs_def sample_decoders tagged_ix_def List.map_filter_def)
  moreover have "length (last_ixs strict_sample 5 sample_rotation) = 1"
    by (simp add: last_ixs_def rotate_ix_def sample_decoders tagged_ix_def)
  ultimately show ?thesis using gateway_task_in_company [OF qs] qs by (auto simp: tag)
qed

end
