(* ===== verification/MessageSteps.thy ===== *)
theory MessageSteps
  imports ConcurrentSteps
begin

text \<open>
  A whole task of \<open>crates/solana-gateway-task-processor/src/component.rs\<close> at the granularity of
  its requests: the gas estimation with its cache
  (\<open>component/execution_cost_estimation.rs\<close>), the checks, the upload and the call of a message,
  refunds, gateway transactions, and the report of a failure with the gas it computes
  (\<open>crates/gateway-gas-computation/src/lib.rs\<close>). Each definition has the name of the computation
  it refines, with \<open>_proc\<close> behind it; \<open>process_task_alone\<close> says that alone, under a runtime that
  serves the futures of a set one after the other, they agree.

  A process of the chain acts on the environment; a process of the component acts on its state,
  which has the cache and the client of the Amplifier as well. \<open>on_world\<close> lifts the one to the
  other, and \<open>local_proc\<close> is a step without a request.
\<close>

section \<open>Processes of the component\<close>

primrec on_world :: "('f, 'w, 'a) proc \<Rightarrow> ('f, ('w, 'z) world_scheme, 'a) proc" where
  "on_world (Done r) = Done r"
| "on_world (Ask k) = Ask (\<lambda>s. case map_prod id (map_prod on_world id) (k (env s)) of
     (qs, p, e) \<Rightarrow> (qs, p, s\<lparr>env := e, wire := wire s @ qs\<rparr>))"

definition local_proc :: "('f, 's, 'a) io \<Rightarrow> ('f, 's, 'a) proc" where
  "local_proc m = Ask (\<lambda>s. case m s of (r, s') \<Rightarrow> ([], Done r, s'))"

fun fold_proc :: "('x \<Rightarrow> 'a \<Rightarrow> ('f, 'w, 'a) proc) \<Rightarrow> 'x list \<Rightarrow> 'a \<Rightarrow> ('f, 'w, 'a) proc" where
  "fold_proc f [] a = Done (Inr a)"
| "fold_proc f (x # xs) a = bind_proc (f x a) (fold_proc f xs)"

definition catch_err_proc :: "(fault, 'w, 'a) proc \<Rightarrow> (fault, 'w, eyre + 'a) proc" where
  "catch_err_proc p = then_proc p (\<lambda>r.
     case r of
       Inl (Err e) \<Rightarrow> Done (Inr (Inl e))
     | Inl f \<Rightarrow> Done (Inl f)
     | Inr x \<Rightarrow> Done (Inr (Inr x)))"

definition rpc_proc :: "request \<Rightarrow> ('w \<Rightarrow> (client_error + 'a) \<times> 'w) \<Rightarrow> (fault, 'w, 'a) proc" where
  "rpc_proc q f = map_fault_proc client_fault (call_proc q f)"

definition eyre_rpc_proc ::
  "string \<Rightarrow> request \<Rightarrow> ('w \<Rightarrow> (client_error + 'a) \<times> 'w) \<Rightarrow> (fault, 'w, 'a) proc" where
  "eyre_rpc_proc m q f = map_fault_proc (\<lambda>e. msg_fault m) (call_proc q f)"

section \<open>Estimating the gas\<close>

definition calculate_compute_unit_price_proc :: "'w node \<Rightarrow> pubkey list \<Rightarrow> (fault, 'w, u64) proc" where
  "calculate_compute_unit_price_proc nd accounts =
     (if 128 < length accounts then Done (Inl (msg_fault ''Too many accounts, cannot calculate compute unit price''))
      else map_proc fee_average
             (eyre_rpc_proc ''Failed to get prioritization fees'' (ReqFees (node_tag nd) accounts) (n_fees nd accounts)))"

definition add_stage_proc :: "'w node \<Rightarrow> stage_metadata \<Rightarrow> u64 \<Rightarrow> (fault, 'w, u64) proc" where
  "add_stage_proc nd m fee =
     (if sm_accounts m = [] then Done (Inr fee)
      else map_proc (\<lambda>price. sat_add fee (calculate_stage_fee m price))
             (calculate_compute_unit_price_proc nd (sm_accounts m)))"

definition calculate_cost_proc :: "'w node \<Rightarrow> consumption_breakdown \<Rightarrow> (fault, 'w, u64) proc" where
  "calculate_cost_proc nd bd =
     bind_proc (add_stage_proc nd (bd_initialization bd) 0) (\<lambda>fee.
     bind_proc (fold_proc (add_stage_proc nd) (bd_upload bd) fee) (\<lambda>fee.
     bind_proc (add_stage_proc nd (bd_commitment bd) fee) (\<lambda>fee.
     bind_proc (add_stage_proc nd (bd_execution bd) fee) (\<lambda>fee.
     add_stage_proc nd (bd_closure bd) fee))))"

definition execute_and_get_cost_proc ::
  "sdk \<Rightarrow> 'w node \<Rightarrow> 'w node \<Rightarrow> pubkey \<Rightarrow> instruction list \<Rightarrow> (fault, 'w, u64 \<times> stage_metadata) proc" where
  "execute_and_get_cost_proc sdk sn nd kp ixs =
     bind_proc (eyre_rpc_proc ''Failed to get blockhash'' (ReqBlockhash (node_tag sn)) (n_blockhash sn)) (\<lambda>hash.
     let ixs1 = cu_limit_ix sdk 1400000 # ixs
     in bind_proc (map_proc (cu_price_ix sdk) (calculate_compute_unit_price_proc nd (touched ixs1))) (\<lambda>price_ix.
        let ixs2 = price_ix # ixs1;
            tx = \<lparr>tx_ixs = ixs2, tx_payer = kp, tx_hash = hash\<rparr>
        in bind_proc (eyre_rpc_proc ''Failed to send transaction'' (ReqSend (node_tag sn) tx) (n_send sn tx)) (\<lambda>sig.
           bind_proc (eyre_rpc_proc ''Failed to get transaction status'' (ReqTransaction (node_tag sn) sig)
                        (n_transaction sn sig Processed)) (\<lambda>enc.
           bind_proc (option_proc (msg_fault ''Transaction metadata not available'') (enc_meta enc)) (\<lambda>meta.
           case meta_units meta of
             SerSome units \<Rightarrow> Done (Inr (meta_fee meta, \<lparr>sm_units = units, sm_accounts = touched ixs2\<rparr>))
           | _ \<Rightarrow> Done (Inl (msg_fault ''Missing compute units consumption details'')))))))"

definition build_execute_instruction_proc ::
  "'w gateway_libs \<Rightarrow> 'w node \<Rightarrow> pubkey \<Rightarrow> gmp_message \<Rightarrow> bytes \<Rightarrow> pubkey \<Rightarrow> (fault, 'w, instruction) proc" where
  "build_execute_instruction_proc libs nd signer message payload destination =
     (let incoming = incoming_message_pda libs (command_id libs (gmp_chain message) (gmp_id message));
          payload_pda = find_message_payload_pda libs incoming signer
      in if destination = its_id libs then
           map_fault_proc (\<lambda>e. msg_fault ''Failed to build ITS instruction'')
             (call_proc (ReqExternal (node_tag nd))
                (its_execute_ix libs (node_tag nd) signer incoming payload_pda message payload))
         else if destination = governance_id libs then
           eyre_proc (governance_ix libs signer incoming payload_pda message payload)
         else eyre_proc (executable_ix libs signer message payload incoming payload_pda))"

definition estimate_write_proc ::
  "sdk \<Rightarrow> 'w gateway_libs \<Rightarrow> 'w node \<Rightarrow> 'w node \<Rightarrow> pubkey \<Rightarrow> hash256 \<Rightarrow> nat \<times> bytes
     \<Rightarrow> u64 \<times> stage_metadata list \<Rightarrow> (fault, 'w, u64 \<times> stage_metadata list) proc" where
  "estimate_write_proc sdk libs sn nd kp cmd w acc =
     (case w of (index, chunk) \<Rightarrow> case acc of (fee, metas) \<Rightarrow>
        bind_proc (option_proc (msg_fault ''out of range integral type conversion attempted'')
                     (u64_of_len (min (index * max_chunk_size libs) (2 ^ 64 - 1)))) (\<lambda>off.
        bind_proc (eyre_proc (write_message_payload libs (gateway_root libs) kp cmd chunk off)) (\<lambda>ix.
        map_proc (\<lambda>(cost, meta). (sat_add fee cost, metas @ [meta]))
          (execute_and_get_cost_proc sdk sn nd kp [ix]))))"

definition estimate_total_execute_cost_proc ::
  "sdk \<Rightarrow> 'w gateway_libs \<Rightarrow> 'w node \<Rightarrow> 'w node \<Rightarrow> pubkey \<Rightarrow> gmp_message \<Rightarrow> bytes \<Rightarrow> pubkey
     \<Rightarrow> (fault, 'w, u64 \<times> consumption_breakdown) proc" where
  "estimate_total_execute_cost_proc sdk libs sn nd kp message payload destination =
     (let cmd = message_to_command_id libs message in
      bind_proc (option_proc (msg_fault ''out of range integral type conversion attempted'')
                   (u64_of_len (length payload))) (\<lambda>len.
      bind_proc (eyre_proc (initialize_message_payload libs (gateway_root libs) kp cmd len)) (\<lambda>init_ix.
      bind_proc (execute_and_get_cost_proc sdk sn nd kp [init_ix]) (\<lambda>(init_cost, init_meta).
      bind_proc (if max_chunk_size libs = 0 then Done (Inl (Panic ''chunk size must be non-zero''))
                 else fold_proc (estimate_write_proc sdk libs sn nd kp cmd)
                        (enumerate 0 (chunks (max_chunk_size libs) payload)) (init_cost, [])) (\<lambda>(fee, uploads).
      bind_proc (eyre_proc (commit_message_payload libs (gateway_root libs) kp cmd)) (\<lambda>commit_ix.
      bind_proc (execute_and_get_cost_proc sdk sn nd kp [commit_ix]) (\<lambda>(commit_cost, commit_meta).
      bind_proc (build_execute_instruction_proc libs sn kp message payload destination) (\<lambda>execute_ix.
      bind_proc (execute_and_get_cost_proc sdk sn nd kp [execute_ix]) (\<lambda>(execute_cost, execute_meta).
      bind_proc (eyre_proc (close_message_payload libs (gateway_root libs) kp cmd)) (\<lambda>close_ix.
      map_proc (\<lambda>(close_cost, close_meta).
          (sat_add (sat_add (sat_add fee commit_cost) execute_cost) close_cost,
           \<lparr>bd_initialization = init_meta, bd_upload = uploads, bd_commitment = commit_meta,
            bd_execution = execute_meta, bd_closure = close_meta\<rparr>))
        (execute_and_get_cost_proc sdk sn nd kp [close_ix])))))))))))"

text \<open>The cache is locked for each access, never across a request.\<close>

definition ensure_enough_gas_proc ::
  "sdk \<Rightarrow> 'w gateway_libs \<Rightarrow> 'w node \<Rightarrow> 'w node \<Rightarrow> pubkey \<Rightarrow> gmp_message \<Rightarrow> bytes \<Rightarrow> pubkey
     \<Rightarrow> pubkey \<Rightarrow> int \<Rightarrow> (fault, ('w, 'z) processor_world_scheme, unit) proc" where
  "ensure_enough_gas_proc sdk libs sn nd kp message payload destination incoming available =
     bind_proc (local_proc (cache_take incoming)) (\<lambda>maybe_cached.
     bind_proc (on_world
         (case maybe_cached of
            Some bd \<Rightarrow> map_proc (\<lambda>cost. (cost, bd)) (calculate_cost_proc nd bd)
          | None \<Rightarrow> estimate_total_execute_cost_proc sdk libs sn nd kp message payload destination))
       (\<lambda>(cost, bd).
     if available < uint cost then
       bind_proc (local_proc (cache_put incoming bd)) (\<lambda>_. Done (Inl (Err (InsufficientGasBalance (uint cost) available))))
     else Done (Inr ())))"

section \<open>The gas of a failed transaction\<close>

definition fetch_transaction_proc ::
  "sdk \<Rightarrow> 'w runtime \<Rightarrow> 'w node \<Rightarrow> commitment \<Rightarrow> signature \<Rightarrow> (fault, 'w, tx_status) proc" where
  "fetch_transaction_proc sdk rt nd c sig =
     bind_proc (rpc_proc (ReqTransaction (node_tag nd) sig) (rt_retry rt (n_transaction nd sig c)))
       (\<lambda>enc. Done (parse_transaction sdk sig enc))"

fun fetch_signatures_from_proc ::
  "nat \<Rightarrow> sdk \<Rightarrow> 'w node \<Rightarrow> commitment \<Rightarrow> pubkey \<Rightarrow> signature option \<Rightarrow> signature list
     \<Rightarrow> (fault, 'w, signature list) proc" where
  "fetch_signatures_from_proc 0 sdk nd c a before acc = Done (Inl Diverge)"
| "fetch_signatures_from_proc (Suc n) sdk nd c a before acc =
     bind_proc (rpc_proc (ReqSignatures (node_tag nd) a before None page_limit)
                  (n_signatures nd a before None page_limit c)) (\<lambda>page.
     if page = [] then Done (Inr acc)
     else case parse_signature sdk (st_signature (last page)) of
            None \<Rightarrow> Done (Inl (msg_fault ''invalid signature''))
          | Some b \<Rightarrow> fetch_signatures_from_proc n sdk nd c a (Some b)
              (acc @ List.map_filter (\<lambda>info. parse_signature sdk (st_signature info)) page))"

definition cost_of_signature_verification_proc ::
  "nat \<Rightarrow> sdk \<Rightarrow> gateway_codec \<Rightarrow> 'w runtime \<Rightarrow> 'w node \<Rightarrow> commitment \<Rightarrow> pubkey \<Rightarrow> pubkey
     \<Rightarrow> (fault, 'w, u64) proc" where
  "cost_of_signature_verification_proc fuel sdk codec rt nd c session gateway =
     bind_proc (fetch_signatures_from_proc fuel sdk nd c session None []) (\<lambda>sigs.
     map_proc (foldl (add_tx_cost codec is_verification_ix gateway) 0)
       (group_proc (rt_pick rt) (map (fetch_transaction_proc sdk rt nd c) sigs)))"

definition cost_of_payload_uploading_proc ::
  "nat \<Rightarrow> sdk \<Rightarrow> gateway_codec \<Rightarrow> 'w runtime \<Rightarrow> 'w node \<Rightarrow> commitment \<Rightarrow> pubkey \<Rightarrow> pubkey
     \<Rightarrow> (fault, 'w, u64) proc" where
  "cost_of_payload_uploading_proc fuel sdk codec rt nd c payload_pda gateway =
     bind_proc (fetch_signatures_from_proc fuel sdk nd c payload_pda None []) (\<lambda>sigs.
     map_proc (foldl (add_tx_cost codec is_upload_ix gateway) 0)
       (group_proc (rt_pick rt) (map (fetch_transaction_proc sdk rt nd c) sigs)))"

definition add_gas_proc ::
  "nat \<Rightarrow> sdk \<Rightarrow> gateway_codec \<Rightarrow> 'w runtime \<Rightarrow> 'w node \<Rightarrow> commitment \<Rightarrow> pubkey
     \<Rightarrow> pubkey \<times> pubkey list \<times> bytes \<Rightarrow> u64 \<Rightarrow> (fault, 'w, u64) proc" where
  "add_gas_proc fuel sdk codec rt nd c gateway ix tot =
     (case ix of (program, accounts, payload) \<Rightarrow>
        if program = gateway then
          (case decode_gateway_ix codec payload of
             Some (ApproveMessage set_size) \<Rightarrow>
               (case nth_account accounts 2 of
                  None \<Rightarrow> Done (Inr tot)
                | Some session \<Rightarrow>
                    map_proc (\<lambda>cost. sat_add tot (div_or_zero cost set_size))
                      (cost_of_signature_verification_proc fuel sdk codec rt nd c session gateway))
           | Some RotateSigners \<Rightarrow>
               (case nth_account accounts 1 of
                  None \<Rightarrow> Done (Inr tot)
                | Some session \<Rightarrow>
                    map_proc (sat_add tot)
                      (cost_of_signature_verification_proc fuel sdk codec rt nd c session gateway))
           | _ \<Rightarrow> Done (Inr tot))
        else if is_axelar_message codec payload then
          (case nth_account accounts 1 of
             None \<Rightarrow> Done (Inr tot)
           | Some payload_pda \<Rightarrow>
               map_proc (sat_add tot) (cost_of_payload_uploading_proc fuel sdk codec rt nd c payload_pda gateway))
        else Done (Inr tot))"

definition compute_total_gas_proc ::
  "nat \<Rightarrow> sdk \<Rightarrow> gateway_codec \<Rightarrow> 'w runtime \<Rightarrow> 'w node \<Rightarrow> commitment \<Rightarrow> pubkey \<Rightarrow> solana_tx
     \<Rightarrow> (fault, 'w, u64) proc" where
  "compute_total_gas_proc fuel sdk codec rt nd c gateway tx =
     fold_proc (add_gas_proc fuel sdk codec rt nd c gateway) (lt_ixs tx) (lt_cost tx)"

section \<open>A task\<close>

text \<open>What a task uses of \<open>SolanaTxPusher\<close>, as in \<open>tx_pusher\<close>.\<close>

record ('w, 's) pusher_steps =
  ps_config :: gateway_config
  ps_node :: "'w node"
  ps_runtime :: "'w runtime"
  ps_sdk :: sdk
  ps_libs :: "'w gateway_libs"
  ps_codec :: gateway_codec
  ps_fuel :: nat
  ps_send :: "'w sender_proc"
  ps_ensure :: "gmp_message \<Rightarrow> bytes \<Rightarrow> pubkey \<Rightarrow> pubkey \<Rightarrow> int \<Rightarrow> (fault, 's, unit) proc"

definition new_steps ::
  "gateway_config \<Rightarrow> 'w node \<Rightarrow> 'w node \<Rightarrow> 'w runtime \<Rightarrow> sdk \<Rightarrow> 'w gateway_libs \<Rightarrow> gateway_codec \<Rightarrow> nat
     \<Rightarrow> ('w, ('w, 'z) processor_world_scheme) pusher_steps" where
  "new_steps cfg nd sn rt sdk libs codec fuel =
     \<lparr>ps_config = cfg, ps_node = main_client nd, ps_runtime = rt, ps_sdk = sdk, ps_libs = libs,
      ps_codec = codec, ps_fuel = fuel,
      ps_send = send_transaction_proc sdk rt (main_client nd) (gc_keypair cfg),
      ps_ensure = ensure_enough_gas_proc sdk libs (estimator_client sn) (main_client nd) (gc_keypair cfg)\<rparr>"

definition incoming_message_already_executed_proc ::
  "'w gateway_libs \<Rightarrow> 'w node \<Rightarrow> pubkey \<Rightarrow> (fault, 'w, bool) proc" where
  "incoming_message_already_executed_proc libs nd incoming =
     bind_proc (rpc_proc (ReqAccount (node_tag nd) incoming) (n_account_data nd incoming))
       (\<lambda>raw. option_proc (msg_fault ''failed to read incoming message'') (read_incoming_message libs raw))"

definition destination_ix_proc ::
  "'w gateway_libs \<Rightarrow> 'w node \<Rightarrow> pubkey \<Rightarrow> pubkey \<Rightarrow> pubkey \<Rightarrow> pubkey \<Rightarrow> gmp_message \<Rightarrow> bytes
     \<Rightarrow> (fault, 'w, instruction) proc" where
  "destination_ix_proc libs nd destination signer incoming payload_pda message payload =
     (if destination = its_id libs then
        map_fault_proc Err (call_proc (ReqExternal (node_tag nd))
          (its_execute_ix libs (node_tag nd) signer incoming payload_pda message payload))
      else if destination = governance_id libs then
        eyre_proc (governance_ix libs signer incoming payload_pda message payload)
      else bind_proc (Done (validate_relayer_not_in_payload libs payload signer)) (\<lambda>_.
        eyre_proc (executable_ix libs signer message payload incoming payload_pda)))"

definition send_to_destination_program_proc ::
  "('w, 's) pusher_steps \<Rightarrow> pubkey \<Rightarrow> pubkey \<Rightarrow> pubkey \<Rightarrow> pubkey \<Rightarrow> gmp_message \<Rightarrow> bytes
     \<Rightarrow> (fault, 'w, signature) proc" where
  "send_to_destination_program_proc p destination signer incoming payload_pda message payload =
     (let libs = ps_libs p in
      bind_proc (destination_ix_proc libs (ps_node p) destination signer incoming payload_pda message payload) (\<lambda>ix.
      bind_proc (built_proc ''failed to construct an instruction to close the message payload pda''
                   (close_message_payload libs (gateway_root libs) (gc_keypair (ps_config p))
                      (message_to_command_id libs message))) (\<lambda>ix_close.
      ps_send p [ix, ix_close])))"

definition execute_task_with_estimator_proc ::
  "('w, ('w, 'z) world_scheme) pusher_steps \<Rightarrow> config_metadata \<Rightarrow> pubkey \<Rightarrow> execute_task
     \<Rightarrow> (fault, ('w, 'z) world_scheme, unit) proc" where
  "execute_task_with_estimator_proc p md signer task =
     (let libs = ps_libs p;
          payload = et_payload task;
          available = tk_amount (et_available_gas task);
          message = compose_message md (et_message task);
          incoming = incoming_message_pda libs (command_id libs (gmp_chain message) (gmp_id message))
      in bind_proc (on_world (incoming_message_already_executed_proc libs (ps_node p) incoming)) (\<lambda>executed.
         if executed then Done (Inr ())
         else
           bind_proc (option_proc (Err (Ctx ''Failed to parse destination address'' (Msg ''invalid pubkey'')))
                        (parse_pubkey (ps_sdk p) (gmp_destination_address message))) (\<lambda>destination.
           bind_proc (Done (verify_destination libs destination (gc_allow_third_party (ps_config p)))) (\<lambda>_.
           bind_proc (ps_ensure p message payload destination incoming available) (\<lambda>_.
           bind_proc (on_world (upload_proc (ps_send p) libs (ps_runtime p) (gc_keypair (ps_config p)) message payload))
             (\<lambda>payload_pda.
           map_proc (\<lambda>_. ())
             (on_world (send_to_destination_program_proc p destination signer incoming payload_pda message payload))))))))"

definition refund_task_proc :: "('w, 's) pusher_steps \<Rightarrow> refund_task \<Rightarrow> (fault, 'w, unit) proc" where
  "refund_task_proc p task =
     bind_proc (option_proc (msg_fault ''invalid pubkey'') (parse_pubkey (ps_sdk p) (rf_recipient task))) (\<lambda>receiver.
     if tk_token_id (rf_remaining task) \<noteq> None then Done (Inl (msg_fault ''non-native token refunds are not supported''))
     else
       bind_proc (option_proc (msg_fault ''refund amount is too large'') (u64_of_int (tk_amount (rf_remaining task)))) (\<lambda>amount.
       bind_proc (eyre_proc (refund_fees_ix (ps_libs p) (gc_keypair (ps_config p)) receiver
                    (gm_message_id (rf_message task)) amount)) (\<lambda>ix.
       map_proc (\<lambda>_. ()) (ps_send p [ix]))))"

definition failure_event_proc ::
  "('w, 's) pusher_steps \<Rightarrow> config_metadata \<Rightarrow> task_id \<Rightarrow> string \<Rightarrow> string \<Rightarrow> eyre \<Rightarrow> (fault, 'w, amp_event) proc" where
  "failure_event_proc p md i source_chain message_id err =
     (let libs = ps_libs p; sdk = ps_sdk p; rt = ps_runtime p; nd = ps_node p in
      case downcast_cb err of
        Some (TransactionError source sig) \<Rightarrow>
          bind_proc (fetch_transaction_proc sdk rt nd (cm_commitment md) sig) (\<lambda>st.
          let tx = status_tx st in
          map_proc (\<lambda>total_fee. message_executed_event libs (show_signature libs sig) source_chain message_id REVERTED
                  (lt_timestamp tx) (native (case total_fee of Inr g \<Rightarrow> g | Inl e \<Rightarrow> lt_cost tx)))
            (catch_err_proc (compute_total_gas_proc (ps_fuel p) sdk (ps_codec p) rt nd (cm_commitment md)
                   (gateway_id libs) tx)))
      | _ \<Rightarrow>
          if downcast_gas err \<noteq> None then
            Done (Inr (cannot_execute_message_event libs i source_chain message_id InsufficientGas (show_error libs err)))
          else
            map_proc (uploading_event libs i source_chain message_id err)
              (catch_err_proc (cost_of_payload_uploading_proc (ps_fuel p) sdk (ps_codec p) rt nd (cm_commitment md)
                 (find_message_payload_pda libs (incoming_message_pda libs (command_id libs source_chain message_id))
                    (gc_keypair (ps_config p)))
                 (gateway_id libs))))"

definition process_task_proc ::
  "('w, ('w, 'z) processor_world_scheme) pusher_steps \<Rightarrow> config_metadata \<Rightarrow> task_item
     \<Rightarrow> (fault, ('w, 'z) processor_world_scheme, unit) proc" where
  "process_task_proc p md item =
     (let signer = gc_keypair (ps_config p) in
      case ti_task item of
        GatewayTx data \<Rightarrow> on_world (gateway_tx_task_proc (ps_send p) (ps_libs p) (ps_runtime p) data signer)
      | Execute task \<Rightarrow>
          bind_proc (catch_err_proc (execute_task_with_estimator_proc p md signer task)) (\<lambda>r.
          case r of
            Inr _ \<Rightarrow> Done (Inr ())
          | Inl err \<Rightarrow>
              bind_proc (on_world (failure_event_proc p md (ti_id item) (gm_source_chain (et_message task))
                           (gm_message_id (et_message task)) err)) (\<lambda>event.
              local_proc (publish [event])))
      | Refund task \<Rightarrow> on_world (refund_task_proc p task)
      | Verify \<Rightarrow> Done (Inr ())
      | ConstructProof \<Rightarrow> Done (Inr ()))"

section \<open>Run alone\<close>

primrec run_state :: "('f, 's, 'a) proc \<Rightarrow> ('f, 's, 'a) io" where
  "run_state (Done r) = (\<lambda>s. (r, s))"
| "run_state (Ask k) = (\<lambda>s. case map_prod id (map_prod run_state id) (k s) of (qs, go, s') \<Rightarrow> go s')"

declare run_state.simps(1) [simp del]

lemma run_state_on_world [simp]: "run_state (on_world p) = run_proc p"
proof
  fix s
  show "run_state (on_world p) s = run_proc p s"
  proof (induction p arbitrary: s rule: proc_induct)
    case (Done r)
    then show ?case by (simp add: run_state.simps(1) run_proc.simps(1))
  next
    case (Ask k)
    obtain qs p e where k: "k (env s) = (qs, p, e)" by (metis prod_cases3)
    with Ask.IH [OF k] show ?case by simp
  qed
qed

lemma run_state_local [simp]: "run_state (local_proc m) = m"
  by (rule ext) (simp add: local_proc_def run_state.simps(1) split: prod.split)

lemma run_state_then: "run_state (then_proc p g) s = (case run_state p s of (r, s') \<Rightarrow> run_state (g r) s')"
proof (induction p arbitrary: s rule: proc_induct)
  case (Done r)
  then show ?case by (simp add: run_state.simps(1))
next
  case (Ask k)
  obtain qs q s1 where "k s = (qs, q, s1)" by (metis prod_cases3)
  with Ask.IH show ?case by simp
qed

lemma run_state_bind [simp]: "run_state (bind_proc p g) = bindE (run_state p) (\<lambda>x. run_state (g x))"
  by (rule ext) (auto simp: bind_proc_def run_state_then bindE_def run_state.simps(1) split: prod.splits sum.splits)

lemma run_state_result [simp]: "run_state (Done (Inl f)) = failE f" "run_state (Done (Inr x)) = retE x"
  by (simp_all add: fun_eq_iff run_state.simps(1))

lemma run_state_map [simp]: "run_state (map_proc h p) = bindE (run_state p) (\<lambda>x. retE (h x))"
  by (simp add: map_proc_def)

lemma run_state_lift: "run_state (Done r) = liftE r"
  by (cases r) simp_all

lemma run_state_catch [simp]: "run_state (catch_err_proc p) = catch_errE (run_state p)"
  by (rule ext) (auto simp: catch_err_proc_def run_state_then catch_errE_def split: prod.split sum.split fault.split)

lemma run_catch [simp]: "run_proc (catch_err_proc p) = catch_errE (run_proc p)"
  by (rule ext) (auto simp: catch_err_proc_def run_then catch_errE_def run_simps split: prod.split sum.split fault.split)

lemma run_fold [simp]: "run_proc (fold_proc f xs a) = foldE (\<lambda>x a. run_proc (f x a)) xs a"
  by (induction f xs a rule: fold_proc.induct) (simp_all add: run_simps)

lemma run_rpc [simp]: "run_proc (rpc_proc q f) = rpc q f" "run_proc (eyre_rpc_proc m q f) = eyre_rpc m q f"
  by (simp_all add: rpc_proc_def rpc_def eyre_rpc_proc_def eyre_rpc_def)

lemma run_unit_price_of [simp]:
  "run_proc (calculate_compute_unit_price_proc nd accounts) = calculate_compute_unit_price nd accounts"
  by (simp add: calculate_compute_unit_price_proc_def calculate_compute_unit_price_def run_simps)

lemma run_add_stage [simp]: "run_proc (add_stage_proc nd m fee) = add_stage nd m fee"
  by (simp add: add_stage_proc_def add_stage_def run_simps)

lemma run_calculate_cost [simp]: "run_proc (calculate_cost_proc nd bd) = calculate_cost nd bd"
  by (simp add: calculate_cost_proc_def calculate_cost_def)

lemma run_execute_and_get_cost [simp]:
  "run_proc (execute_and_get_cost_proc sdk sn nd kp ixs) = execute_and_get_cost sdk sn nd kp ixs"
  by (simp add: execute_and_get_cost_proc_def execute_and_get_cost_def build_compute_unit_price_instruction_def
      Let_def run_result opt_ser.case_distrib [where h = run_proc] cong: opt_ser.case_cong)

lemma run_build_execute [simp]:
  "run_proc (build_execute_instruction_proc libs nd signer m payload destination) =
   build_execute_instruction libs nd signer m payload destination"
  by (simp add: build_execute_instruction_proc_def build_execute_instruction_def run_simps)

lemma run_estimate_write [simp]:
  "run_proc (estimate_write_proc sdk libs sn nd kp cmd w acc) = estimate_write sdk libs sn nd kp cmd w acc"
  by (cases w; cases acc) (simp add: estimate_write_proc_def estimate_write_def case_prod_unfold)

lemma run_estimate [simp]:
  "run_proc (estimate_total_execute_cost_proc sdk libs sn nd kp m payload destination) =
   estimate_total_execute_cost sdk libs sn nd kp m payload destination"
  by (simp add: estimate_total_execute_cost_proc_def estimate_total_execute_cost_def run_simps case_prod_unfold
      cong: if_cong)

lemma run_ensure [simp]:
  "run_state (ensure_enough_gas_proc sdk libs sn nd kp m payload destination incoming available) =
   ensure_enough_gas sdk libs sn nd kp m payload destination incoming available"
  by (simp add: ensure_enough_gas_proc_def ensure_enough_gas_def case_prod_unfold if_distrib [where f = run_state]
      option.case_distrib [where h = run_proc] cong: option.case_cong if_cong)

lemma run_fetch [simp]: "run_proc (fetch_transaction_proc sdk rt nd c sig) = fetch_transaction sdk rt nd c sig"
  by (simp add: fetch_transaction_proc_def fetch_transaction_def run_done)

lemma fetch_waits: "result_of (fetch_transaction_proc sdk rt nd c sig) = None"
  by (simp add: fetch_transaction_proc_def rpc_proc_def bind_proc_def map_fault_proc_def call_proc_def)

lemma run_fetch_signatures [simp]:
  "run_proc (fetch_signatures_from_proc fuel sdk nd c a before acc) = fetch_signatures_from fuel sdk nd c a before acc"
proof (induction fuel arbitrary: before acc)
  case (Suc n)
  show ?case
    by (simp add: run_simps Suc.IH option.case_distrib [where h = run_proc] cong: if_cong option.case_cong)
qed (simp add: run_simps)

lemma run_fetch_group:
  assumes in_turn: "\<And>e. rt_pick rt e = 0"
  shows "run_proc (group_proc (rt_pick rt) (map (fetch_transaction_proc sdk rt nd c) sigs)) =
     try_unordered (pick rt) (fetch_transaction sdk rt nd c) sigs"
  by (rule ext) (simp add: run_group [OF in_turn fetch_waits] pick_def [abs_def])

lemma run_costs:
  assumes in_turn: "\<And>e. rt_pick rt e = 0"
  shows "run_proc (cost_of_signature_verification_proc fuel sdk codec rt nd c session gateway) =
      cost_of_signature_verification fuel sdk codec rt nd c session gateway"
    and "run_proc (cost_of_payload_uploading_proc fuel sdk codec rt nd c payload_pda gateway) =
      cost_of_payload_uploading fuel sdk codec rt nd c payload_pda gateway"
  by (simp_all add: cost_of_signature_verification_proc_def cost_of_signature_verification_def
      cost_of_payload_uploading_proc_def cost_of_payload_uploading_def fetch_signatures_def run_fetch_group [OF in_turn])

lemma run_add_gas:
  assumes in_turn: "\<And>e. rt_pick rt e = 0"
  shows "run_proc (add_gas_proc fuel sdk codec rt nd c gateway ix tot) = add_gas fuel sdk codec rt nd c gateway ix tot"
  by (cases ix)
    (auto simp: add_gas_proc_def add_gas_def run_costs [OF in_turn] run_simps
      split: option.split gateway_ix.split)

lemma run_total_gas:
  assumes in_turn: "\<And>e. rt_pick rt e = 0"
  shows "run_proc (compute_total_gas_proc fuel sdk codec rt nd c gateway tx) = compute_total_gas fuel sdk codec rt nd c gateway tx"
  by (simp add: compute_total_gas_proc_def compute_total_gas_def run_add_gas [OF in_turn])

lemma new_steps_simps [simp]:
  "ps_config (new_steps cfg nd sn rt sdk libs codec fuel) = cfg"
  "ps_node (new_steps cfg nd sn rt sdk libs codec fuel) = main_client nd"
  "ps_runtime (new_steps cfg nd sn rt sdk libs codec fuel) = rt"
  "ps_sdk (new_steps cfg nd sn rt sdk libs codec fuel) = sdk"
  "ps_libs (new_steps cfg nd sn rt sdk libs codec fuel) = libs"
  "ps_codec (new_steps cfg nd sn rt sdk libs codec fuel) = codec"
  "ps_fuel (new_steps cfg nd sn rt sdk libs codec fuel) = fuel"
  "ps_send (new_steps cfg nd sn rt sdk libs codec fuel) = send_transaction_proc sdk rt (main_client nd) (gc_keypair cfg)"
  "ps_ensure (new_steps cfg nd sn rt sdk libs codec fuel) =
     ensure_enough_gas_proc sdk libs (estimator_client sn) (main_client nd) (gc_keypair cfg)"
  by (simp_all add: new_steps_def)

lemma run_already_executed [simp]:
  "run_proc (incoming_message_already_executed_proc libs nd a) = incoming_message_already_executed libs nd a"
  by (simp add: incoming_message_already_executed_proc_def incoming_message_already_executed_def)

lemma run_destination_ix:
  "run_proc (destination_ix_proc libs (main_client nd) destination signer incoming payload_pda m payload) =
   destination_ix (new_pusher cfg name nd sn rt sdk libs codec fuel) destination signer incoming payload_pda m payload"
  by (simp add: destination_ix_proc_def destination_ix_def Let_def run_simps run_done)

lemma run_send_to_destination:
  assumes in_turn: "\<And>e. rt_pick rt e = 0"
  shows "run_proc (send_to_destination_program_proc (new_steps cfg nd sn rt sdk libs codec fuel)
       destination signer incoming payload_pda m payload) =
     send_to_destination_program (new_pusher cfg name nd sn rt sdk libs codec fuel)
       destination signer incoming payload_pda m payload"
  by (simp add: send_to_destination_program_proc_def send_to_destination_program_def Let_def
      run_destination_ix [of _ _ _ _ _ _ _ _ cfg name sn rt sdk codec fuel] run_send_transaction [OF in_turn])

lemma run_state_option [simp]: "run_state (option_proc f r) = ok_or f r"
  by (simp add: option_proc_def ok_or_def split: option.split)

lemma run_execute_task:
  assumes in_turn: "\<And>e. rt_pick rt e = 0"
  shows "run_state (execute_task_with_estimator_proc (new_steps cfg nd sn rt sdk libs codec fuel) md signer task) =
     execute_task_with_estimator (new_pusher cfg name nd sn rt sdk libs codec fuel) md signer task"
  by (simp add: execute_task_with_estimator_proc_def execute_task_with_estimator_def Let_def run_state_lift
      run_upload [OF in_turn] run_send_to_destination [OF in_turn, where name = name]
      if_distrib [where f = run_state] cong: if_cong)

lemma run_refund:
  assumes in_turn: "\<And>e. rt_pick rt e = 0"
  shows "run_proc (refund_task_proc (new_steps cfg nd sn rt sdk libs codec fuel) task) =
     refund_task (new_pusher cfg name nd sn rt sdk libs codec fuel) task"
  by (simp add: refund_task_proc_def refund_task_def run_simps run_send_transaction [OF in_turn] cong: if_cong)

lemma run_failure_event:
  assumes in_turn: "\<And>e. rt_pick rt e = 0"
  shows "run_proc (failure_event_proc (new_steps cfg nd sn rt sdk libs codec fuel) md i source_chain message_id err) =
     failure_event (new_pusher cfg name nd sn rt sdk libs codec fuel) md i source_chain message_id err"
  by (auto simp: failure_event_proc_def failure_event_def Let_def run_total_gas [OF in_turn] run_costs [OF in_turn]
      run_simps split: option.split cb_error.split)

lemma run_process_task:
  assumes in_turn: "\<And>e. rt_pick rt e = 0"
  shows "run_state (process_task_proc (new_steps cfg nd sn rt sdk libs codec fuel) md item) =
     process_task (new_pusher cfg name nd sn rt sdk libs codec fuel) md item"
  by (simp add: process_task_proc_def process_task_def Let_def
      run_gateway_task [OF in_turn, where name = name and sn = sn and codec = codec and fuel = fuel]
      run_execute_task [OF in_turn, where name = name] run_refund [OF in_turn, where name = name]
      run_failure_event [OF in_turn, where name = name] sum.case_distrib [where h = run_state]
      split: amp_task.split cong: sum.case_cong)

section \<open>The requests of a process\<close>

text \<open>Whatever its company, a process issues only requests that satisfy a predicate.\<close>

definition asks :: "(request \<Rightarrow> bool) \<Rightarrow> ('f, 'w, 'a) proc \<Rightarrow> bool" where
  "asks P p \<longleftrightarrow> (\<forall>qs z. open_run p qs z \<longrightarrow> list_all P qs)"

named_theorems asks_rules \<open>which requests a process may issue\<close>

lemma asksI: "(\<And>qs z. open_run p qs z \<Longrightarrow> list_all P qs) \<Longrightarrow> asks P p"
  by (simp add: asks_def)

lemma asksD: "asks P p \<Longrightarrow> open_run p qs z \<Longrightarrow> list_all P qs"
  unfolding asks_def by blast

lemma asks_mono: "asks P p \<Longrightarrow> (\<And>q. P q \<Longrightarrow> Q q) \<Longrightarrow> asks Q p"
  by (auto simp: asks_def list_all_iff)

lemma asks_done [asks_rules]: "asks P (Done r)"
  by (rule asksI) simp

lemma asks_then [asks_rules]:
  assumes "asks P p" and "\<And>r. asks P (g r)"
  shows "asks P (then_proc p g)"
proof (rule asksI)
  fix qs z
  assume "open_run (then_proc p g) qs z"
  then show "list_all P qs"
    by (cases rule: open_thenE) (use assms in \<open>auto dest: asksD\<close>)
qed

lemma asks_bind [asks_rules]: "asks P p \<Longrightarrow> (\<And>x. asks P (g x)) \<Longrightarrow> asks P (bind_proc p g)"
  unfolding bind_proc_def by (rule asks_then) (auto intro: asks_done split: sum.split)

lemma asks_map [asks_rules]: "asks P p \<Longrightarrow> asks P (map_proc h p)"
  unfolding map_proc_def by (intro asks_bind asks_done)

lemma asks_map_fault [asks_rules]: "asks P p \<Longrightarrow> asks P (map_fault_proc h p)"
  unfolding map_fault_proc_def by (intro asks_then asks_done)

lemma asks_call [asks_rules]: "P q \<Longrightarrow> asks P (call_proc q f)"
  by (rule asksI) (erule open_callE; simp)

lemma asks_local [asks_rules]: "asks P (local_proc m)"
  unfolding local_proc_def by (rule asksI) (erule open_askE; auto split: prod.splits)

lemma asks_lifted [asks_rules]: "asks P (option_proc f r)" "asks P (eyre_proc x)" "asks P (built_proc m y)"
  by (simp_all add: option_proc_def eyre_proc_def built_proc_def asks_done split: option.split sum.split)

lemma asks_if [asks_rules]: "(b \<Longrightarrow> asks P p) \<Longrightarrow> (\<not> b \<Longrightarrow> asks P q) \<Longrightarrow> asks P (if b then p else q)"
  by simp

lemma asks_option [asks_rules]:
  "asks P p \<Longrightarrow> (\<And>x. asks P (g x)) \<Longrightarrow> asks P (case r of None \<Rightarrow> p | Some x \<Rightarrow> g x)"
  by (cases r) simp_all

lemma asks_sum [asks_rules]:
  "(\<And>x. asks P (f x)) \<Longrightarrow> (\<And>x. asks P (g x)) \<Longrightarrow> asks P (case r of Inl x \<Rightarrow> f x | Inr x \<Rightarrow> g x)"
  by (cases r) simp_all

lemma asks_prod [asks_rules]: "(\<And>x y. asks P (g x y)) \<Longrightarrow> asks P (case r of (x, y) \<Rightarrow> g x y)"
  by (cases r) simp

lemma asks_opt_ser [asks_rules]:
  "(\<And>x. asks P (f x)) \<Longrightarrow> asks P p \<Longrightarrow> asks P q \<Longrightarrow> asks P (case r of SerSome x \<Rightarrow> f x | SerNone \<Rightarrow> p | SerSkip \<Rightarrow> q)"
  by (cases r) simp_all

lemma asks_cb_error [asks_rules]:
  "(\<And>r. asks P (f r)) \<Longrightarrow> (\<And>e sig. asks P (g e sig)) \<Longrightarrow> (\<And>e. asks P (h e)) \<Longrightarrow>
   asks P (case x of SimulationError r \<Rightarrow> f r | TransactionError e sig \<Rightarrow> g e sig | Generic e \<Rightarrow> h e)"
  by (cases x) simp_all

lemma asks_fold [asks_rules]: "(\<And>x a. asks P (f x a)) \<Longrightarrow> asks P (fold_proc f xs a)"
  by (induction f xs a rule: fold_proc.induct) (auto intro: asks_done asks_bind)

lemma asks_catch [asks_rules]: "asks P p \<Longrightarrow> asks P (catch_err_proc p)"
  unfolding catch_err_proc_def by (rule asks_then) (auto intro: asks_done split: sum.split fault.split)

lemma asks_rpc [asks_rules]: "P q \<Longrightarrow> asks P (rpc_proc q f)" "P q \<Longrightarrow> asks P (eyre_rpc_proc m q f)"
  unfolding rpc_proc_def eyre_rpc_proc_def by (intro asks_map_fault asks_call, assumption)+

lemma asks_group [asks_rules]:
  assumes "\<And>m. m \<in> set ms \<Longrightarrow> asks P m"
  shows "asks P (group_proc p ms)"
proof (rule asksI)
  fix qs z
  assume "open_run (group_proc p ms) qs z"
  from open_group [OF this] obtain ts where ts: "list_all2 (\<lambda>m (rs, m'). open_run m rs m') ms ts"
    and qs: "mset qs = mset (concat (map fst ts))" by (auto simp: company_def)
  have "list_all P rs" if "(rs, m') \<in> set ts" for rs m'
  proof -
    from that obtain i where i: "i < length ts" "ts ! i = (rs, m')" by (auto simp: in_set_conv_nth)
    with list_all2_nthD2 [OF ts i(1)] list_all2_lengthD [OF ts] have "open_run (ms ! i) rs m'" "ms ! i \<in> set ms" by auto
    with assms show ?thesis by (blast dest: asksD)
  qed
  then have "\<forall>q \<in> set (concat (map fst ts)). P q" by (fastforce simp: list_all_iff)
  with mset_eq_setD [OF qs] show "list_all P qs" by (simp add: list_all_iff)
qed

text \<open>Lifting changes neither the requests nor the result.\<close>

lemma open_on_world:
  assumes "open_run (on_world p) qs z"
  obtains p' where "open_run p qs p'" "z = on_world p'"
proof -
  have "open_run (on_world p) qs z \<Longrightarrow> \<exists>p'. open_run p qs p' \<and> z = on_world p'"
  proof (induction p arbitrary: qs rule: proc_induct)
    case (Ask k)
    from Ask.prems [unfolded on_world.simps] show ?case
    proof (cases rule: open_askE)
      case stays
      then show ?thesis by (intro exI [of _ "Ask k"]) (simp add: open_run.stay)
    next
      case (goes s as p s' bs)
      obtain rs q e where k: "k (env s) = (rs, q, e)" by (metis prod_cases3)
      with goes have "p = on_world q" "as = rs" by auto
      with Ask.IH [OF k] goes(3) obtain p' where "open_run q bs p'" "z = on_world p'" by blast
      with open_run.go [of k _ rs q e, OF k this(1)] goes(2) \<open>as = rs\<close> show ?thesis by blast
    qed
  qed auto
  with assms that show thesis by blast
qed

lemma on_world_Done [simp]: "on_world p = Done r \<longleftrightarrow> p = Done r" "Done r = on_world p \<longleftrightarrow> p = Done r"
  by (cases p; auto)+

lemma open_map_world:
  assumes "open_run (map_proc h (on_world p)) qs z"
  shows "\<exists>p'. open_run p qs p' \<and> (\<forall>x. z = Done (Inr x) \<longrightarrow> (\<exists>y. p' = Done (Inr y) \<and> x = h y))"
  using assms
proof (cases rule: open_mapE)
  case (during q)
  from during(1) obtain p' where "open_run p qs p'" by (rule open_on_world)
  with during(2) show ?thesis by auto
next
  case (ended r)
  from ended(1) have "open_run p qs (Done r)" by (rule open_on_world) simp
  with ended(2) show ?thesis by (cases r) auto
qed

lemma asks_on_world [asks_rules]: "asks P p \<Longrightarrow> asks P (on_world p)"
  by (rule asksI) (erule open_on_world, rule asksD)

lemma quiet_sends: "list_all (\<lambda>q. send_of k q = []) qs \<Longrightarrow> sends_of k qs = []"
  by (induction qs) simp_all

lemma asks_quiet: "asks (\<lambda>q. send_of k q = []) p \<Longrightarrow> open_run p qs z \<Longrightarrow> sends_of k qs = []"
  by (blast intro: quiet_sends dest: asksD)

lemma open_call_ok: "open_run (call_proc q f) qs (Done r) \<Longrightarrow> qs = [q] \<and> (\<exists>e e'. f e = (r, e'))"
  by (erule open_callE) (auto simp: call_proc_def)

lemma open_map_fault_ok: "open_run (map_fault_proc h p) qs (Done (Inr x)) \<Longrightarrow> open_run p qs (Done (Inr x))"
  by (erule open_map_faultE) (auto simp: map_sum_def split: sum.splits)

lemma open_rpc_ok: "open_run (rpc_proc q f) qs (Done (Inr x)) \<Longrightarrow> qs = [q] \<and> (\<exists>e e'. f e = (Inr x, e'))"
  unfolding rpc_proc_def by (rule open_call_ok [OF open_map_fault_ok])

lemma open_bind_ok:
  assumes "open_run (bind_proc p g) qs (Done (Inr y))"
  obtains as bs x where "qs = as @ bs" "open_run p as (Done (Inr x))" "open_run (g x) bs (Done (Inr y))"
  using assms by (cases rule: open_bindE) auto

lemma open_map_okE:
  assumes "open_run (map_proc h p) qs (Done (Inr y))"
  obtains x where "open_run p qs (Done (Inr x))" "y = h x"
  using assms
proof (cases rule: open_mapE)
  case (ended r)
  then show ?thesis by (cases r) (auto intro: that)
qed simp

lemma open_local_ok: "open_run (local_proc m) qs (Done (Inr x)) \<Longrightarrow> qs = [] \<and> (\<exists>s s'. m s = (Inr x, s'))"
  unfolding local_proc_def by (erule open_askE; auto split: prod.splits)

lemma open_already_executed:
  assumes "open_run (incoming_message_already_executed_proc libs nd a) qs (Done (Inr b))"
  shows "qs = [ReqAccount (node_tag nd) a] \<and>
    (\<exists>e e' raw. n_account_data nd a e = (Inr raw, e') \<and> read_incoming_message libs raw = Some b)"
  using assms unfolding incoming_message_already_executed_proc_def
  by (cases rule: open_bind_ok) (auto dest!: open_rpc_ok)

section \<open>Quiet parts of a task\<close>

lemma asks_unit_price [asks_rules]:
  "(\<And>ks. P (ReqFees (node_tag nd) ks)) \<Longrightarrow> asks P (calculate_compute_unit_price_proc nd accounts)"
  unfolding calculate_compute_unit_price_proc_def by (intro asks_rules)

lemma asks_calculate_cost [asks_rules]:
  "(\<And>ks. P (ReqFees (node_tag nd) ks)) \<Longrightarrow> asks P (calculate_cost_proc nd bd)"
  unfolding calculate_cost_proc_def add_stage_proc_def by (intro asks_rules)

lemma asks_execute_and_get_cost [asks_rules]:
  assumes "\<And>q. node_of q = node_tag sn \<Longrightarrow> P q" and "\<And>ks. P (ReqFees (node_tag nd) ks)"
  shows "asks P (execute_and_get_cost_proc sdk sn nd kp ixs)"
  unfolding execute_and_get_cost_proc_def Let_def by (intro asks_rules assms(2)) (simp_all add: assms(1))

lemma asks_estimate [asks_rules]:
  assumes "\<And>q. node_of q = node_tag sn \<Longrightarrow> P q" and "\<And>ks. P (ReqFees (node_tag nd) ks)"
  shows "asks P (estimate_total_execute_cost_proc sdk libs sn nd kp m payload destination)"
  unfolding estimate_total_execute_cost_proc_def estimate_write_proc_def build_execute_instruction_proc_def Let_def
  by (intro asks_rules assms(2)) (simp_all add: assms(1))

lemma asks_ensure:
  assumes "\<And>q. node_of q = node_tag sn \<Longrightarrow> P q" and "\<And>ks. P (ReqFees (node_tag nd) ks)"
  shows "asks P (ensure_enough_gas_proc sdk libs sn nd kp m payload destination incoming available)"
  unfolding ensure_enough_gas_proc_def by (intro asks_rules assms)

lemma asks_fetch [asks_rules]: "P (ReqTransaction (node_tag nd) sig) \<Longrightarrow> asks P (fetch_transaction_proc sdk rt nd c sig)"
  unfolding fetch_transaction_proc_def by (intro asks_rules)

lemma asks_fetch_signatures [asks_rules]:
  "(\<And>b. P (ReqSignatures (node_tag nd) a b None page_limit)) \<Longrightarrow> asks P (fetch_signatures_from_proc fuel sdk nd c a before acc)"
proof (induction fuel arbitrary: before acc)
  case (Suc n)
  show ?case unfolding fetch_signatures_from_proc.simps by (intro asks_rules Suc)
qed (simp add: asks_done)

lemma asks_costs [asks_rules]:
  assumes "\<And>sig. P (ReqTransaction (node_tag nd) sig)" and "\<And>a b. P (ReqSignatures (node_tag nd) a b None page_limit)"
  shows "asks P (cost_of_signature_verification_proc fuel sdk codec rt nd c session gateway)"
    and "asks P (cost_of_payload_uploading_proc fuel sdk codec rt nd c payload_pda gateway)"
  unfolding cost_of_signature_verification_proc_def cost_of_payload_uploading_proc_def
  by (intro asks_rules assms; auto intro!: asks_fetch assms)+

lemma asks_failure_event:
  assumes "\<And>sig. P (ReqTransaction (node_tag (ps_node p)) sig)"
    and "\<And>a b. P (ReqSignatures (node_tag (ps_node p)) a b None page_limit)"
  shows "asks P (failure_event_proc p md i source_chain message_id err)"
proof -
  have "asks P (add_gas_proc fuel sdk codec rt (ps_node p) c gateway ix tot)" for fuel sdk codec rt c gateway ix tot
    using assms by (cases ix) (auto simp: add_gas_proc_def split: option.split gateway_ix.split intro!: asks_rules)
  then show ?thesis unfolding failure_event_proc_def compute_total_gas_proc_def Let_def
    by (intro asks_rules assms)
qed

text \<open>What a task that passes the gas check has learnt: a cost that the available gas covers.\<close>

definition gas_covered ::
  "sdk \<Rightarrow> 'w gateway_libs \<Rightarrow> 'w node \<Rightarrow> 'w node \<Rightarrow> pubkey \<Rightarrow> gmp_message \<Rightarrow> bytes \<Rightarrow> pubkey \<Rightarrow> int
     \<Rightarrow> request list \<Rightarrow> bool" where
  "gas_covered sdk libs sn nd kp message payload destination available qs \<longleftrightarrow>
     (\<exists>cost bd. uint cost \<le> available \<and>
        (open_run (calculate_cost_proc nd bd) qs (Done (Inr cost)) \<or>
         open_run (estimate_total_execute_cost_proc sdk libs sn nd kp message payload destination) qs (Done (Inr (cost, bd)))))"

lemma open_ensure_ok:
  assumes "open_run (ensure_enough_gas_proc sdk libs sn nd kp m payload destination incoming available) qs (Done (Inr ()))"
  shows "gas_covered sdk libs sn nd kp m payload destination available qs"
  using assms unfolding ensure_enough_gas_proc_def
proof (cases rule: open_bind_ok)
  case (1 as bs cached)
  from open_local_ok [OF 1(2)] have "as = []" by blast
  from 1(3) show ?thesis
  proof (cases rule: open_bind_ok)
    case inner: (1 cs ds costs)
    obtain cost bd where costs: "costs = (cost, bd)" by fastforce
    have "ds = [] \<and> uint cost \<le> available"
    proof (cases "available < uint cost")
      case True
      with inner(3) show ?thesis by (auto simp: costs elim!: open_bind_ok)
    qed (use inner(3) costs in auto)
    moreover from inner(2) obtain p' where "open_run (case cached of
        None \<Rightarrow> estimate_total_execute_cost_proc sdk libs sn nd kp m payload destination
      | Some bd \<Rightarrow> map_proc (\<lambda>cost. (cost, bd)) (calculate_cost_proc nd bd)) cs (Done (Inr costs))"
      by (cases rule: open_on_world) auto
    ultimately show ?thesis using 1(1) inner(1) \<open>as = []\<close> costs
      by (auto simp: gas_covered_def split: option.splits elim!: open_map_okE) 
  qed
qed

section \<open>Executing a message in company\<close>

text \<open>The request and the answer with which a task starts.\<close>

definition read_as :: "bool \<Rightarrow> 'w gateway_libs \<Rightarrow> 'w node \<Rightarrow> execute_task \<Rightarrow> request list \<Rightarrow> bool" where
  "read_as executed libs nd task qs \<longleftrightarrow>
     qs = [ReqAccount (node_tag nd) (message_incoming libs task)] \<and> recorded_as executed libs nd task"

lemma read_as_quiet: "read_as b libs nd task qs \<Longrightarrow> sends_of k qs = []"
  by (auto simp: read_as_def)

lemma asks_already_executed [asks_rules]:
  "P (ReqAccount (node_tag nd) a) \<Longrightarrow> asks P (incoming_message_already_executed_proc libs nd a)"
  unfolding incoming_message_already_executed_proc_def by (intro asks_rules)

lemma asks_destination_ix [asks_rules]:
  "P (ReqExternal (node_tag nd)) \<Longrightarrow> asks P (destination_ix_proc libs nd destination signer incoming payload_pda m payload)"
  unfolding destination_ix_proc_def by (intro asks_rules)

text \<open>What is left of a task once its checks have passed.\<close>

definition upload_and_call ::
  "('w, ('w, 'z) world_scheme) pusher_steps \<Rightarrow> pubkey \<Rightarrow> execute_task \<Rightarrow> gmp_message \<Rightarrow> pubkey
     \<Rightarrow> (fault, ('w, 'z) world_scheme, unit) proc" where
  "upload_and_call p signer task message destination =
     bind_proc (on_world (upload_proc (ps_send p) (ps_libs p) (ps_runtime p) (gc_keypair (ps_config p)) message (et_payload task)))
       (\<lambda>payload_pda. map_proc (\<lambda>_. ())
         (on_world (send_to_destination_program_proc p destination signer (message_incoming (ps_libs p) task)
            payload_pda message (et_payload task))))"

lemma compose_message_simps [simp]:
  "gmp_chain (compose_message md m) = gm_source_chain m"
  "gmp_id (compose_message md m) = gm_message_id m"
  "gmp_destination_address (compose_message md m) = gm_destination_address m"
  by (simp_all add: compose_message_def)

lemma execute_proc_eq:
  "execute_task_with_estimator_proc p md signer task =
     bind_proc (on_world (incoming_message_already_executed_proc (ps_libs p) (ps_node p) (message_incoming (ps_libs p) task)))
       (\<lambda>executed. if executed then Done (Inr ())
         else
           bind_proc (option_proc (Err (Ctx ''Failed to parse destination address'' (Msg ''invalid pubkey'')))
                        (parse_pubkey (ps_sdk p) (gm_destination_address (et_message task)))) (\<lambda>destination.
           bind_proc (Done (verify_destination (ps_libs p) destination (gc_allow_third_party (ps_config p)))) (\<lambda>_.
           bind_proc (ps_ensure p (compose_message md (et_message task)) (et_payload task) destination
               (message_incoming (ps_libs p) task) (tk_amount (et_available_gas task))) (\<lambda>_.
           upload_and_call p signer task (compose_message md (et_message task)) destination))))"
  by (simp add: execute_task_with_estimator_proc_def Let_def upload_and_call_def message_incoming_def cong: if_cong)

locale open_pusher = stepping: open_sender "ps_send p" "node_tag (ps_node p)" carrying
  for p :: "('w, ('w, 'z) processor_world_scheme) pusher_steps"
    and carrying :: "instruction list \<Rightarrow> transaction \<Rightarrow> bool" +
  assumes ensure_asks: "asks (\<lambda>q. send_of (node_tag (ps_node p)) q = []) (ps_ensure p m payload destination incoming available)"
begin

lemma execute_open:
  assumes "open_run (execute_task_with_estimator_proc p md signer task) qs z"
  shows "sends_of (node_tag (ps_node p)) qs = [] \<and>
      (z = Done (Inr ()) \<longrightarrow> read_as True (ps_libs p) (ps_node p) task qs)
    \<or> (\<exists>destination as bs cs. qs = as @ bs @ cs \<and> read_as False (ps_libs p) (ps_node p) task as \<and>
         allowed_destination (ps_libs p) (ps_sdk p) (ps_config p) task destination \<and>
         open_run (ps_ensure p (compose_message md (et_message task)) (et_payload task) destination
           (message_incoming (ps_libs p) task) (tk_amount (et_available_gas task))) bs (Done (Inr ())) \<and>
         sends_of (node_tag (ps_node p)) bs = [] \<and>
         open_run (upload_and_call p signer task (compose_message md (et_message task)) destination) cs z)"
    (is "?quiet qs z \<or> _")
  using assms unfolding execute_proc_eq
proof (cases rule: open_bindE)
  case (during p')
  moreover have "sends_of (node_tag (ps_node p)) qs = []"
    by (rule asks_quiet [OF _ during(1)]) (intro asks_rules, simp)
  ultimately show ?thesis by auto
next
  case (failed f)
  moreover have "sends_of (node_tag (ps_node p)) qs = []"
    by (rule asks_quiet [OF _ failed(1)]) (intro asks_rules, simp)
  ultimately show ?thesis by simp
next
  case (after as qs1 executed)
  from after(2) have "open_run (incoming_message_already_executed_proc (ps_libs p) (ps_node p)
      (message_incoming (ps_libs p) task)) as (Done (Inr executed))"
    by (cases rule: open_on_world) simp
  from open_already_executed [OF this] have read: "read_as executed (ps_libs p) (ps_node p) task as"
    by (auto simp: read_as_def recorded_as_def)
  note as = read_as_quiet [OF read, of "node_tag (ps_node p)"]
  show ?thesis
  proof (cases executed)
    case True
    with after read as show ?thesis by auto
  next
    case False
    with after(3) obtain rest where rest: "open_run (bind_proc
        (option_proc (Err (Ctx ''Failed to parse destination address'' (Msg ''invalid pubkey'')))
           (parse_pubkey (ps_sdk p) (gm_destination_address (et_message task)))) rest) qs1 z"
      and rest_eq: "rest = (\<lambda>destination.
           bind_proc (Done (verify_destination (ps_libs p) destination (gc_allow_third_party (ps_config p)))) (\<lambda>_.
           bind_proc (ps_ensure p (compose_message md (et_message task)) (et_payload task) destination
               (message_incoming (ps_libs p) task) (tk_amount (et_available_gas task))) (\<lambda>_.
           upload_and_call p signer task (compose_message md (et_message task)) destination)))" by simp
    from rest show ?thesis
    proof (cases rule: open_bindE)
      case parsed: (after bs0 qs2 destination)
      then have bs0: "bs0 = []" and parse: "parse_pubkey (ps_sdk p) (gm_destination_address (et_message task)) = Some destination"
        by auto
      from parsed(3) [unfolded rest_eq] show ?thesis
      proof (cases rule: open_bindE)
        case verified: (after bs1 qs3 u)
        then have bs1: "bs1 = []" and allowed: "allowed_destination (ps_libs p) (ps_sdk p) (ps_config p) task destination"
          using parse by (auto simp: allowed_destination_def simp flip: verify_destination_ok_iff)
        from verified(3) show ?thesis
        proof (cases rule: open_bindE)
          case (during p')
          with asks_quiet [OF ensure_asks during(1)] after(1) parsed(1) verified(1) bs0 bs1 as show ?thesis by auto
        next
          case (failed f)
          with asks_quiet [OF ensure_asks failed(1)] after(1) parsed(1) verified(1) bs0 bs1 as show ?thesis by auto
        next
          case checked: (after bs cs v)
          from asks_quiet [OF ensure_asks checked(2)] checked after(1) parsed(1) verified(1) bs0 bs1 read allowed False
          show ?thesis by auto
        qed
      qed (use after(1) parsed(1) bs0 as in auto)
    qed (use after(1) as in auto)
  qed
qed

end

lemma each_once_all:
  assumes "each_once carrying ixs txs" and "\<And>ix. ix \<in> set ixs \<Longrightarrow> allowed [ix]"
  shows "list_all (\<lambda>t. \<exists>ixs. allowed ixs \<and> carrying ixs t) txs"
proof -
  from assms(1) obtain tss where tss: "list_all2 (\<lambda>ix. at_most_one carrying [ix]) ixs tss"
    and txs: "mset txs = mset (concat tss)" by (auto simp: each_once_def)
  from assms(2) have "\<forall>ix \<in> set ixs. allowed [ix]" by blast
  with tss have "\<forall>t \<in> set (concat tss). \<exists>ixs. allowed ixs \<and> carrying ixs t"
    by (induction rule: list_all2_induct) (auto simp: at_most_one_def)
  with mset_eq_setD [OF txs] show ?thesis by (simp add: list_all_iff)
qed

lemma upload_stage_ixs:
  "ix \<in> set (init_ixs libs kp cmd payload) \<Longrightarrow> upload_ix libs kp cmd [ix]"
  "ix \<in> set (chunk_ixs libs kp cmd payload) \<Longrightarrow> upload_ix libs kp cmd [ix]"
  "ix \<in> set (commit_ixs libs kp cmd) \<Longrightarrow> upload_ix libs kp cmd [ix]"
proof -
  show "ix \<in> set (init_ixs libs kp cmd payload) \<Longrightarrow> upload_ix libs kp cmd [ix]"
    by (auto simp: init_ixs_def upload_ix_def split: option.splits sum.splits)
  show "ix \<in> set (chunk_ixs libs kp cmd payload) \<Longrightarrow> upload_ix libs kp cmd [ix]"
    by (auto simp: chunk_ixs_def split: sum.splits intro: write_ixs_upload [OF sym])
  show "ix \<in> set (commit_ixs libs kp cmd) \<Longrightarrow> upload_ix libs kp cmd [ix]"
    by (auto simp: commit_ixs_def upload_ix_def split: sum.splits)
qed

lemma open_destination_own_key:
  assumes "open_run (destination_ix_proc libs nd destination signer incoming payload_pda m payload) qs (Done (Inr ix))"
    and "destination \<noteq> its_id libs" and "destination \<noteq> governance_id libs"
  shows "validate_relayer_not_in_payload libs payload signer = Inr ()"
  using assms by (auto simp: destination_ix_proc_def elim!: open_bind_ok)

context open_sender
begin

lemma upload_open_only:
  assumes "open_run (upload_proc send libs rt kp message payload) qs z"
  shows "list_all (\<lambda>t. \<exists>ixs. upload_ix libs kp (message_to_command_id libs message) ixs \<and> carrying ixs t) (sends_of tag qs)"
proof -
  from upload_open [OF assms refl] obtain as bs cs where qs: "qs = as @ bs @ cs"
    and once: "each_once carrying (init_ixs libs kp (message_to_command_id libs message) payload) (sends_of tag as)"
      "each_once carrying (chunk_ixs libs kp (message_to_command_id libs message) payload) (sends_of tag bs)"
      "each_once carrying (commit_ixs libs kp (message_to_command_id libs message)) (sends_of tag cs)" by blast
  note all = each_once_all [where allowed = "upload_ix libs kp (message_to_command_id libs message)"]
  from all [OF once(1) upload_stage_ixs(1)] all [OF once(2) upload_stage_ixs(2)] all [OF once(3) upload_stage_ixs(3)]
  show ?thesis by (simp add: qs)
qed

end

context open_pusher
begin

lemma call_open:
  assumes "open_run (send_to_destination_program_proc p destination signer incoming payload_pda m payload) qs z"
  shows "sends_of (node_tag (ps_node p)) qs = [] \<and> (\<forall>sig. z \<noteq> Done (Inr sig))
    \<or> (\<exists>ix ixc as bs tx. qs = as @ bs \<and>
         open_run (destination_ix_proc (ps_libs p) (ps_node p) destination signer incoming payload_pda m payload) as (Done (Inr ix)) \<and>
         close_message_payload (ps_libs p) (gateway_root (ps_libs p)) (gc_keypair (ps_config p))
           (message_to_command_id (ps_libs p) m) = Inr ixc \<and>
         sends_of (node_tag (ps_node p)) as = [] \<and> sends_of (node_tag (ps_node p)) bs = [tx] \<and> carrying [ix, ixc] tx)"
proof -
  have quiet: "sends_of (node_tag (ps_node p)) as = []"
    if "open_run (destination_ix_proc (ps_libs p) (ps_node p) destination signer incoming payload_pda m payload) as y" for as y
    by (rule asks_quiet [OF _ that]) (intro asks_rules, simp)
  from assms show ?thesis unfolding send_to_destination_program_proc_def Let_def
  proof (cases rule: open_bindE)
    case (after as qs1 ix)
    from after(3) show ?thesis
    proof (cases rule: open_bindE)
      case built: (after bs0 bs ixc)
      then have close: "bs0 = []" "close_message_payload (ps_libs p) (gateway_root (ps_libs p)) (gc_keypair (ps_config p))
           (message_to_command_id (ps_libs p) m) = Inr ixc" by auto
      from stepping.open_at_most_one [OF built(3)] show ?thesis
      proof
        assume none: "sends_of (node_tag (ps_node p)) bs = []"
        moreover have "z \<noteq> Done (Inr sig)" for sig
          using stepping.open_ok [of "[ix, ixc]" bs sig] built(3) none by auto
        ultimately show ?thesis using after(1) built(1) close(1) quiet [OF after(2)] by simp
      next
        assume "\<exists>tx. sends_of (node_tag (ps_node p)) bs = [tx] \<and> carrying [ix, ixc] tx"
        then show ?thesis using after(1,2) built(1) close quiet [OF after(2)] by auto
      qed
    qed (use after(1) quiet [OF after(2)] in auto)
  qed (use quiet in auto)
qed

lemma own_key_open:
  assumes run: "open_run (execute_task_with_estimator_proc p md signer task) qs z"
    and key: "validate_relayer_not_in_payload (ps_libs p) (et_payload task) signer \<noteq> Inr ()"
    and destination: "\<And>d. parse_pubkey (ps_sdk p) (gm_destination_address (et_message task)) = Some d \<Longrightarrow>
      d \<noteq> its_id (ps_libs p) \<and> d \<noteq> governance_id (ps_libs p)"
  shows "list_all (\<lambda>t. \<exists>ixs. upload_ix (ps_libs p) (gc_keypair (ps_config p))
      (message_to_command_id (ps_libs p) (compose_message md (et_message task))) ixs \<and> carrying ixs t)
      (sends_of (node_tag (ps_node p)) qs)"
  using execute_open [OF run]
proof (elim disjE exE conjE)
  fix d as bs cs
  assume qs: "qs = as @ bs @ cs" and as: "read_as False (ps_libs p) (ps_node p) task as"
    and bs: "sends_of (node_tag (ps_node p)) bs = []"
    and allowed: "allowed_destination (ps_libs p) (ps_sdk p) (ps_config p) task d"
    and "open_run (upload_and_call p signer task (compose_message md (et_message task)) d) cs z"
  note run = this(5) [unfolded upload_and_call_def]
  let ?m = "compose_message md (et_message task)"
  have up: "list_all (\<lambda>t. \<exists>ixs. upload_ix (ps_libs p) (gc_keypair (ps_config p)) (message_to_command_id (ps_libs p) ?m) ixs
      \<and> carrying ixs t) (sends_of (node_tag (ps_node p)) us)"
    if "open_run (on_world (upload_proc (ps_send p) (ps_libs p) (ps_runtime p) (gc_keypair (ps_config p)) ?m (et_payload task))) us y"
    for us y
    using that by (rule open_on_world) (rule stepping.upload_open_only)
  have "sends_of (node_tag (ps_node p)) ds = []"
    if "open_run (map_proc (\<lambda>_. ()) (on_world (send_to_destination_program_proc p d signer (message_incoming (ps_libs p) task)
          pda ?m (et_payload task)))) ds z" for ds pda
  proof -
    from open_map_world [OF that] obtain y where
      y: "open_run (send_to_destination_program_proc p d signer (message_incoming (ps_libs p) task)
          pda ?m (et_payload task)) ds y" by (elim exE conjE)
    from allowed destination have "d \<noteq> its_id (ps_libs p)" "d \<noteq> governance_id (ps_libs p)"
      by (auto simp: allowed_destination_def)
    with call_open [OF y] key show ?thesis by (auto dest: open_destination_own_key)
  qed
  moreover from run have "\<exists>us ds. cs = us @ ds \<and>
      list_all (\<lambda>t. \<exists>ixs. upload_ix (ps_libs p) (gc_keypair (ps_config p)) (message_to_command_id (ps_libs p) ?m) ixs
        \<and> carrying ixs t) (sends_of (node_tag (ps_node p)) us) \<and>
      (ds = [] \<or> (\<exists>pda. open_run (map_proc (\<lambda>_. ()) (on_world (send_to_destination_program_proc p d signer
          (message_incoming (ps_libs p) task) pda ?m (et_payload task)))) ds z))"
  proof (cases rule: open_bindE)
    case (during p')
    with up show ?thesis by (intro exI [of _ cs] exI [of _ "[]"]) simp
  next
    case (failed f)
    with up show ?thesis by (intro exI [of _ cs] exI [of _ "[]"]) simp
  next
    case (after us ds pda)
    with up [OF after(2)] show ?thesis by blast
  qed
  ultimately show ?thesis using qs bs read_as_quiet [OF as] by fastforce
qed simp

lemma executed_open:
  assumes run: "open_run (execute_task_with_estimator_proc p md signer task) qs (Done (Inr ()))"
    and m: "m = compose_message md (et_message task)"
  shows "read_as True (ps_libs p) (ps_node p) task qs
    \<or> (\<exists>destination as bs us ds fs payload_pda ix ixc tx. qs = as @ bs @ us @ ds @ fs \<and>
         read_as False (ps_libs p) (ps_node p) task as \<and>
         allowed_destination (ps_libs p) (ps_sdk p) (ps_config p) task destination \<and>
         open_run (ps_ensure p m (et_payload task) destination
           (message_incoming (ps_libs p) task) (tk_amount (et_available_gas task))) bs (Done (Inr ())) \<and>
         sends_of (node_tag (ps_node p)) (as @ bs) = [] \<and>
         open_run (upload_proc (ps_send p) (ps_libs p) (ps_runtime p) (gc_keypair (ps_config p)) m (et_payload task))
           us (Done (Inr payload_pda)) \<and>
         open_run (destination_ix_proc (ps_libs p) (ps_node p) destination signer (message_incoming (ps_libs p) task)
           payload_pda m (et_payload task)) ds (Done (Inr ix)) \<and>
         close_message_payload (ps_libs p) (gateway_root (ps_libs p)) (gc_keypair (ps_config p))
           (message_to_command_id (ps_libs p) m) = Inr ixc \<and>
         sends_of (node_tag (ps_node p)) (ds @ fs) = [tx] \<and> carrying [ix, ixc] tx)"
  using execute_open [OF run]
proof (elim disjE exE conjE)
  fix d as bs cs
  assume checks: "qs = as @ bs @ cs" "read_as False (ps_libs p) (ps_node p) task as"
      "allowed_destination (ps_libs p) (ps_sdk p) (ps_config p) task d"
      "open_run (ps_ensure p (compose_message md (et_message task)) (et_payload task) d
         (message_incoming (ps_libs p) task) (tk_amount (et_available_gas task))) bs (Done (Inr ()))"
      "sends_of (node_tag (ps_node p)) bs = []"
    and "open_run (upload_and_call p signer task (compose_message md (et_message task)) d) cs (Done (Inr ()))"
  from this(6) [unfolded upload_and_call_def, folded m] show ?thesis
  proof (cases rule: open_bind_ok)
    case (1 us es pda)
    from 1(2) have up: "open_run (upload_proc (ps_send p) (ps_libs p) (ps_runtime p) (gc_keypair (ps_config p)) m
        (et_payload task)) us (Done (Inr pda))" by (rule open_on_world) simp
    from open_map_world [OF 1(3)] obtain sig where
      "open_run (send_to_destination_program_proc p d signer (message_incoming (ps_libs p) task) pda m (et_payload task))
         es (Done (Inr sig))" by auto
    from call_open [OF this] show ?thesis using checks up 1(1) read_as_quiet [OF checks(2), of "node_tag (ps_node p)"] m by fastforce
  qed
qed simp

end

lemma estimator_quiet:
  "asks (\<lambda>q. send_of MainNode q = [])
     (ensure_enough_gas_proc sdk libs (estimator_client sn) nd kp m payload destination incoming available)"
proof (rule asks_ensure)
  show "send_of MainNode q = []" if "node_of q = node_tag (estimator_client sn)" for q
    using that by (cases q) simp_all
qed simp

interpretation steps_open: open_pusher "new_steps cfg nd sn rt sdk libs codec fuel" "carries sdk (gc_keypair cfg)"
  for cfg nd sn rt sdk libs codec fuel
proof -
  have "open_sender (send_transaction_proc sdk rt (main_client nd) (gc_keypair cfg)) MainNode (carries sdk (gc_keypair cfg))"
    using es_open.open_sender_axioms [of sdk rt "main_client nd" "gc_keypair cfg"] by simp
  then show "open_pusher (new_steps cfg nd sn rt sdk libs codec fuel) (carries sdk (gc_keypair cfg))"
    by (simp add: open_pusher_def open_pusher_axioms_def estimator_quiet)
qed

section \<open>A concrete task\<close>

lemma run_state_open:
  "run_state p s = (r, s') \<Longrightarrow> \<exists>qs. open_run p qs (Done r)"
proof (induction p arbitrary: s rule: proc_induct)
  case (Done q)
  then show ?case by (intro exI [of _ "[]"]) (simp add: run_state.simps(1))
next
  case (Ask k)
  obtain qs p s1 where k: "k s = (qs, p, s1)" by (metis prod_cases3)
  with Ask.prems have "run_state p s1 = (r, s')" by simp
  from Ask.IH [OF k this] obtain rs where "open_run p rs (Done r)" by blast
  with open_run.go [of k _ qs p s1, OF k this] show ?case by blast
qed

abbreviation sample_steps :: "(nat, nat processor_world) pusher_steps" where
  "sample_steps \<equiv> new_steps sample_config (easy_node MainNode) (easy_node SimNode) in_turn_runtime decimal_sdk
     sample_gateway sample_codec 1"

lemma sample_alone:
  "run_state (execute_task_with_estimator_proc sample_steps md 5 task) =
   execute_task_with_estimator (new_pusher sample_config ''solana'' (easy_node MainNode) (easy_node SimNode)
     in_turn_runtime decimal_sdk sample_gateway sample_codec 1) md 5 task"
  by (rule run_execute_task [OF in_turn_pick])

lemma sample_in_company:
  "\<exists>qs. open_run (execute_task_with_estimator_proc sample_steps md 5 (sample_task ''15'' [1, 2, 3])) qs (Done (Inr ())) \<and>
     sends_of MainNode qs \<noteq> []"
proof -
  have "gas_cache processor_start i = None" for i by (simp add: processor_start_def)
  with sample_executes [where s = processor_start and md = md and payload = "[1, 2, 3]" and name = "''solana''"
      and rt = in_turn_runtime and codec = sample_codec and fuel = 1]
  obtain s' where "run_state (execute_task_with_estimator_proc sample_steps md 5 (sample_task ''15'' [1, 2, 3])) processor_start =
      (Inr (), s')"
    unfolding sample_alone by auto
  from run_state_open [OF this] obtain qs where
    qs: "open_run (execute_task_with_estimator_proc sample_steps md 5 (sample_task ''15'' [1, 2, 3])) qs (Done (Inr ()))" by blast
  moreover from steps_open.executed_open [OF qs refl] have "sends_of MainNode qs \<noteq> []"
    by (auto simp: read_as_def recorded_as_def)
  ultimately show ?thesis by blast
qed

section \<open>Properties\<close>









end
