(* ===== verification/TaskSteps.thy ===== *)
theory TaskSteps
  imports MessageSteps TaskLoop
begin

text \<open>
  The task loop of \<open>crates/solana-gateway-task-processor/src/component.rs\<close> with its futures at the
  granularity of their requests: the futures of \<open>FuturesOrdered\<close> advance one request at a time,
  in any interleaving, and the chain may change whenever the loop is not running. In
  \<open>TaskLoop\<close> a future runs in one go when it completes; where the runtime serves the futures of a
  set one after the other, every run there is a run here (\<open>loop_refines\<close>).

  Here the requests of each task are an open run of \<open>process_task_proc\<close> (\<open>tasks_in_company\<close>), so
  that what \<open>MessageSteps\<close> and \<open>ConcurrentSteps\<close> say of open runs holds of every task of the loop.
\<close>

section \<open>Definitions\<close>

type_synonym 's task_future = "(fault, 's, eyre + unit) proc"

definition task_future ::
  "('w, ('w, 'z) processor_world_scheme) pusher_steps \<Rightarrow> config_metadata \<Rightarrow> task_item
     \<Rightarrow> ('w, 'z) processor_world_scheme task_future" where
  "task_future p md task = catch_err_proc (process_task_proc p md task)"

text \<open>An entry of \<open>futures_ordered\<close>, numbered in the order of receipt: a future or its output.\<close>

datatype 's entry = Awaiting nat task_item "'s task_future" | Ready nat task_item "eyre + unit"

datatype step_event = Loop loop_event | Asked nat "request list"

datatype 's step_phase = Going "task_item source" nat "'s entry list" | Ceased fault

definition poll_tasks ::
  "('w, ('w, 'z) processor_world_scheme) pusher_steps \<Rightarrow> config_metadata \<Rightarrow> task_item source \<Rightarrow> nat
     \<Rightarrow> ('w, 'z) processor_world_scheme entry list
     \<Rightarrow> task_item list \<times> task_item source \<times> nat \<times> ('w, 'z) processor_world_scheme entry list" where
  "poll_tasks p md rx n queue =
     (case poll_source rx of
        (Item task, rx') \<Rightarrow> ([task], rx', Suc n, queue @ [Awaiting n task (task_future p md task)])
      | (_, rx') \<Rightarrow> ([], rx', n, queue))"

text \<open>The futures advance: one takes a step, or its output is taken.\<close>

inductive advance :: "'s entry list \<times> 's \<Rightarrow> step_event list \<Rightarrow> 's entry list \<times> 's \<Rightarrow> bool" where
  idle: "advance c [] c"
| asks: "i < length queue \<Longrightarrow> queue ! i = Awaiting j task (Ask k) \<Longrightarrow> k s = (qs, q, s1) \<Longrightarrow>
    advance (queue[i := Awaiting j task q], s1) evs c \<Longrightarrow>
    advance (queue, s) (Asked j qs # evs) c"
| completes: "i < length queue \<Longrightarrow> queue ! i = Awaiting j task (Done (Inr res)) \<Longrightarrow>
    advance (queue[i := Ready j task res], s) evs c \<Longrightarrow>
    advance (queue, s) (Loop (Processed task res) # evs) c"

definition yield_ready ::
  "'st task_state \<Rightarrow> bool \<Rightarrow> task_item source \<Rightarrow> nat \<Rightarrow> ('w, 'st) pusher_world entry list \<Rightarrow> ('w, 'st) pusher_world
     \<Rightarrow> step_event list \<times> ('w, 'st) pusher_world step_phase \<times> ('w, 'st) pusher_world" where
  "yield_ready st terminated rx n queue s =
     (case queue of
        [] \<Rightarrow> ([], if terminated then Ceased (msg_fault ''fatal error'') else Going rx n [], s)
      | Awaiting j task q # rest \<Rightarrow> ([], Going rx n queue, s)
      | Ready j task res # rest \<Rightarrow>
          (case save_task st (ti_id task) s of
             (Inl f, s') \<Rightarrow> ([Loop (Recorded (ti_id task))], Ceased f, s')
           | (Inr _, s') \<Rightarrow> ([Loop (Recorded (ti_id task))], Going rx n rest, s')))"

inductive task_step ::
  "('w, ('w, 'st) pusher_world) pusher_steps \<Rightarrow> config_metadata \<Rightarrow> 'st task_state
     \<Rightarrow> ('w, 'st) pusher_world step_phase \<times> ('w, 'st) pusher_world \<Rightarrow> step_event list
     \<Rightarrow> ('w, 'st) pusher_world step_phase \<times> ('w, 'st) pusher_world \<Rightarrow> bool"
  for p md st where
  polled:
    "poll_tasks p md rx n queue = (got, rx', n', queue1) \<Longrightarrow>
     advance (queue1, s) evs (queue2, s1) \<Longrightarrow>
     yield_ready st (fst (poll_source rx) = Ended) rx' n' queue2 s1 = (out, ph, s2) \<Longrightarrow>
     task_step p md st (Going rx n queue, s) (map (Loop \<circ> Received) got @ evs @ out) (ph, s2)"
| panicked:
    "poll_tasks p md rx n queue = (got, rx', n', queue1) \<Longrightarrow>
     advance (queue1, s) evs (queue2, s1) \<Longrightarrow>
     Awaiting j task (Done (Inl f)) \<in> set queue2 \<Longrightarrow>
     task_step p md st (Going rx n queue, s) (map (Loop \<circ> Received) got @ evs) (Ceased f, s1)"
| elsewhere:
    "task_step p md st (Going rx n queue, s) [] (Going rx n queue, s\<lparr>env := e\<rparr>)"

inductive task_run ::
  "('w, ('w, 'st) pusher_world) pusher_steps \<Rightarrow> config_metadata \<Rightarrow> 'st task_state
     \<Rightarrow> ('w, 'st) pusher_world step_phase \<times> ('w, 'st) pusher_world \<Rightarrow> step_event list
     \<Rightarrow> ('w, 'st) pusher_world step_phase \<times> ('w, 'st) pusher_world \<Rightarrow> bool"
  for p md st c where
  start: "task_run p md st c [] c"
| step: "task_run p md st c evs c1 \<Longrightarrow> task_step p md st c1 out c2 \<Longrightarrow> task_run p md st c (evs @ out) c2"

text \<open>What an observer sees: the events of the loop, and the requests of each task.\<close>

fun loop_events :: "step_event list \<Rightarrow> loop_event list" where
  "loop_events [] = []"
| "loop_events (Loop ev # evs) = ev # loop_events evs"
| "loop_events (Asked j qs # evs) = loop_events evs"

fun asked_by :: "nat \<Rightarrow> step_event list \<Rightarrow> request list" where
  "asked_by j [] = []"
| "asked_by j (Loop ev # evs) = asked_by j evs"
| "asked_by j (Asked i qs # evs) = (if i = j then qs @ asked_by j evs else asked_by j evs)"

fun requested :: "step_event list \<Rightarrow> request list" where
  "requested [] = []"
| "requested (Loop ev # evs) = requested evs"
| "requested (Asked j qs # evs) = qs @ requested evs"

lemma observed_append [simp]:
  "loop_events (xs @ ys) = loop_events xs @ loop_events ys" "asked_by j (xs @ ys) = asked_by j xs @ asked_by j ys"
  "requested (xs @ ys) = requested xs @ requested ys"
  by (induction xs rule: loop_events.induct; simp)+

lemma observed_loop [simp]:
  "loop_events (map (Loop \<circ> f) xs) = map f xs" "asked_by j (map (Loop \<circ> f) xs) = []"
  "requested (map (Loop \<circ> f) xs) = []"
  by (induction xs) simp_all

section \<open>One event at a time\<close>

inductive tracks ::
  "('w, ('w, 'z) processor_world_scheme) pusher_steps \<Rightarrow> config_metadata \<Rightarrow> step_event list \<Rightarrow> nat
     \<Rightarrow> ('w, 'z) processor_world_scheme entry list \<Rightarrow> bool"
  for p md where
  empty: "tracks p md [] 0 []"
| joins: "tracks p md evs n q \<Longrightarrow>
    tracks p md (evs @ [Loop (Received t)]) (Suc n) (q @ [Awaiting n t (task_future p md t)])"
| goes_on: "tracks p md evs n q \<Longrightarrow> i < length q \<Longrightarrow> q ! i = Awaiting j t (Ask k) \<Longrightarrow> k s = (qs, m, s1) \<Longrightarrow>
    tracks p md (evs @ [Asked j qs]) n (q[i := Awaiting j t m])"
| finishes: "tracks p md evs n q \<Longrightarrow> i < length q \<Longrightarrow> q ! i = Awaiting j t (Done (Inr r)) \<Longrightarrow>
    tracks p md (evs @ [Loop (Processed t r)]) n (q[i := Ready j t r])"
| leaves: "tracks p md evs n (Ready j t r # q) \<Longrightarrow> tracks p md (evs @ [Loop (Recorded (ti_id t))]) n q"

lemma advance_tracks:
  "advance c evs c' \<Longrightarrow> tracks p md pre n (fst c) \<Longrightarrow> tracks p md (pre @ evs) n (fst c')"
proof (induction arbitrary: pre rule: advance.induct)
  case (asks i queue j task k s qs q s1 evs c)
  from tracks.goes_on [OF asks.prems [unfolded fst_conv] asks.hyps(1-3)] asks.IH [of "pre @ [Asked j qs]"]
  show ?case by simp
next
  case (completes i queue j task res s evs c)
  from tracks.finishes [OF completes.prems [unfolded fst_conv] completes.hyps(1,2)]
    completes.IH [of "pre @ [Loop (Processed task res)]"]
  show ?case by simp
qed simp

lemma poll_tracks:
  "poll_tasks p md rx n q = (got, rx', n', q') \<Longrightarrow> tracks p md evs n q \<Longrightarrow>
   tracks p md (evs @ map (Loop \<circ> Received) got) n' q'"
  by (auto simp: poll_tasks_def split: prod.splits polled.splits intro: tracks.joins)

lemma yield_tracks:
  "yield_ready st b rx n q s = (out, ph, s') \<Longrightarrow> tracks p md evs n q \<Longrightarrow>
   \<exists>q'. tracks p md (evs @ out) n q' \<and> (\<forall>rx' n' q''. ph = Going rx' n' q'' \<longrightarrow> n' = n \<and> q'' = q')"
  by (auto simp: yield_ready_def split: list.splits entry.splits prod.splits sum.splits if_splits
      dest: tracks.leaves)

lemma step_tracks:
  assumes "task_step p md st (Going rx n q, s) out (ph, s')" and "tracks p md evs n q"
  shows "\<exists>n' q'. tracks p md (evs @ out) n' q' \<and> (\<forall>rx' m q''. ph = Going rx' m q'' \<longrightarrow> m = n' \<and> q'' = q')"
  using assms(1)
proof (cases rule: task_step.cases)
  case (polled got rx' n' queue1 evs1 queue2 s1 out1)
  from advance_tracks [OF polled(3), of p md "evs @ map (Loop \<circ> Received) got" n'] poll_tracks [OF polled(2) assms(2)]
  have "tracks p md ((evs @ map (Loop \<circ> Received) got) @ evs1) n' queue2" by (simp del: append_assoc)
  from yield_tracks [OF polled(4) this] polled(1) show ?thesis by auto
next
  case (panicked got rx' n' queue1 evs1 queue2 j task f)
  from advance_tracks [OF panicked(4), of p md "evs @ map (Loop \<circ> Received) got" n'] poll_tracks [OF panicked(3) assms(2)]
  have "tracks p md ((evs @ map (Loop \<circ> Received) got) @ evs1) n' queue2" by (simp del: append_assoc)
  with panicked(1,2) show ?thesis by auto
qed (use assms(2) in auto)

lemma stopped_stays: "task_step p md st (Ceased f, s) out c \<Longrightarrow> False"
  by (cases rule: task_step.cases) auto

lemma run_tracks:
  assumes "task_run p md st (Going rx 0 [], s) evs c"
  shows "\<exists>n q. tracks p md evs n q \<and> (\<forall>rx' m q'. fst c = Going rx' m q' \<longrightarrow> m = n \<and> q' = q)"
  using assms
proof (induction rule: task_run.induct)
  case start
  then show ?case using tracks.empty by fastforce
next
  case (step evs c1 out c2)
  then obtain n q where q: "tracks p md evs n q" "\<forall>rx' m q'. fst c1 = Going rx' m q' \<longrightarrow> m = n \<and> q' = q" by blast
  obtain ph1 s1 ph2 s2 where c: "c1 = (ph1, s1)" "c2 = (ph2, s2)" by fastforce
  show ?case
  proof (cases ph1)
    case (Going rx1 m q1)
    with q c step.hyps(2) have "task_step p md st (Going rx1 n q, s1) out (ph2, s2)" by auto
    from step_tracks [OF this q(1)] show ?thesis by (simp add: c)
  next
    case (Ceased f)
    from step.hyps(2) have False unfolding c Ceased by (rule stopped_stays)
    then show ?thesis ..
  qed
qed

text \<open>
  What the events amount to: the tasks received, numbered; an open run of each, with exactly the
  requests asked under its number; the queue holds the last of them, where they are now; the
  others are done and recorded, in order.
\<close>

fun entry_state :: "'s entry \<Rightarrow> nat \<times> task_item \<times> 's task_future" where
  "entry_state (Awaiting j t q) = (j, t, q)"
| "entry_state (Ready j t r) = (j, t, Done (Inr r))"

definition member_runs ::
  "('w, ('w, 'z) processor_world_scheme) pusher_steps \<Rightarrow> config_metadata \<Rightarrow> step_event list \<Rightarrow> task_item list
     \<Rightarrow> ('w, 'z) processor_world_scheme task_future list \<Rightarrow> bool" where
  "member_runs p md evs ts zs \<longleftrightarrow>
     length zs = length ts \<and>
     (\<forall>j < length ts. open_run (task_future p md (ts ! j)) (asked_by j evs) (zs ! j)) \<and>
     (\<forall>j \<ge> length ts. asked_by j evs = [])"

definition recorded_so_far :: "step_event list \<Rightarrow> task_item list \<Rightarrow> 's task_future list \<Rightarrow> nat \<Rightarrow> bool" where
  "recorded_so_far evs ts zs m \<longleftrightarrow>
     m \<le> length ts \<and> recorded_ids (loop_events evs) = map ti_id (take m ts) \<and>
     (\<forall>j < m. \<exists>res. zs ! j = Done (Inr res))"

definition queue_holds :: "task_item list \<Rightarrow> 's task_future list \<Rightarrow> nat \<Rightarrow> 's entry list \<Rightarrow> bool" where
  "queue_holds ts zs m q \<longleftrightarrow>
     length ts = m + length q \<and> (\<forall>i < length q. entry_state (q ! i) = (m + i, ts ! (m + i), zs ! (m + i)))"

lemma open_run_snoc:
  "open_run p qs (Ask k) \<Longrightarrow> k e = (rs, q, e') \<Longrightarrow> open_run p (qs @ rs) q"
proof (induction p qs "Ask k" rule: open_run.induct)
  case stay
  then show ?case using open_run.go [of k e rs q e' "[]" q] by (simp add: open_run.stay)
next
  case (go l d as p d' bs)
  with open_run.go [of l d as p d' "bs @ rs" q] show ?case by simp
qed

lemma tracks_runs:
  "tracks p md evs n q \<Longrightarrow> \<exists>zs m. n = length (received (loop_events evs)) \<and>
     member_runs p md evs (received (loop_events evs)) zs \<and>
     recorded_so_far evs (received (loop_events evs)) zs m \<and> queue_holds (received (loop_events evs)) zs m q"
proof (induction rule: tracks.induct)
  case empty
  show ?case by (rule exI [of _ "[]"]) (simp add: member_runs_def recorded_so_far_def queue_holds_def)
next
  case (joins evs n q t)
  let ?ts = "received (loop_events evs)"
  from joins.IH obtain zs m where *: "n = length ?ts" "member_runs p md evs ?ts zs" "recorded_so_far evs ?ts zs m"
    "queue_holds ?ts zs m q" by (elim exE conjE)
  let ?zs = "zs @ [task_future p md t]"
  have "member_runs p md (evs @ [Loop (Received t)]) (?ts @ [t]) ?zs"
    using *(2) by (auto simp: member_runs_def nth_append less_Suc_eq open_run.stay)
  moreover have "recorded_so_far (evs @ [Loop (Received t)]) (?ts @ [t]) ?zs m"
    using *(2,3) by (auto simp: recorded_so_far_def member_runs_def nth_append)
  moreover have "queue_holds (?ts @ [t]) ?zs m (q @ [Awaiting n t (task_future p md t)])"
    using *(1,2,4) by (auto simp: queue_holds_def member_runs_def nth_append less_Suc_eq)
  ultimately show ?case using *(1) by (intro exI [of _ ?zs] exI [of _ m]) simp
next
  case (goes_on evs n q i j t k s qs z s1)
  let ?ts = "received (loop_events evs)"
  from goes_on.IH obtain zs m where *: "n = length ?ts" "member_runs p md evs ?ts zs" "recorded_so_far evs ?ts zs m"
    "queue_holds ?ts zs m q" by (elim exE conjE)
  from *(4) goes_on.hyps(2,3) have j: "j = m + i" "t = ?ts ! j" "zs ! j = Ask k" "j < length ?ts"
    by (auto simp: queue_holds_def dest: spec [of _ i])
  let ?zs = "zs[j := z]"
  from *(2) j(3,4) have "open_run (task_future p md (?ts ! j)) (asked_by j evs) (Ask k)"
    by (auto simp: member_runs_def dest: spec [of _ j])
  from open_run_snoc [OF this goes_on.hyps(4)] *(2) j(4)
  have "member_runs p md (evs @ [Asked j qs]) ?ts ?zs" by (auto simp: member_runs_def nth_list_update)
  moreover have "recorded_so_far (evs @ [Asked j qs]) ?ts ?zs m"
    using *(3) j(1) by (auto simp: recorded_so_far_def)
  moreover have "queue_holds ?ts ?zs m (q[i := Awaiting j t z])"
    using *(2,4) j goes_on.hyps(2) by (auto simp: queue_holds_def member_runs_def nth_list_update)
  ultimately show ?case using *(1) by (intro exI [of _ ?zs] exI [of _ m]) simp
next
  case (finishes evs n q i j t r)
  let ?ts = "received (loop_events evs)"
  from finishes.IH obtain zs m where *: "n = length ?ts" "member_runs p md evs ?ts zs" "recorded_so_far evs ?ts zs m"
    "queue_holds ?ts zs m q" by (elim exE conjE)
  have "entry_state (q ! i) = entry_state (Ready j t r)" using finishes.hyps by simp
  with *(4) finishes.hyps(2) have "queue_holds ?ts zs m (q[i := Ready j t r])"
    by (auto simp: queue_holds_def nth_list_update)
  with * show ?case
    by (intro exI [of _ zs] exI [of _ m]) (simp add: member_runs_def recorded_so_far_def)
next
  case (leaves evs n j t r q)
  let ?ts = "received (loop_events evs)"
  from leaves.IH obtain zs m where *: "n = length ?ts" "member_runs p md evs ?ts zs" "recorded_so_far evs ?ts zs m"
    "queue_holds ?ts zs m (Ready j t r # q)" by (elim exE conjE)
  from *(4) have j: "t = ?ts ! m" "zs ! m = Done (Inr r)" "m < length ?ts"
    by (auto simp: queue_holds_def dest: spec [of _ 0])
  have "queue_holds ?ts zs (Suc m) q"
    using *(4) by (auto simp: queue_holds_def)
  moreover have "recorded_so_far (evs @ [Loop (Recorded (ti_id t))]) ?ts zs (Suc m)"
    using *(3) j by (auto simp: recorded_so_far_def take_Suc_conv_app_nth less_Suc_eq)
  ultimately show ?case using * by (intro exI [of _ zs] exI [of _ "Suc m"]) (simp add: member_runs_def)
qed

section \<open>The wire and the storage\<close>

text \<open>A process of the component logs its requests and leaves what is not of the processor alone.\<close>

primrec logs :: "('f, ('w, 'z) processor_world_scheme, 'a) proc \<Rightarrow> bool" where
  "logs (Done r) = True"
| "logs (Ask k) = (\<forall>s. case map_prod id (map_prod logs id) (k s) of
     (qs, ok, s') \<Rightarrow> ok \<and> wire s' = wire s @ qs \<and> keeps_rest s s')"

named_theorems logs_rules \<open>processes that log their requests\<close>

lemma logs_askD: "logs (Ask k) \<Longrightarrow> k s = (qs, q, s') \<Longrightarrow> logs q \<and> wire s' = wire s @ qs \<and> keeps_rest s s'"
  by (auto dest: spec [of _ s])

lemma logs_askI:
  "(\<And>s qs q s'. k s = (qs, q, s') \<Longrightarrow> logs q \<and> wire s' = wire s @ qs \<and> keeps_rest s s') \<Longrightarrow> logs (Ask k)"
  by (auto simp: map_prod_def split: prod.splits)

declare logs.simps(2) [simp del]

lemma logs_done [logs_rules]: "logs (Done r)"
  by simp

lemma logs_then [logs_rules]: "logs p \<Longrightarrow> (\<And>r. logs (g r)) \<Longrightarrow> logs (then_proc p g)"
proof (induction p rule: proc_induct)
  case (Ask k)
  show ?case unfolding then_proc.simps
  proof (rule logs_askI)
    fix s qs q s'
    assume "map_prod id (map_prod (\<lambda>p. then_proc p g) id) (k s) = (qs, q, s')"
    then obtain p where "k s = (qs, p, s')" "q = then_proc p g" by (cases "k s") auto
    with Ask.IH [OF this(1)] logs_askD [OF Ask.prems(1) this(1)] Ask.prems(2)
    show "logs q \<and> wire s' = wire s @ qs \<and> keeps_rest s s'" by simp
  qed
qed simp

lemma logs_bind [logs_rules]: "logs p \<Longrightarrow> (\<And>x. logs (g x)) \<Longrightarrow> logs (bind_proc p g)"
  unfolding bind_proc_def by (rule logs_then) (auto split: sum.split)

lemma logs_map [logs_rules]: "logs p \<Longrightarrow> logs (map_proc h p)"
  unfolding map_proc_def by (intro logs_bind logs_done)

lemma logs_catch [logs_rules]: "logs p \<Longrightarrow> logs (catch_err_proc p)"
  unfolding catch_err_proc_def by (rule logs_then) (auto split: sum.split fault.split)

lemma logs_option [logs_rules]: "logs (option_proc f r)"
  by (simp add: option_proc_def split: option.split)

lemma logs_on_world [logs_rules]:
  fixes p :: "('f, 'w, 'a) proc"
  shows "logs (on_world p :: ('f, ('w, 'z) processor_world_scheme, 'a) proc)"
proof (induction p rule: proc_induct)
  case (Ask k)
  show ?case unfolding on_world.simps
  proof (rule logs_askI)
    fix s s' :: "('w, 'z) processor_world_scheme" and qs and q :: "('f, ('w, 'z) processor_world_scheme, 'a) proc"
    obtain rs p e where k: "k (env s) = (rs, p, e)" by (metis prod_cases3)
    assume "(case map_prod id (map_prod on_world id) (k (env s)) of
      (qs, p, e) \<Rightarrow> (qs, p, s\<lparr>env := e, wire := wire s @ qs\<rparr>)) = (qs, q, s')"
    with k Ask.IH [OF k] show "logs q \<and> wire s' = wire s @ qs \<and> keeps_rest s s'" by (auto simp: keeps_rest_def)
  qed
qed simp

lemma logs_local:
  "(\<And>s r s'. m s = (r, s') \<Longrightarrow> wire s' = wire s \<and> keeps_rest s s') \<Longrightarrow> logs (local_proc m)"
  unfolding local_proc_def by (rule logs_askI) (auto split: prod.splits)

lemma logs_own [logs_rules]: "logs (local_proc (publish evs))" "logs (local_proc (cache_take k))"
  "logs (local_proc (cache_put k bd))"
  by (rule logs_local, auto simp: publish_def cache_take_def cache_put_def keeps_rest_def split: if_splits)+

lemma logs_ensure [logs_rules]: "logs (ensure_enough_gas_proc sdk libs sn nd kp m payload destination incoming available)"
  unfolding ensure_enough_gas_proc_def by (intro logs_rules) (auto split: prod.split intro!: logs_rules)

lemma logs_execute:
  "(\<And>m payload d i a. logs (ps_ensure p m payload d i a)) \<Longrightarrow> logs (execute_task_with_estimator_proc p md signer task)"
  unfolding execute_task_with_estimator_proc_def Let_def by (auto intro!: logs_rules)

lemma logs_future: "logs (task_future (new_steps cfg nd sn rt sdk libs codec fuel) md item)"
  unfolding task_future_def process_task_proc_def Let_def
  by (rule logs_catch) (auto intro!: logs_rules logs_execute split: amp_task.split sum.split)

fun logging :: "('w, 'z) processor_world_scheme entry \<Rightarrow> bool" where
  "logging (Awaiting j t q) = logs q"
| "logging (Ready j t r) = True"

text \<open>What the log and the storage hold after some events.\<close>

definition books ::
  "'st task_state \<Rightarrow> ('w, 'st) pusher_world \<Rightarrow> step_event list \<Rightarrow> ('w, 'st) pusher_world \<Rightarrow> bool" where
  "books st s evs s' \<longleftrightarrow>
     wire s' = wire s @ requested evs \<and>
     task_store s' = fold (\<lambda>i m. snd (set_latest_task st i m)) (recorded_ids (loop_events evs)) (task_store s)"

lemma books_append: "books st s xs s1 \<Longrightarrow> books st s1 ys s2 \<Longrightarrow> books st s (xs @ ys) s2"
  by (simp add: books_def)

lemma books_received: "books st s (map (Loop \<circ> Received) got) s"
  by (simp add: books_def)

lemma advance_events: "advance c evs c' \<Longrightarrow> received (loop_events evs) = [] \<and> recorded_ids (loop_events evs) = []"
  by (induction rule: advance.induct) auto

lemma logging_update: "list_all logging q \<Longrightarrow> logging e \<Longrightarrow> list_all logging (q[i := e])"
  using set_update_subset_insert [of q i e] by (auto simp: list_all_iff)

lemma advance_logs:
  "advance c evs c' \<Longrightarrow> list_all logging (fst c) \<Longrightarrow>
   list_all logging (fst c') \<and> wire (snd c') = wire (snd c) @ requested evs \<and> keeps_rest (snd c) (snd c')"
proof (induction rule: advance.induct)
  case (asks i queue j task k s qs q s1 evs c)
  have "logging (queue ! i)" using asks.prems asks.hyps(1) by (auto simp: list_all_length)
  with asks.hyps(2,3) have k: "logs q \<and> wire s1 = wire s @ qs \<and> keeps_rest s s1" by (auto dest: logs_askD)
  with asks.IH logging_update [of queue "Awaiting j task q" i] asks.prems show ?case
    using keeping.R_trans by auto
next
  case (completes i queue j task res s evs c)
  with logging_update [of queue "Ready j task res" i] show ?case by simp
qed simp

lemma advance_books:
  "advance (q, s) evs (q', s') \<Longrightarrow> list_all logging q \<Longrightarrow> books st s evs s' \<and> list_all logging q'"
  using advance_logs [of "(q, s)" evs "(q', s')"] advance_events [of "(q, s)" evs "(q', s')"] keeps_store
  by (auto simp: books_def)

lemma poll_logging:
  "poll_tasks (new_steps cfg nd sn rt sdk libs codec fuel) md rx n q = (got, rx', n', q') \<Longrightarrow>
   list_all logging q \<Longrightarrow> list_all logging q'"
  by (auto simp: poll_tasks_def logs_future split: prod.splits polled.splits)

lemma yield_books:
  "yield_ready st b rx n q s = (out, ph, s') \<Longrightarrow> list_all logging q \<Longrightarrow>
   books st s out s' \<and> (\<forall>rx' n' q'. ph = Going rx' n' q' \<longrightarrow> rx' = rx \<and> list_all logging q')"
  by (auto simp: yield_ready_def books_def save_task_def split: list.splits entry.splits prod.splits sum.splits if_splits)

lemma step_books:
  assumes "task_step (new_steps cfg nd sn rt sdk libs codec fuel) md st (Going rx n q, s) out (ph, s')"
    and "list_all logging q"
  shows "books st s out s' \<and> (\<forall>rx' n' q'. ph = Going rx' n' q' \<longrightarrow> list_all logging q')"
  using assms(1)
proof (cases rule: task_step.cases)
  case (polled got rx' n' queue1 evs queue2 s1 out1)
  from advance_books [OF polled(3) poll_logging [OF polled(2) assms(2)]] yield_books [OF polled(4)] polled(1) show ?thesis
    using books_append [OF books_received books_append] by blast
next
  case (panicked got rx' n' queue1 evs queue2 j task f)
  from advance_books [OF panicked(4) poll_logging [OF panicked(3) assms(2)]] panicked(1,2) show ?thesis
    using books_append [OF books_received] by blast
qed (use assms(2) in \<open>auto simp: books_def\<close>)

lemma run_books:
  assumes "task_run (new_steps cfg nd sn rt sdk libs codec fuel) md st (Going rx 0 [], s) evs c"
  shows "books st s evs (snd c) \<and> (\<forall>rx' n q. fst c = Going rx' n q \<longrightarrow> list_all logging q)"
  using assms
proof (induction rule: task_run.induct)
  case start
  then show ?case by (simp add: books_def)
next
  case (step evs c1 out c2)
  obtain ph1 s1 ph2 s2 where c: "c1 = (ph1, s1)" "c2 = (ph2, s2)" by fastforce
  show ?case
  proof (cases ph1)
    case (Going rx1 n q)
    with step.IH c have *: "books st s evs s1" "list_all logging q" by auto
    from step_books [OF step.hyps(2) [unfolded c Going] *(2)] books_append [OF *(1)] show ?thesis by (simp add: c)
  next
    case (Ceased f)
    from step.hyps(2) have False unfolding c Ceased by (rule stopped_stays)
    then show ?thesis ..
  qed
qed

text \<open>The tasks come from the receiver, in its order.\<close>

lemma poll_receives:
  "poll_tasks p md rx n q = (got, rx', n', q') \<Longrightarrow> handed_over rx = got @ handed_over rx'"
  by (cases rx rule: poll_source.cases) (auto simp: poll_tasks_def)

lemma yield_receives:
  "yield_ready st b rx n q s = (out, ph, s') \<Longrightarrow>
   received (loop_events out) = [] \<and> (\<forall>rx' n' q'. ph = Going rx' n' q' \<longrightarrow> rx' = rx)"
  by (auto simp: yield_ready_def split: list.splits entry.splits prod.splits sum.splits if_splits)

lemma step_receives:
  assumes "task_step p md st (Going rx n q, s) out (ph, s')"
  shows "\<exists>rest. handed_over rx = received (loop_events out) @ rest \<and>
    (\<forall>rx' n' q'. ph = Going rx' n' q' \<longrightarrow> rest = handed_over rx')"
  using assms
proof (cases rule: task_step.cases)
  case (polled got rx' n' queue1 evs queue2 s1 out1)
  with poll_receives [OF polled(2)] advance_events [OF polled(3)] yield_receives [OF polled(4)] show ?thesis by auto
next
  case (panicked got rx' n' queue1 evs queue2 j task f)
  with poll_receives [OF panicked(3)] advance_events [OF panicked(4)] show ?thesis by auto
qed auto

lemma run_receives:
  assumes "task_run p md st (Going rx 0 [], s) evs c"
  shows "\<exists>rest. handed_over rx = received (loop_events evs) @ rest \<and>
    (\<forall>rx' n q. fst c = Going rx' n q \<longrightarrow> rest = handed_over rx')"
  using assms
proof (induction rule: task_run.induct)
  case (step evs c1 out c2)
  obtain ph1 s1 ph2 s2 where c: "c1 = (ph1, s1)" "c2 = (ph2, s2)" by fastforce
  show ?case
  proof (cases ph1)
    case (Going rx1 n q)
    with step.IH c have "handed_over rx = received (loop_events evs) @ handed_over rx1" by auto
    with step_receives [OF step.hyps(2) [unfolded c Going]] show ?thesis by (auto simp: c)
  next
    case (Ceased f)
    from step.hyps(2) have False unfolding c Ceased by (rule stopped_stays)
    then show ?thesis ..
  qed
qed simp

section \<open>The requests of a task\<close>

text \<open>
  An open run of a task is one of what the task is about; a message that fails is followed by
  requests for its report, which send nothing.
\<close>

definition task_asked ::
  "('w, ('w, 'z) processor_world_scheme) pusher_steps \<Rightarrow> config_metadata \<Rightarrow> task_item \<Rightarrow> request list \<Rightarrow> bool" where
  "task_asked p md item qs =
     (case ti_task item of
        GatewayTx data \<Rightarrow>
          (\<exists>z. open_run (gateway_tx_task_proc (ps_send p) (ps_libs p) (ps_runtime p) data (gc_keypair (ps_config p))) qs z)
      | Execute task \<Rightarrow>
          (\<exists>as bs z. qs = as @ bs \<and>
             open_run (execute_task_with_estimator_proc p md (gc_keypair (ps_config p)) task) as z \<and>
             (bs \<noteq> [] \<longrightarrow> (\<exists>err. z = Done (Inl (Err err)))) \<and> (\<forall>k. sends_of k bs = []))
      | Refund task \<Rightarrow> (\<exists>z. open_run (refund_task_proc p task) qs z)
      | _ \<Rightarrow> qs = [])"

lemma open_catch:
  "open_run (catch_err_proc p) qs z \<Longrightarrow> \<exists>p'. open_run p qs p'"
  "open_run (catch_err_proc p) qs (Done (Inr (Inl e))) \<Longrightarrow> open_run p qs (Done (Inl (Err e)))"
  unfolding catch_err_proc_def by (erule open_thenE; auto split: sum.splits fault.splits)+

lemma open_report:
  assumes "open_run (bind_proc (on_world (failure_event_proc p md i source_chain message_id err)) (\<lambda>event. local_proc (publish [event]))) qs z"
  shows "sends_of k qs = []"
  by (rule asks_quiet [OF _ assms]) (intro asks_rules asks_failure_event; simp)

lemma open_task:
  assumes "open_run (task_future p md item) qs z"
  shows "task_asked p md item qs"
proof -
  from open_catch(1) [OF assms [unfolded task_future_def]] obtain y where run: "open_run (process_task_proc p md item) qs y" by blast
  show ?thesis
  proof (cases "ti_task item")
    case (Execute task)
    let ?E = "execute_task_with_estimator_proc p md (gc_keypair (ps_config p)) task"
    let ?report = "\<lambda>err. bind_proc (on_world (failure_event_proc p md (ti_id item) (gm_source_chain (et_message task))
      (gm_message_id (et_message task)) err)) (\<lambda>event. local_proc (publish [event]))"
    from run Execute have "open_run (bind_proc (catch_err_proc ?E) (\<lambda>r. case r of Inr _ \<Rightarrow> Done (Inr ()) | Inl err \<Rightarrow> ?report err)) qs y"
      by (simp add: process_task_proc_def Let_def)
    then have "\<exists>as bs z. qs = as @ bs \<and> open_run ?E as z \<and> (bs \<noteq> [] \<longrightarrow> (\<exists>err. z = Done (Inl (Err err)))) \<and> (\<forall>k. sends_of k bs = [])"
    proof (cases rule: open_bindE)
      case (during p')
      from open_catch(1) [OF during(1)] show ?thesis by (metis append_Nil2 sends_of_simps(1))
    next
      case (failed f)
      from open_catch(1) [OF failed(1)] show ?thesis by (metis append_Nil2 sends_of_simps(1))
    next
      case (after as bs x)
      show ?thesis
      proof (cases x)
        case (Inl err)
        with after(2) have failed: "open_run ?E as (Done (Inl (Err err)))" by (simp add: open_catch(2))
        from after(3) Inl have "sends_of k bs = []" for k by (simp add: open_report)
        with failed after(1) show ?thesis by blast
      next
        case (Inr u)
        with after(3) have "bs = []" by simp
        with after(1) open_catch(1) [OF after(2)] show ?thesis by (metis append_Nil2 sends_of_simps(1))
      qed
    qed
    with Execute show ?thesis by (simp add: task_asked_def)
  qed (use run in \<open>auto simp: task_asked_def process_task_proc_def elim: open_on_world\<close>)
qed

section \<open>Futures that run in one go\<close>

fun same_entry ::
  "('w, ('w, 'z) processor_world_scheme) pusher_steps \<Rightarrow> config_metadata \<Rightarrow> running
     \<Rightarrow> ('w, 'z) processor_world_scheme entry \<Rightarrow> bool" where
  "same_entry p md (Waiting t) e = (\<exists>j. e = Awaiting j t (task_future p md t))"
| "same_entry p md (Finished i r) e = (\<exists>j t. e = Ready j t r \<and> ti_id t = i)"

fun same_phase ::
  "('w, ('w, 'z) processor_world_scheme) pusher_steps \<Rightarrow> config_metadata \<Rightarrow> loop_phase
     \<Rightarrow> ('w, 'z) processor_world_scheme step_phase \<Rightarrow> bool" where
  "same_phase p md (Running rx q) ph = (\<exists>n q'. ph = Going rx n q' \<and> list_all2 (same_entry p md) q q')"
| "same_phase p md (Halted f) ph = (ph = Ceased f)"

lemma advance_trans: "advance c e1 c1 \<Longrightarrow> advance c1 e2 c2 \<Longrightarrow> advance c (e1 @ e2) c2"
  by (induction rule: advance.induct) (auto intro: advance.intros)

text \<open>A future whose requests nothing comes between.\<close>

lemma advance_alone:
  "run_state m s = (r, s') \<Longrightarrow> i < length q \<Longrightarrow> q ! i = Awaiting j t m \<Longrightarrow>
   \<exists>evs. advance (q, s) evs (q[i := Awaiting j t (Done r)], s') \<and> loop_events evs = []"
proof (induction m arbitrary: q s rule: proc_induct)
  case (Done r')
  then have "q[i := Awaiting j t (Done r)] = q" "s' = s" by (auto simp: run_state.simps(1) list_update_same_conv)
  then show ?case using advance.idle by (intro exI [of _ "[]"]) simp
next
  case (Ask k)
  obtain qs m s1 where k: "k s = (qs, m, s1)" by (metis prod_cases3)
  with Ask.prems(1) have "run_state m s1 = (r, s')" by simp
  from Ask.IH [OF k this, of "q[i := Awaiting j t m]"] Ask.prems(2) obtain evs where
    "advance (q[i := Awaiting j t m], s1) evs (q[i := Awaiting j t (Done r)], s')" "loop_events evs = []" by auto
  with advance.asks [OF Ask.prems(2,3) k this(1)] show ?case by (intro exI conjI) (assumption, simp)
qed

text \<open>What the two loops have to agree on: a task that runs in one go.\<close>

definition runs_as ::
  "('w, ('w, 'z) processor_world_scheme) pusher_steps \<Rightarrow> config_metadata
     \<Rightarrow> ('w, ('w, 'z) processor_world_scheme) tx_pusher \<Rightarrow> bool" where
  "runs_as p md P \<longleftrightarrow> (\<forall>item. run_state (process_task_proc p md item) = process_task P md item)"

lemma runs_as_future: "runs_as p md P \<Longrightarrow> run_state (task_future p md t) = catch_errE (process_task P md t)"
  by (simp add: runs_as_def task_future_def)

lemma background_refined:
  "background P md (q, s) evs (q', s') \<Longrightarrow> runs_as p md P \<Longrightarrow> list_all2 (same_entry p md) q Q \<Longrightarrow>
   \<exists>evs' Q'. advance (Q, s) evs' (Q', s') \<and> loop_events evs' = evs \<and> list_all2 (same_entry p md) q' Q'"
proof (induction "(q, s)" evs "(q', s')" arbitrary: q s Q rule: background.induct)
  case idle
  then show ?case using advance.idle by (intro exI [of _ "[]"] exI [of _ Q]) simp
next
  case (completes i q t s r s1 evs)
  from list_all2_nthD [OF completes.prems(2) completes.hyps(1)] completes.hyps(2)
  obtain j where j: "Q ! i = Awaiting j t (task_future p md t)" by auto
  have i: "i < length Q" using completes.prems(2) completes.hyps(1) by (simp add: list_all2_lengthD)
  have "run_state (task_future p md t) s = (Inr r, s1)" 
    using completes.hyps(3) by (simp add: runs_as_future [OF completes.prems(1)])
  from advance_alone [OF this i j] obtain e1 where
    e1: "advance (Q, s) e1 (Q[i := Awaiting j t (Done (Inr r))], s1)" "loop_events e1 = []" by blast
  from completes.prems(2) have "list_all2 (same_entry p md) (q[i := Finished (ti_id t) r]) (Q[i := Ready j t r])"
    by (rule list_all2_update_cong) simp
  from completes.hyps(5) [OF completes.prems(1) this] obtain e2 Q' where
    e2: "advance (Q[i := Ready j t r], s1) e2 (Q', s')" "loop_events e2 = evs" "list_all2 (same_entry p md) q' Q'" by blast
  have "advance (Q[i := Awaiting j t (Done (Inr r))], s1) (Loop (Processed t r) # e2) (Q', s')"
    by (rule advance.completes [of i _ j]) (use i e2(1) in simp_all)
  from advance_trans [OF e1(1) this] e1(2) e2(2,3) show ?case
    by (intro exI conjI) (assumption, simp_all)
qed

lemma yield_refined:
  assumes "yield_next st b rx q s = (out, ph, s')" and "list_all2 (same_entry p md) q Q"
  shows "\<exists>out' ph'. yield_ready st b rx n Q s = (out', ph', s') \<and> loop_events out' = out \<and> same_phase p md ph ph'"
  using assms
  by (cases q; cases Q)
    (auto simp: yield_next_def yield_ready_def split: running.splits prod.splits sum.splits)

lemma poll_refined:
  assumes "poll_receiver rx q = (got, rx', q')" and "list_all2 (same_entry p md) q Q"
  shows "\<exists>n' Q'. poll_tasks p md rx n Q = (got, rx', n', Q') \<and> list_all2 (same_entry p md) q' Q'"
  using assms by (cases rx rule: poll_source.cases) (auto simp: poll_receiver_def poll_tasks_def list_all2_appendI)

lemma step_refined:
  assumes "loop_step P md st (Running rx q, s) out (ph, s')" and "list_all2 (same_entry p md) q Q" and "runs_as p md P"
  shows "\<exists>out' ph'. task_step p md st (Going rx n Q, s) out' (ph', s') \<and> loop_events out' = out \<and> same_phase p md ph ph'"
  using assms(1)
proof (cases rule: loop_step.cases)
  case (polled got rx' queue1 evs queue2 s1 out1)
  from poll_refined [OF polled(2) assms(2)] obtain n' Q1 where
    1: "poll_tasks p md rx n Q = (got, rx', n', Q1)" "list_all2 (same_entry p md) queue1 Q1" by blast
  from background_refined [OF polled(3) assms(3) 1(2)] obtain evs' Q2 where
    2: "advance (Q1, s) evs' (Q2, s1)" "loop_events evs' = evs" "list_all2 (same_entry p md) queue2 Q2" by blast
  from yield_refined [OF polled(4) 2(3)] obtain out' ph' where
    3: "yield_ready st (fst (poll_source rx) = Ended) rx' n' Q2 s1 = (out', ph', s')" "loop_events out' = out1"
      "same_phase p md ph ph'" by blast
  from task_step.polled [OF 1(1) 2(1) 3(1)] polled(1) 2(2) 3(2,3) show ?thesis
    by (intro exI conjI) (assumption, simp_all)
next
  case (panicked got rx' queue1 evs queue2 s1 i t f)
  from poll_refined [OF panicked(3) assms(2)] obtain n' Q1 where
    1: "poll_tasks p md rx n Q = (got, rx', n', Q1)" "list_all2 (same_entry p md) queue1 Q1" by blast
  from background_refined [OF panicked(4) assms(3) 1(2)] obtain evs' Q2 where
    2: "advance (Q1, s) evs' (Q2, s1)" "loop_events evs' = evs" "list_all2 (same_entry p md) queue2 Q2" by blast
  from list_all2_nthD [OF 2(3) panicked(5)] panicked(6) obtain j where
    j: "Q2 ! i = Awaiting j t (task_future p md t)" by auto
  have i: "i < length Q2" using 2(3) panicked(5) by (simp add: list_all2_lengthD)
  have "run_state (task_future p md t) s1 = (Inl f, s')" 
    using panicked(7) by (simp add: runs_as_future [OF assms(3)])
  from advance_alone [OF this i j] obtain e1 where
    e1: "advance (Q2, s1) e1 (Q2[i := Awaiting j t (Done (Inl f))], s')" "loop_events e1 = []" by blast
  have "Awaiting j t (Done (Inl f)) \<in> set (Q2[i := Awaiting j t (Done (Inl f))])" using i by (rule set_update_memI)
  from task_step.panicked [OF 1(1) advance_trans [OF 2(1) e1(1)] this] panicked(1,2) 2(2) e1(2) show ?thesis
    by (intro exI conjI) (assumption, simp_all)
qed

lemma run_refined:
  "runs_as p md P \<Longrightarrow> loop_run P md st (Running rx [], s) evs c \<Longrightarrow>
   \<exists>evs' ph. task_run p md st (Going rx 0 [], s) evs' (ph, snd c) \<and> loop_events evs' = evs \<and> same_phase p md (fst c) ph"
proof (rotate_tac, induction rule: loop_run.induct)
  case start
  show ?case by (intro exI [of _ "[]"] exI [of _ "Going rx 0 []"]) (simp add: task_run.start)
next
  case (step evs c1 out c2)
  from step.IH [OF step.prems] obtain e1 ph1 where 1: "task_run p md st (Going rx 0 [], s) e1 (ph1, snd c1)" "loop_events e1 = evs"
    "same_phase p md (fst c1) ph1" by blast
  obtain ph s1 ph' s2 where c: "c1 = (ph, s1)" "c2 = (ph', s2)" by fastforce
  show ?case
  proof (cases ph)
    case (Running rx1 q)
    with 1(3) c obtain n Q where ph1: "ph1 = Going rx1 n Q" and "list_all2 (same_entry p md) q Q" by auto
    from step_refined [OF step.hyps(2) [unfolded c Running] this(2) step.prems] obtain e2 ph2 where
      2: "task_step p md st (Going rx1 n Q, s1) e2 (ph2, s2)" "loop_events e2 = out" "same_phase p md ph' ph2" by blast
    from task_run.step [OF 1(1)] 2(1) have "task_run p md st (Going rx 0 [], s) (e1 @ e2) (ph2, s2)" by (simp add: ph1 c)
    with 1(2) 2(2,3) show ?thesis by (intro exI [of _ "e1 @ e2"] exI [of _ ph2]) (simp add: c)
  next
    case (Halted f)
    with step.hyps(2) c show ?thesis by (auto elim: loop_stepE)
  qed
qed

section \<open>A concrete run\<close>

text \<open>A message and a gateway transaction, both taken from the receiver before either is done.\<close>

definition task_message :: task_item where
  "task_message = \<lparr>ti_id = 7, ti_task = Execute (sample_task ''15'' [1, 2, 3])\<rparr>"

definition task_gateway :: task_item where
  "task_gateway = \<lparr>ti_id = 8, ti_task = GatewayTx []\<rparr>"

abbreviation in_turn_pusher :: "(nat, (nat, bytes) pusher_world) tx_pusher" where
  "in_turn_pusher \<equiv> new_pusher sample_config ''solana'' (easy_node MainNode) (easy_node SimNode) in_turn_runtime
     decimal_sdk sample_gateway sample_codec 1"

abbreviation loop_steps :: "(nat, (nat, bytes) pusher_world) pusher_steps" where
  "loop_steps \<equiv> new_steps sample_config (easy_node MainNode) (easy_node SimNode) in_turn_runtime decimal_sdk
     sample_gateway sample_codec 1"

abbreviation in_turn_metadata :: config_metadata where
  "in_turn_metadata \<equiv> get_config_metadata in_turn_pusher"

definition company_trace :: "loop_event list" where
  "company_trace = [Received task_message, Received task_gateway, Processed task_message (Inr ()),
     Processed task_gateway (Inr ()), Recorded 7, Recorded 8]"

lemma company_tasks:
  "gas_cache s (message_incoming sample_gateway (sample_task ''15'' [1, 2, 3])) = None \<Longrightarrow>
     \<exists>s'. catch_errE (process_task in_turn_pusher md task_message) s = (Inr (Inr ()), s')"
  "\<exists>s'. catch_errE (process_task in_turn_pusher md task_gateway) s = (Inr (Inr ()), s')"
proof -
  assume "gas_cache s (message_incoming sample_gateway (sample_task ''15'' [1, 2, 3])) = None"
  from sample_executes [OF this, where md = md and name = "''solana''" and rt = in_turn_runtime
      and codec = sample_codec and fuel = 1]
  obtain s' where "execute_task_with_estimator in_turn_pusher md 5 (sample_task ''15'' [1, 2, 3]) s = (Inr (), s')" by auto
  then show "\<exists>s'. catch_errE (process_task in_turn_pusher md task_message) s = (Inr (Inr ()), s')"
    by (simp add: process_task_def task_message_def catch_errE_def bindE_def)
next
  obtain s' where "gateway_tx_task in_turn_pusher [] 5 s = (Inr (), s')"
    using sample_rotation_succeeds [of _ _ _ "gateway_err_proceed sample_gateway"] by simp blast
  then show "\<exists>s'. catch_errE (process_task in_turn_pusher md task_gateway) s = (Inr (Inr ()), s')"
    by (simp add: process_task_def task_gateway_def catch_errE_def)
qed

lemma company_loop:
  "\<exists>s'. loop_run in_turn_pusher md (memmap_tasks fair_os) (Running [Item task_message, Item task_gateway, Ended] [], loop_start)
     company_trace (Halted (msg_fault ''fatal error''), s')"
proof -
  let ?st = "memmap_tasks fair_os" and ?p = in_turn_pusher
  obtain s1 where s1: "catch_errE (process_task ?p md task_message) loop_start = (Inr (Inr ()), s1)"
    using company_tasks(1) [of loop_start md] by (auto simp: loop_start_def)
  obtain s2 where s2: "catch_errE (process_task ?p md task_gateway) s1 = (Inr (Inr ()), s2)"
    using company_tasks(2) by blast
  have "length (task_store s2) = state_len"
    using looping.caught_store [OF s1] looping.caught_store [OF s2] by (simp add: loop_start_def)
  then obtain s3 where s3: "save_task ?st 7 s2 = (Inr (), s3)" and "length (task_store s3) = state_len"
    using save_task_ok by blast
  then obtain s4 where s4: "save_task ?st 8 s3 = (Inr (), s4)" using save_task_ok by blast
  have "loop_step ?p md ?st (Running [Item task_message, Item task_gateway, Ended] [], loop_start)
      (map Received [task_message] @ [] @ []) (Running [Item task_gateway, Ended] [Waiting task_message], loop_start)"
    by (rule loop_step.polled [OF _ background.idle]) (simp add: poll_receiver_def, simp add: yield_next_def)
  note 1 = loop_run.step [OF loop_run.start this]
  have both: "background ?p md ([Waiting task_message, Waiting task_gateway], loop_start)
      [Processed task_message (Inr ()), Processed task_gateway (Inr ())] ([Finished 7 (Inr ()), Finished 8 (Inr ())], s2)"
    by (rule background.completes [where i = 0, OF _ _ s1], simp, simp,
        rule background.completes [where i = 1, OF _ _ s2])
      (simp_all add: task_message_def task_gateway_def background.idle)
  have "loop_step ?p md ?st (Running [Item task_gateway, Ended] [Waiting task_message], loop_start)
      (map Received [task_gateway] @ [Processed task_message (Inr ()), Processed task_gateway (Inr ())] @ [Recorded 7])
      (Running [Ended] [Finished 8 (Inr ())], s3)"
    by (rule loop_step.polled [OF _ both]) (simp add: poll_receiver_def, simp add: yield_next_def s3)
  note 2 = loop_run.step [OF 1 this]
  have "loop_step ?p md ?st (Running [Ended] [Finished 8 (Inr ())], s3) (map Received [] @ [] @ [Recorded 8]) (Running [Ended] [], s4)"
    by (rule loop_step.polled [OF _ background.idle]) (simp add: poll_receiver_def, simp add: yield_next_def s4)
  note 3 = loop_run.step [OF 2 this]
  have "loop_step ?p md ?st (Running [Ended] [], s4) (map Received [] @ [] @ []) (Halted (msg_fault ''fatal error''), s4)"
    by (rule loop_step.polled [OF _ background.idle]) (simp add: poll_receiver_def, simp add: yield_next_def)
  note 4 = loop_run.step [OF 3 this]
  then show ?thesis by (intro exI [of _ s4]) (simp add: company_trace_def)
qed

lemma company_run:
  "\<exists>evs s'. task_run loop_steps md (memmap_tasks fair_os) (Going [Item task_message, Item task_gateway, Ended] 0 [], loop_start)
     evs (Ceased (msg_fault ''fatal error''), s') \<and> loop_events evs = company_trace"
proof -
  have "runs_as loop_steps md in_turn_pusher" unfolding runs_as_def using run_process_task [OF in_turn_pick] by blast
  from run_refined [OF this] company_loop [of md] show ?thesis by fastforce
qed

section \<open>Properties\<close>

text \<open>
  C7. The task loop, whatever happens to the chain meanwhile and in whichever order its futures
  get their answers: the tasks are taken from the receiver in its order; the requests of each
  form an open run of it, so of the gateway task, the message or the refund that it is about;
  nothing else is asked; an id is recorded only once its task and all earlier ones are done,
  and the storage holds the last one recorded.
\<close>

theorem tasks_in_company:
  fixes s s' :: "('w, bytes) pusher_world"
  assumes "task_run (new_steps cfg nd sn rt sdk libs codec fuel) md (memmap_tasks os) (Going rx 0 [], s) evs (ph, s')"
    and "length (task_store s) = state_len"
  shows "let p = new_steps cfg nd sn rt sdk libs codec fuel :: ('w, ('w, bytes) pusher_world) pusher_steps;
      tasks = received (loop_events evs) in
    (\<exists>rest. handed_over rx = tasks @ rest) \<and>
    (\<exists>zs m. member_runs p md evs tasks zs \<and> recorded_so_far evs tasks zs m) \<and>
    (\<forall>j < length tasks. task_asked p md (tasks ! j) (asked_by j evs)) \<and>
    wire s' = wire s @ requested evs \<and>
    latest_processed_task_id (task_store s') =
      (if recorded_ids (loop_events evs) = [] then latest_processed_task_id (task_store s)
       else Inr (as_option (last (recorded_ids (loop_events evs)))))"
proof -
  let ?p = "new_steps cfg nd sn rt sdk libs codec fuel :: ('w, ('w, bytes) pusher_world) pusher_steps"
  from run_tracks [OF assms(1)] obtain n q where "tracks ?p md evs n q" by blast
  from tracks_runs [OF this] obtain zs m where
    runs: "member_runs ?p md evs (received (loop_events evs)) zs" "recorded_so_far evs (received (loop_events evs)) zs m"
    by (elim exE conjE)
  have asked: "task_asked ?p md (received (loop_events evs) ! j) (asked_by j evs)" if "j < length (received (loop_events evs))" for j
    by (rule open_task) (use runs(1) that in \<open>auto simp: member_runs_def\<close>)
  have wire: "wire s' = wire s @ requested evs" and
    store: "task_store s' = fold (\<lambda>i m. snd (set_latest_processed_task_id os i m)) (recorded_ids (loop_events evs)) (task_store s)"
    using run_books [OF assms(1)] by (simp_all add: books_def memmap_tasks_def)
  show ?thesis unfolding Let_def
  proof (intro conjI)
    show "\<exists>rest. handed_over rx = received (loop_events evs) @ rest" using run_receives [OF assms(1)] by blast
    show "\<exists>zs m. member_runs ?p md evs (received (loop_events evs)) zs \<and> recorded_so_far evs (received (loop_events evs)) zs m"
      by (intro exI conjI) (rule runs)+
    show "\<forall>j < length (received (loop_events evs)). task_asked ?p md (received (loop_events evs) ! j) (asked_by j evs)"
      by (intro allI impI asked)
    show "latest_processed_task_id (task_store s') =
      (if recorded_ids (loop_events evs) = [] then latest_processed_task_id (task_store s)
       else Inr (as_option (last (recorded_ids (loop_events evs)))))"
      using last_recorded [OF assms(2), of "recorded_ids (loop_events evs)" os] by (simp add: store del: as_option.simps)
  qed (rule wire)
qed

lemma tasks_in_company_witness:
  "\<exists>evs s'. task_run loop_steps in_turn_metadata (memmap_tasks fair_os) (Going [Item task_message, Item task_gateway, Ended] 0 [], loop_start)
       evs (Ceased (msg_fault ''fatal error''), s') \<and>
     task_asked loop_steps in_turn_metadata task_message (asked_by 0 evs) \<and> task_asked loop_steps in_turn_metadata task_gateway (asked_by 1 evs) \<and>
     wire s' = requested evs \<and> latest_processed_task_id (task_store s') = Inr (Some 8)"
proof -
  obtain evs s' where run: "task_run loop_steps in_turn_metadata (memmap_tasks fair_os)
      (Going [Item task_message, Item task_gateway, Ended] 0 [], loop_start) evs (Ceased (msg_fault ''fatal error''), s')"
    and evs: "loop_events evs = company_trace" using company_run by blast
  have tasks: "received company_trace = [task_message, task_gateway]" "recorded_ids company_trace = [7, 8]"
    by (simp_all add: company_trace_def)
  have "length (task_store loop_start) = state_len" by (simp add: loop_start_def)
  note * = tasks_in_company [OF run this, unfolded Let_def evs tasks]
  then have "task_asked loop_steps in_turn_metadata task_message (asked_by 0 evs)" "task_asked loop_steps in_turn_metadata task_gateway (asked_by 1 evs)"
    by (auto simp: All_less_Suc2 numeral_2_eq_2)
  with * run show ?thesis by (intro exI [of _ evs] exI [of _ s']) (simp add: loop_start_def)
qed



end
