(* ===== verification/ChunkSize.thy ===== *)
theory ChunkSize
  imports MessagePayload
begin

text \<open>
  How \<open>MAX_CHUNK_SIZE\<close> of
  \<open>crates/solana-gateway-task-processor/src/component/message_payload.rs\<close> is initialised: the
  size of a transaction that writes an empty chunk is measured, and what is left of a packet,
  less a fixed reserve, is the size of a chunk. The serializer of the Solana SDK is the record
  \<open>tx_format\<close>, and what is documented of it, of the compute budget instructions and of the
  builder of the write instruction are the hypotheses \<open>compact_format\<close>, \<open>budget_format\<close> and
  \<open>write_format\<close>. The property says that every chunk fits into its packet, and where the reserve
  goes.
\<close>

section \<open>Definitions\<close>

text \<open>
  \<open>format_signers\<close> is \<open>header.num_required_signatures\<close> of a compiled message, \<open>format_size\<close> is
  \<open>bincode::serialized_size\<close> of a message with that many signatures.
\<close>

record tx_format =
  format_signers :: "transaction \<Rightarrow> nat"
  format_size :: "nat \<Rightarrow> transaction \<Rightarrow> eyre + u64"

definition baseline_tx :: "sdk \<Rightarrow> pubkey \<Rightarrow> instruction \<Rightarrow> transaction" where
  "baseline_tx sdk random_pubkey write_instruction =
     \<lparr>tx_ixs = [cu_limit_ix sdk 1400000, cu_price_ix sdk 1000, write_instruction],
      tx_payer = random_pubkey, tx_hash = 0\<rparr>"

text \<open>
  One random key stands for the gateway root, for the authority that pays, and for the command.
  Subtraction on \<open>nat\<close> is \<open>saturating_sub\<close>, and \<open>usize\<close> has 64 bits.
\<close>

definition init_max_chunk_size ::
  "sdk \<Rightarrow> tx_format \<Rightarrow> 'w gateway_libs \<Rightarrow> pubkey \<Rightarrow> fault + nat" where
  "init_max_chunk_size sdk fmt libs random_pubkey =
     (case write_message_payload libs random_pubkey random_pubkey random_pubkey [] 0 of
        Inl e \<Rightarrow> Inl (Panic ''Failed to create baseline WriteMessagePayload instruction'')
      | Inr write_instruction \<Rightarrow>
          let tx = baseline_tx sdk random_pubkey write_instruction
          in case format_size fmt (format_signers fmt tx) tx of
               Inl e \<Rightarrow> Inl (Panic ''Failed to serialize transaction'')
             | Inr tx_size \<Rightarrow>
                 let additional_overhead = 35
                 in Inr (packet_size libs - unat tx_size - 1 - additional_overhead))"

section \<open>The documented formats\<close>

text \<open>Lengths are encoded in seven bits per byte.\<close>

definition compact_len :: "nat \<Rightarrow> nat" where
  "compact_len n = (if n < 128 then 1 else if n < 16384 then 2 else 3)"

lemma compact_len_Suc_le: "compact_len (Suc n) \<le> Suc (compact_len n)"
  by (simp add: compact_len_def)

lemma compact_len_le_2: "n < 16384 \<Longrightarrow> compact_len n \<le> 2"
  by (simp add: compact_len_def)

lemma compact_len_pos: "0 < compact_len n"
  by (simp add: compact_len_def)

definition ix_keys :: "instruction \<Rightarrow> pubkey set" where
  "ix_keys ix = insert (ix_program ix) (set (map am_pubkey (ix_metas ix)))"

definition tx_keys :: "transaction \<Rightarrow> pubkey set" where
  "tx_keys tx = insert (tx_payer tx) (\<Union> (set (map ix_keys (tx_ixs tx))))"

definition tx_signers :: "transaction \<Rightarrow> pubkey set" where
  "tx_signers tx =
     insert (tx_payer tx) (set (concat (map (\<lambda>ix. map am_pubkey (filter am_signer (ix_metas ix))) (tx_ixs tx))))"

definition ix_size :: "instruction \<Rightarrow> nat" where
  "ix_size ix =
     1 + compact_len (length (ix_metas ix)) + length (ix_metas ix) +
     compact_len (length (ix_data ix)) + length (ix_data ix)"

text \<open>
  Signatures of 64 bytes; then a header of three bytes, every distinct key once, the blockhash,
  and the instructions, which refer to keys by a byte.
\<close>

definition tx_bytes :: "nat \<Rightarrow> transaction \<Rightarrow> nat" where
  "tx_bytes signers tx =
     compact_len signers + 64 * signers + 3 +
     compact_len (card (tx_keys tx)) + 32 * card (tx_keys tx) + 32 +
     compact_len (length (tx_ixs tx)) + sum_list (map ix_size (tx_ixs tx))"

definition compact_format :: "tx_format \<Rightarrow> bool" where
  "compact_format fmt \<longleftrightarrow>
     (\<forall>tx. card (tx_signers tx) < 128 \<longrightarrow> format_signers fmt tx = card (tx_signers tx)) \<and>
     (\<forall>n tx n_bytes. format_size fmt n tx = Inr n_bytes \<longrightarrow> unat n_bytes = tx_bytes n tx)"

text \<open>The two compute budget instructions name no account and have data of a fixed size.\<close>

definition budget_format :: "sdk \<Rightarrow> pubkey \<Rightarrow> nat \<Rightarrow> nat \<Rightarrow> bool" where
  "budget_format sdk program limit_len price_len \<longleftrightarrow>
     (\<forall>u. ix_program (cu_limit_ix sdk u) = program \<and> ix_metas (cu_limit_ix sdk u) = [] \<and>
        length (ix_data (cu_limit_ix sdk u)) = limit_len) \<and>
     (\<forall>u. ix_program (cu_price_ix sdk u) = program \<and> ix_metas (cu_price_ix sdk u) = [] \<and>
        length (ix_data (cu_price_ix sdk u)) = price_len)"

text \<open>
  An instruction that writes a chunk names the gateway root, the authority, addresses derived
  from the authority and the command, and fixed addresses; only the authority signs; its data is
  a header of a fixed size and the chunk.
\<close>

datatype key_slot = RootKey | AuthorityKey | DerivedKey nat | FixedKey pubkey

type_synonym derived_keys = "nat \<Rightarrow> pubkey \<Rightarrow> hash256 \<Rightarrow> pubkey"

primrec slot_key :: "derived_keys \<Rightarrow> pubkey \<Rightarrow> pubkey \<Rightarrow> hash256 \<Rightarrow> key_slot \<Rightarrow> pubkey" where
  "slot_key derive root authority cmd RootKey = root"
| "slot_key derive root authority cmd AuthorityKey = authority"
| "slot_key derive root authority cmd (DerivedKey i) = derive i authority cmd"
| "slot_key derive root authority cmd (FixedKey k) = k"

record write_layout =
  wl_program :: pubkey
  wl_slots :: "(key_slot \<times> bool \<times> bool) list"
  wl_derive :: derived_keys
  wl_header :: nat

definition laid_out :: "write_layout \<Rightarrow> pubkey \<Rightarrow> pubkey \<Rightarrow> hash256 \<Rightarrow> bytes \<Rightarrow> instruction \<Rightarrow> bool" where
  "laid_out lay root authority cmd chunk ix \<longleftrightarrow>
     ix_program ix = wl_program lay \<and>
     ix_metas ix = map (\<lambda>(sl, signer, writable).
       \<lparr>am_pubkey = slot_key (wl_derive lay) root authority cmd sl, am_signer = signer, am_writable = writable\<rparr>)
       (wl_slots lay) \<and>
     length (ix_data ix) = wl_header lay + length chunk"

definition write_format :: "write_layout \<Rightarrow> 'w gateway_libs \<Rightarrow> bool" where
  "write_format lay libs \<longleftrightarrow>
     list_all (\<lambda>(sl, signer, writable). signer \<longrightarrow> sl = AuthorityKey) (wl_slots lay) \<and>
     (\<forall>root authority cmd chunk off ix.
        write_message_payload libs root authority cmd chunk off = Inr ix \<longrightarrow> laid_out lay root authority cmd chunk ix)"

text \<open>The keys of a write, and a random key with which none of them but the root coincide.\<close>

definition write_slots :: "write_layout \<Rightarrow> pubkey \<Rightarrow> key_slot set" where
  "write_slots lay budget_program =
     {AuthorityKey, FixedKey budget_program, FixedKey (wl_program lay)} \<union> fst ` set (wl_slots lay)"

definition fresh_key :: "write_layout \<Rightarrow> pubkey \<Rightarrow> pubkey \<Rightarrow> bool" where
  "fresh_key lay budget_program r \<longleftrightarrow>
     inj_on (slot_key (wl_derive lay) r r r) (write_slots lay budget_program - {RootKey})"

section \<open>The size of a write\<close>

text \<open>The transaction of a write, whatever it sets the compute budget and the price to.\<close>

definition write_tx :: "sdk \<Rightarrow> pubkey \<Rightarrow> instruction \<Rightarrow> transaction \<Rightarrow> bool" where
  "write_tx sdk payer ix tx \<longleftrightarrow>
     tx_payer tx = payer \<and>
     (\<exists>limit price. tx_ixs tx = [cu_limit_ix sdk limit, cu_price_ix sdk price, ix] \<or>
        tx_ixs tx = [cu_price_ix sdk price, cu_limit_ix sdk limit, ix])"

lemma carries_write_tx: "carries sdk kp [ix] tx \<Longrightarrow> write_tx sdk kp ix tx"
  by (auto simp: carries_def write_tx_def)

lemma baseline_write_tx: "write_tx sdk r ix (baseline_tx sdk r ix)"
  by (auto simp: baseline_tx_def write_tx_def)

lemma laid_out_keys:
  "laid_out lay root payer cmd chunk ix \<Longrightarrow>
   am_pubkey ` set (ix_metas ix) = slot_key (wl_derive lay) root payer cmd ` fst ` set (wl_slots lay)"
  by (simp add: laid_out_def image_image split_beta)

lemma write_tx_keys:
  assumes "budget_format sdk budget lim pri" and "laid_out lay root payer cmd chunk ix" and "write_tx sdk payer ix tx"
  shows "tx_keys tx = slot_key (wl_derive lay) root payer cmd ` write_slots lay budget"
proof -
  have "ix_program ix = wl_program lay" using assms(2) by (simp add: laid_out_def)
  with assms(1,3) have "tx_keys tx = {payer, budget, wl_program lay} \<union> am_pubkey ` set (ix_metas ix)"
    by (auto simp: tx_keys_def ix_keys_def write_tx_def budget_format_def)
  then show ?thesis by (simp add: laid_out_keys [OF assms(2)] write_slots_def image_Un)
qed

lemma write_tx_signers:
  assumes "budget_format sdk budget lim pri" and "laid_out lay root payer cmd chunk ix" and "write_tx sdk payer ix tx"
    and "list_all (\<lambda>(sl, signer, writable). signer \<longrightarrow> sl = AuthorityKey) (wl_slots lay)"
  shows "tx_signers tx = {payer}"
  using assms
  by (fastforce simp: tx_signers_def write_tx_def budget_format_def laid_out_def list_all_iff)

lemma write_tx_bytes:
  assumes "budget_format sdk budget lim pri" and "laid_out lay root payer cmd chunk ix" and "write_tx sdk payer ix tx"
  shows "tx_bytes 1 tx =
     106 + compact_len (card (tx_keys tx)) + 32 * card (tx_keys tx) + compact_len lim + lim + compact_len pri + pri +
     compact_len (length (wl_slots lay)) + length (wl_slots lay) +
     compact_len (wl_header lay + length chunk) + wl_header lay + length chunk"
  using assms
  by (auto simp: tx_bytes_def write_tx_def ix_size_def budget_format_def laid_out_def compact_len_def [of 0]
      compact_len_def [of "Suc 0"] compact_len_def [of "Suc (Suc (Suc 0))"])

text \<open>Any write has at most one key more than the baseline, in which root and authority coincide.\<close>

lemma keys_vs_baseline:
  assumes "fresh_key lay budget r"
  shows "card (slot_key d root payer cmd ` write_slots lay budget) \<le>
    Suc (card (slot_key (wl_derive lay) r r r ` write_slots lay budget))"
proof -
  let ?K = "write_slots lay budget"
  have fin: "finite ?K" by (simp add: write_slots_def)
  have "card (slot_key d root payer cmd ` ?K) \<le> card ?K" using fin by (rule card_image_le)
  also have "\<dots> \<le> Suc (card (?K - {RootKey}))" using fin by (metis card_Diff1_le card.infinite card_Suc_Diff1 card_Diff_singleton_if le_SucI order_refl Suc_pred)
  also have "card (?K - {RootKey}) = card (slot_key (wl_derive lay) r r r ` (?K - {RootKey}))"
    using assms by (simp add: fresh_key_def card_image)
  also have "\<dots> \<le> card (slot_key (wl_derive lay) r r r ` ?K)"
    using fin by (intro card_mono) auto
  finally show ?thesis by simp
qed

lemma write_tx_fits:
  assumes fmt: "compact_format fmt" "budget_format sdk budget lim pri" "write_format lay libs"
    and fresh: "fresh_key lay budget r" and packet: "packet_size libs = 1232"
    and init: "init_max_chunk_size sdk fmt libs r = Inr (max_chunk_size libs)"
    and ix: "write_message_payload libs root kp cmd chunk off = Inr ix"
    and chunk: "chunk \<noteq> []" "length chunk \<le> max_chunk_size libs"
    and tx: "carries sdk kp [ix] tx" and size: "format_size fmt (format_signers fmt tx) tx = Inr k"
  shows "unat k + 3 \<le> packet_size libs"
proof -
  obtain ix0 n where ix0: "write_message_payload libs r r r [] 0 = Inr ix0"
    and n: "format_size fmt (format_signers fmt (baseline_tx sdk r ix0)) (baseline_tx sdk r ix0) = Inr n"
    and max: "max_chunk_size libs = packet_size libs - unat n - 36"
    using init by (auto simp: init_max_chunk_size_def Let_def split: sum.splits)
  let ?tx0 = "baseline_tx sdk r ix0"
  from fmt(3) ix0 ix have lay0: "laid_out lay r r r [] ix0" and lay1: "laid_out lay root kp cmd chunk ix"
    and signs: "list_all (\<lambda>(sl, signer, writable). signer \<longrightarrow> sl = AuthorityKey) (wl_slots lay)"
    by (auto simp: write_format_def)
  note w0 = fmt(2) lay0 baseline_write_tx [of sdk r ix0] and w1 = fmt(2) lay1 carries_write_tx [OF tx]
  from write_tx_signers [OF w0 signs] write_tx_signers [OF w1 signs] fmt(1)
  have "format_signers fmt ?tx0 = 1" "format_signers fmt tx = 1" by (auto simp: compact_format_def)
  with n size fmt(1) have n': "unat n = tx_bytes 1 ?tx0" and size': "unat k = tx_bytes 1 tx"
    by (auto simp: compact_format_def)
  have keys: "card (tx_keys tx) \<le> Suc (card (tx_keys ?tx0))"
    using keys_vs_baseline [OF fresh] by (simp add: write_tx_keys [OF w0] write_tx_keys [OF w1])
  from chunk max packet have room: "unat n + 36 + length chunk \<le> 1232" by (cases chunk) auto
  then have "card (tx_keys ?tx0) \<le> 38" and "wl_header lay + length chunk < 16384"
    unfolding n' write_tx_bytes [OF w0] by simp_all
  with keys have "compact_len (card (tx_keys tx)) = compact_len (card (tx_keys ?tx0))"
    and "compact_len (wl_header lay + length chunk) \<le> Suc (compact_len (wl_header lay))"
    by (auto simp: compact_len_def)
  with keys have "tx_bytes 1 tx \<le> tx_bytes 1 ?tx0 + length chunk + 33"
    unfolding write_tx_bytes [OF w0] write_tx_bytes [OF w1] by simp
  with room n' size' packet show ?thesis by simp
qed

section \<open>Every chunk fits into its packet\<close>

definition writes_chunk :: "'w gateway_libs \<Rightarrow> pubkey \<Rightarrow> hash256 \<Rightarrow> instruction list \<Rightarrow> bool" where
  "writes_chunk libs kp cmd ixs \<longleftrightarrow>
     (\<exists>ix chunk off. ixs = [ix] \<and> write_message_payload libs (gateway_root libs) kp cmd chunk off = Inr ix \<and>
        chunk \<noteq> [] \<and> length chunk \<le> max_chunk_size libs)"

lemma chunks_with_offset_sizes:
  assumes "chunks_with_offset data n = Inr cs" and "(c, off) \<in> set cs"
  shows "c \<noteq> [] \<and> length c \<le> n"
proof -
  from assms have "c \<in> snd ` set (enumerate 0 (chunks n data))"
    by (force simp: chunks_with_offset_def split: if_splits)
  then have "c \<in> set (chunks n data)" by (auto simp: in_set_enumerate_eq)
  then show ?thesis by (rule chunks_sizes)
qed

lemma write_ixs_chunk:
  assumes "chunks_with_offset data (max_chunk_size libs) = Inr cs" and "write_ixs libs kp cmd cs = Inr ixs"
    and "(offset, ix) \<in> set ixs"
  shows "writes_chunk libs kp cmd [ix]"
proof -
  from assms(3) obtain i where i: "i < length ixs" "ixs ! i = (offset, ix)" by (auto simp: in_set_conv_nth)
  have len: "length cs = length ixs" using list_all2_lengthD [OF write_ixs_ok [OF assms(2)]] .
  obtain b off where w: "cs ! i = (b, off)" by fastforce
  with i len have "(b, off) \<in> set cs" by (metis nth_mem)
  from chunks_with_offset_sizes [OF assms(1) this] list_all2_nthD2 [OF write_ixs_ok [OF assms(2)] i(1)] i(2) w
  show ?thesis by (auto simp: writes_chunk_def)
qed

context tx_sender
begin

lemma write_chunks_only:
  "issues (sends_only tag carrying (writes_chunk libs kp cmd)) (write_chunks send libs rt kp cmd payload)"
proof -
  have ix: "issues (sends_only tag carrying (writes_chunk libs kp cmd)) (send_gateway_tx send libs ix)"
    if "liftE (chunks_with_offset payload (max_chunk_size libs)) s0 = (Inr cs, s0')"
      "liftE (write_ixs libs kp cmd cs) s = (Inr ixs, s')" "(offset, ix) \<in> set ixs"
    for cs s s0 s0' ixs s' offset ix
  proof -
    from that(1,2) have "chunks_with_offset payload (max_chunk_size libs) = Inr cs" "write_ixs libs kp cmd cs = Inr ixs"
      by (auto simp: liftE_def split: sum.splits)
    from gateway_tx_only [of "writes_chunk libs kp cmd", OF write_ixs_chunk [OF this that(3)]] show ?thesis .
  qed
  show ?thesis unfolding write_chunks_def write_one_def
    by (intro grow.bind grow.lift grow.bind_ok [OF grow.lift] grow.try_all moves_prod grow.ret issues_with_context)
      (auto dest: ix)
qed

end

section \<open>Properties\<close>

text \<open>
  C31. Whatever comes of writing the chunks of a payload, each transaction that was sent for it
  fits into a packet, and leaves three bytes of it unused. So of the reserve of 36 bytes, 33 are
  used: the baseline pays with the key that it also names as the gateway root, so it measures
  one key of 32 bytes less than a write has, and the length of the data may take one byte more.
\<close>

theorem chunk_txs_fit:
  assumes "compact_format fmt" and "budget_format sdk budget limit_len price_len" and "write_format lay libs"
    and "fresh_key lay budget random" and "packet_size libs = 1232"
    and "init_max_chunk_size sdk fmt libs random = Inr (max_chunk_size libs)"
    and "write_chunks (send_transaction sdk rt nd kp) libs rt kp cmd payload s = (r, s')"
  shows "\<exists>txs. sent (node_tag nd) s' = sent (node_tag nd) s @ txs \<and>
     (\<forall>tx \<in> set txs. \<forall>k. format_size fmt (format_signers fmt tx) tx = Inr k \<longrightarrow>
        unat k + 3 \<le> packet_size libs)"
proof -
  from sends_only_run [OF es.write_chunks_only assms(7)] obtain txs
    where txs: "sent (node_tag nd) s' = sent (node_tag nd) s @ txs"
    and all: "list_all (\<lambda>t. \<exists>ixs. writes_chunk libs kp cmd ixs \<and> carries sdk kp ixs t) txs" by blast
  have "unat k + 3 \<le> packet_size libs"
    if tx: "tx \<in> set txs" and k: "format_size fmt (format_signers fmt tx) tx = Inr k" for tx k
  proof -
    from all tx obtain ix chunk off where "carries sdk kp [ix] tx" "chunk \<noteq> []" "length chunk \<le> max_chunk_size libs"
      "write_message_payload libs (gateway_root libs) kp cmd chunk off = Inr ix"
      by (auto simp: list_all_iff writes_chunk_def)
    with write_tx_fits [OF assms(1-6)] k show ?thesis by blast
  qed
  with txs show ?thesis by blast
qed

text \<open>
  A builder of write instructions that names the root, the authority and one derived address,
  with a byte in front of the chunk. A chunk of the full size makes a transaction of 1229 bytes.
\<close>

definition sample_layout :: write_layout where
  "sample_layout =
     \<lparr>wl_program = 13, wl_slots = [(RootKey, False, False), (AuthorityKey, True, True), (DerivedKey 0, False, True)],
      wl_derive = (\<lambda>i authority cmd. authority + 1), wl_header = 1\<rparr>"

definition sized_gateway :: "nat gateway_libs" where
  "sized_gateway = sample_gateway
     \<lparr>packet_size := 1232, baseline_tx_size := 247,
      write_message_payload := (\<lambda>root authority cmd chunk off. Inr
        \<lparr>ix_program = 13,
         ix_metas = [\<lparr>am_pubkey = root, am_signer = False, am_writable = False\<rparr>,
           \<lparr>am_pubkey = authority, am_signer = True, am_writable = True\<rparr>,
           \<lparr>am_pubkey = authority + 1, am_signer = False, am_writable = True\<rparr>],
         ix_data = 2 # chunk\<rparr>)\<rparr>"

definition sample_format :: tx_format where
  "sample_format =
     \<lparr>format_signers = (\<lambda>tx. card (tx_signers tx)),
      format_size = (\<lambda>n tx. if tx_bytes n tx < 2 ^ 64 then Inr (of_nat (tx_bytes n tx)) else Inl (Msg ''too long''))\<rparr>"

lemma sample_compact: "compact_format sample_format"
  by (auto simp: compact_format_def sample_format_def unat_of_nat split: if_splits)

lemma sample_budget: "budget_format decimal_sdk 1 2 2"
  by (simp add: budget_format_def decimal_sdk_def)

lemma sample_write: "write_format sample_layout sized_gateway"
  by (simp add: write_format_def sample_layout_def sized_gateway_def laid_out_def)

lemma sample_max_chunk: "max_chunk_size sized_gateway = 949"
  by (simp add: max_chunk_size_def sized_gateway_def)

lemma sample_fresh: "fresh_key sample_layout 1 99"
  by (auto simp: fresh_key_def sample_layout_def write_slots_def inj_on_def)

lemma sample_init: "init_max_chunk_size decimal_sdk sample_format sized_gateway 99 = Inr 949"
proof -
  obtain ix where ix: "write_message_payload sized_gateway 99 99 99 [] 0 = Inr ix"
    by (simp add: sized_gateway_def)
  let ?tx = "baseline_tx decimal_sdk 99 ix"
  from sample_write ix have lay: "laid_out sample_layout 99 99 99 [] ix"
    and signs: "list_all (\<lambda>(sl, signer, writable). signer \<longrightarrow> sl = AuthorityKey) (wl_slots sample_layout)"
    by (auto simp: write_format_def)
  note w = sample_budget lay baseline_write_tx
  from write_tx_bytes [OF w] have "tx_bytes 1 ?tx = 247"
    by (simp add: write_tx_keys [OF w] sample_layout_def write_slots_def compact_len_def card_insert_if)
  then show ?thesis
    by (simp add: init_max_chunk_size_def ix sample_format_def write_tx_signers [OF w signs])
      (simp add: sized_gateway_def)
qed

lemma full_chunk_size:
  assumes "write_message_payload sized_gateway 16 5 cmd (replicate 949 0) off = Inr ix" and "carries decimal_sdk 5 [ix] tx"
  shows "tx_bytes 1 tx = 1229"
  using assms
  by (auto simp: sized_gateway_def sample_gateway_def carries_def decimal_sdk_def tx_bytes_def tx_keys_def
      ix_keys_def ix_size_def compact_len_def card_insert_if)

lemma chunk_txs_fit_witness:
  "\<exists>s' txs. write_chunks (send_transaction decimal_sdk counting_runtime (quiet_node MainNode) 5) sized_gateway
       counting_runtime 5 7 [1, 2, 3] start_world = (Inr (), s') \<and> sent MainNode s' = txs \<and>
     (\<forall>tx \<in> set txs. \<forall>k. format_size sample_format (format_signers sample_format tx) tx = Inr k \<longrightarrow>
        unat k + 3 \<le> 1232)"
proof -
  have "\<exists>s'. write_chunks (send_transaction decimal_sdk counting_runtime (quiet_node MainNode) 5) sized_gateway
      counting_runtime 5 7 [1, 2, 3] start_world = (Inr (), s')"
    by (rule write_chunks_succeeds) (auto simp: ledger_gateway_tx sample_max_chunk, simp add: sized_gateway_def)
  then obtain s' where run: "write_chunks (send_transaction decimal_sdk counting_runtime (quiet_node MainNode) 5)
      sized_gateway counting_runtime 5 7 [1, 2, 3] start_world = (Inr (), s')" by blast
  have packet: "packet_size sized_gateway = 1232" by (simp add: sized_gateway_def)
  from chunk_txs_fit [OF sample_compact sample_budget sample_write sample_fresh packet
      sample_init [folded sample_max_chunk] run] run show ?thesis
    by (auto simp: packet sent_def)
qed

end
