(* ===== verification/Xtask.thy ===== *)
theory Xtask
  imports Prelude
begin

text \<open>
  \<open>xtask/src/main.rs\<close>: the developer commands of the repository. A subcommand is a script of
  steps, each printing a line, setting a variable of the shell's environment, or running a
  program; the first program that fails ends the command. The programs are a parameter; a
  command line is the list of its words, as \<open>cmd!\<close> splits it, with the arguments of the
  subcommand spliced in. \<open>option_env!("CI")\<close> and the target's operating system are fixed when the
  tool is compiled and are the record \<open>xtask_build\<close>.
\<close>

section \<open>Definitions\<close>

datatype xtask_command =
    Deny "string list"
  | Test bool "string list"
  | Check
  | Fmt
  | Doc
  | UnusedDeps

datatype target_os = Macos | Linux | OtherOs

record xtask_build =
  xb_ci :: bool
  xb_os :: target_os

datatype script_step =
    Println string
  | SetVar string string
  | Cmd "string list"

text \<open>Opening a generated page, on a developer's machine only.\<close>

definition open_page :: "xtask_build \<Rightarrow> string \<Rightarrow> script_step list" where
  "open_page b page =
     (if xb_ci b then []
      else case xb_os b of
             Macos \<Rightarrow> [Cmd [''open'', page]]
           | Linux \<Rightarrow> [Cmd [''xdg-open'', page]]
           | OtherOs \<Rightarrow> [])"

definition coverage_vars :: "(string \<times> string) list" where
  "coverage_vars =
     [(''CARGO_INCREMENTAL'', ''0''), (''RUSTFLAGS'', ''-Cinstrument-coverage''),
      (''LLVM_PROFILE_FILE'', ''target/coverage/%p-%m.profraw'')]"

fun script_of :: "xtask_build \<Rightarrow> xtask_command \<Rightarrow> script_step list" where
  "script_of b (Deny args) =
     [Println ''cargo deny'', Cmd [''cargo'', ''+nightly'', ''install'', ''cargo-deny''],
      Cmd ([''cargo'', ''deny'', ''check''] @ args)]"
| "script_of b (Test coverage args) =
     [Println ''cargo test'',
      Cmd [''cargo'', ''install'', ''cargo-nextest'', ''--version'', ''0.9.96'', ''--locked'']] @
     (if coverage
      then Cmd [''cargo'', ''install'', ''grcov''] # map (\<lambda>(key, val). SetVar key val) coverage_vars
      else []) @
     [Cmd ([''cargo'', ''nextest'', ''run'', ''--workspace'', ''--tests'', ''--all-targets'', ''--no-fail-fast''] @ args)] @
     (if coverage
      then [Cmd [''mkdir'', ''-p'', ''target/coverage''],
            Cmd [''grcov'', ''.'', ''--binary-path'', ''./target/debug/deps/'', ''-s'', ''.'', ''-t'',
                 ''html,cobertura'', ''--branch'', ''--ignore-not-existing'', ''--ignore'', ''../*'',
                 ''--ignore'', ''/*'', ''-o'', ''target/coverage/'']] @
           open_page b ''target/coverage/html/index.html''
      else [])"
| "script_of b Check =
     [Println ''cargo check'',
      Cmd [''cargo'', ''clippy'', ''--workspace'', ''--locked'', ''--'', ''-D'', ''warnings''],
      Cmd [''cargo'', ''fmt'', ''--all'', ''--check'']]"
| "script_of b Fmt =
     [Println ''cargo fix'',
      Cmd [''cargo'', ''fmt'', ''--all''],
      Cmd [''cargo'', ''fix'', ''--allow-dirty'', ''--allow-staged'', ''--workspace'', ''--tests''],
      Cmd [''cargo'', ''clippy'', ''--fix'', ''--allow-dirty'', ''--allow-staged'', ''--workspace'', ''--tests'']]"
| "script_of b Doc =
     [Println ''cargo doc'', Cmd [''cargo'', ''doc'', ''--workspace'', ''--no-deps'']] @
     open_page b ''target/doc/relayer/index.html''"
| "script_of b UnusedDeps =
     [Println ''unused deps'', Cmd [''cargo'', ''+nightly'', ''install'', ''cargo-machete''],
      Cmd [''cargo-machete'']]"

text \<open>
  The shell: its environment, and what it has printed and run, each command line with the
  environment it runs in. \<open>tool\<close> says what a program answers on the machine's state.
\<close>

record 'm shell =
  sh_vars :: "string \<Rightarrow> string option"
  sh_out :: "string list"
  sh_ran :: "(string list \<times> (string \<Rightarrow> string option)) list"
  sh_machine :: 'm

type_synonym 'm tools = "string list \<Rightarrow> (string \<Rightarrow> string option) \<Rightarrow> 'm \<Rightarrow> (string + unit) \<times> 'm"

fun run_step :: "'m tools \<Rightarrow> script_step \<Rightarrow> (string, 'm shell, unit) io" where
  "run_step tool (Println line) s = (Inr (), s\<lparr>sh_out := sh_out s @ [line]\<rparr>)"
| "run_step tool (SetVar key val) s = (Inr (), s\<lparr>sh_vars := (sh_vars s)(key \<mapsto> val)\<rparr>)"
| "run_step tool (Cmd words) s =
     (case tool words (sh_vars s) (sh_machine s) of
        (r, m) \<Rightarrow> (r, s\<lparr>sh_ran := sh_ran s @ [(words, sh_vars s)], sh_machine := m\<rparr>))"

fun run_script :: "'m tools \<Rightarrow> script_step list \<Rightarrow> (string, 'm shell, unit) io" where
  "run_script tool [] = retE ()"
| "run_script tool (st # sts) = bindE (run_step tool st) (\<lambda>_. run_script tool sts)"

text \<open>\<open>main\<close>: error reports, the shell, the arguments, then the script of the subcommand.\<close>

definition xtask_main ::
  "xtask_build \<Rightarrow> 'm tools \<Rightarrow> string + unit \<Rightarrow> string + 'm shell \<Rightarrow> xtask_command
     \<Rightarrow> (string + unit) \<times> 'm shell option" where
  "xtask_main b tool color_eyre new_shell command =
     (case color_eyre of
        Inl e \<Rightarrow> (Inl e, None)
      | Inr _ \<Rightarrow>
          (case new_shell of
             Inl e \<Rightarrow> (Inl e, None)
           | Inr sh \<Rightarrow> (case run_script tool (script_of b command) sh of (r, sh') \<Rightarrow> (r, Some sh'))))"

section \<open>What a script runs\<close>

text \<open>The command lines of a script with the environment each of them sees.\<close>

fun commands_of :: "(string \<Rightarrow> string option) \<Rightarrow> script_step list \<Rightarrow> (string list \<times> (string \<Rightarrow> string option)) list" where
  "commands_of vars [] = []"
| "commands_of vars (Println line # sts) = commands_of vars sts"
| "commands_of vars (SetVar key val # sts) = commands_of (vars(key \<mapsto> val)) sts"
| "commands_of vars (Cmd words # sts) = (words, vars) # commands_of vars sts"

text \<open>The answers of the programs, run one after the other from a state of the machine.\<close>

fun tool_answers :: "'m tools \<Rightarrow> (string list \<times> (string \<Rightarrow> string option)) list \<Rightarrow> 'm \<Rightarrow> (string + unit) list" where
  "tool_answers tool [] m = []"
| "tool_answers tool ((words, vars) # cs) m =
     (case tool words vars m of (r, m') \<Rightarrow> r # tool_answers tool cs m')"

lemma length_tool_answers [simp]: "length (tool_answers tool cs m) = length cs"
  by (induction tool cs m rule: tool_answers.induct) (auto split: prod.splits)

text \<open>A script runs its commands in order up to and including the first that fails.\<close>

definition script_result :: "string + unit \<Rightarrow> 'c list \<Rightarrow> (string + unit) list \<Rightarrow> 'c list \<Rightarrow> bool" where
  "script_result r cs as runs \<longleftrightarrow>
     (case r of
        Inr _ \<Rightarrow> runs = cs \<and> set as \<subseteq> {Inr ()}
      | Inl e \<Rightarrow> \<exists>n < length cs. runs = take (Suc n) cs \<and> as ! n = Inl e \<and> set (take n as) \<subseteq> {Inr ()})"

lemma script_result_fails: "script_result (Inl e) (c # cs) (Inl e # as) [c]"
  by (auto simp: script_result_def intro!: exI [of _ 0])

lemma script_result_goes_on: "script_result r cs as runs \<Longrightarrow> script_result r (c # cs) (Inr () # as) (c # runs)"
  by (cases r) (fastforce simp: script_result_def)+

lemma run_script_outcome:
  assumes "run_script tool sts s = (r, s')"
  shows "\<exists>runs. sh_ran s' = sh_ran s @ runs \<and>
    script_result r (commands_of (sh_vars s) sts) (tool_answers tool (commands_of (sh_vars s) sts) (sh_machine s)) runs"
  using assms
proof (induction sts arbitrary: s)
  case Nil
  then show ?case by (auto simp: script_result_def)
next
  case (Cons st sts)
  show ?case
  proof (cases st)
    case (Cmd words)
    obtain q m where q: "tool words (sh_vars s) (sh_machine s) = (q, m)" by fastforce
    let ?s = "s\<lparr>sh_ran := sh_ran s @ [(words, sh_vars s)], sh_machine := m\<rparr>"
    show ?thesis
    proof (cases q)
      case (Inl e)
      with Cons.prems Cmd q have "r = Inl e" "s' = ?s" by (auto simp: bindE_def)
      with Cmd q Inl show ?thesis by (simp add: script_result_fails)
    next
      case (Inr u)
      with Cons.prems Cmd q have "run_script tool sts ?s = (r, s')" by (simp add: bindE_def)
      from Cons.IH [OF this] Cmd q Inr show ?thesis by (auto intro!: script_result_goes_on)
    qed
  next
    case (Println line)
    with Cons.IH [of "s\<lparr>sh_out := sh_out s @ [line]\<rparr>"] Cons.prems show ?thesis by (simp add: bindE_def)
  next
    case (SetVar key val)
    from Cons.prems SetVar have "run_script tool sts (s\<lparr>sh_vars := (sh_vars s)(key \<mapsto> val)\<rparr>) = (r, s')"
      by (simp add: bindE_def del: fun_upd_apply)
    from Cons.IH [OF this] SetVar show ?thesis by (simp del: fun_upd_apply)
  qed
qed

fun vars_after :: "(string \<Rightarrow> string option) \<Rightarrow> script_step list \<Rightarrow> string \<Rightarrow> string option" where
  "vars_after vars [] = vars"
| "vars_after vars (SetVar key val # sts) = vars_after (vars(key \<mapsto> val)) sts"
| "vars_after vars (_ # sts) = vars_after vars sts"

lemma commands_append: "commands_of vars (as @ bs) = commands_of vars as @ commands_of (vars_after vars as) bs"
  by (induction vars as rule: commands_of.induct) (simp_all del: fun_upd_apply)

definition with_coverage :: "(string \<Rightarrow> string option) \<Rightarrow> string \<Rightarrow> string option" where
  "with_coverage vars = vars ++ map_of coverage_vars"

section \<open>Properties\<close>

text \<open>
  A build task runs the commands of its script in order, up to and including the first that
  fails, whose error it returns; it succeeds exactly when all of them did. The tests see the
  variables of the coverage instrumentation exactly when coverage was asked for.
\<close>

theorem xtask_stops_at_failure:
  assumes "xtask_main b tool (Inr ()) (Inr sh) command = (r, Some sh')"
  shows "\<exists>runs. let cs = commands_of (sh_vars sh) (script_of b command) in
     sh_ran sh' = sh_ran sh @ runs \<and> script_result r cs (tool_answers tool cs (sh_machine sh)) runs \<and>
     (\<forall>coverage args. command = Test coverage args \<longrightarrow>
        ([''cargo'', ''nextest'', ''run'', ''--workspace'', ''--tests'', ''--all-targets'', ''--no-fail-fast''] @ args,
         if coverage then with_coverage (sh_vars sh) else sh_vars sh) \<in> set cs)"
proof -
  from assms have "run_script tool (script_of b command) sh = (r, sh')"
    by (auto simp: xtask_main_def split: prod.splits)
  from run_script_outcome [OF this] obtain runs where "sh_ran sh' = sh_ran sh @ runs"
    "script_result r (commands_of (sh_vars sh) (script_of b command))
       (tool_answers tool (commands_of (sh_vars sh) (script_of b command)) (sh_machine sh)) runs" by blast
  moreover have "vars(''CARGO_INCREMENTAL'' \<mapsto> ''0'', ''RUSTFLAGS'' \<mapsto> ''-Cinstrument-coverage'',
      ''LLVM_PROFILE_FILE'' \<mapsto> ''target/coverage/%p-%m.profraw'') = with_coverage vars" for vars
    by (auto simp: with_coverage_def coverage_vars_def fun_eq_iff map_add_def)
  ultimately show ?thesis
    by (intro exI [of _ runs]) (auto simp: commands_append coverage_vars_def Let_def simp del: fun_upd_apply)
qed

text \<open>A machine on which the second installation fails.\<close>

lemma xtask_stops_at_failure_witness:
  "\<exists>sh'. xtask_main \<lparr>xb_ci = True, xb_os = Linux\<rparr>
       (\<lambda>words vars m. (if ''grcov'' \<in> set words then Inl ''exit 101'' else Inr (), Suc m)) (Inr ())
       (Inr \<lparr>sh_vars = Map.empty, sh_out = [], sh_ran = [], sh_machine = 0\<rparr>) (Test True []) = (Inl ''exit 101'', Some sh') \<and>
     (\<exists>n. map fst (sh_ran sh') = map fst (take (Suc n)
        (commands_of Map.empty (script_of \<lparr>xb_ci = True, xb_os = Linux\<rparr> (Test True [])))))"
proof -
  let ?tool = "\<lambda>words vars (m :: nat). (if ''grcov'' \<in> set words then Inl ''exit 101'' else Inr (), Suc m)"
  let ?sh = "\<lparr>sh_vars = Map.empty, sh_out = [], sh_ran = [], sh_machine = 0\<rparr> :: nat shell"
  obtain sh' where run: "xtask_main \<lparr>xb_ci = True, xb_os = Linux\<rparr> ?tool (Inr ()) (Inr ?sh) (Test True []) =
      (Inl ''exit 101'', Some sh')"
    by (simp add: xtask_main_def bindE_def)
  from xtask_stops_at_failure [OF run] run show ?thesis by (auto simp: script_result_def Let_def)
qed

end
