(* ===== verification/Spec2Isabelle.thy ===== *)
theory Spec2Isabelle
  imports RelayerSystem TaskSteps ChunkSize Xtask
begin

text \<open>
  A verification development for the Axelar-Solana relayer (\<open>crates/\<close> of the repository).

  The program. The relayer runs five components concurrently. The \<^bold>\<open>listener\<close> watches the gateway and
  gas service programs on Solana: at start-up it pages through the transactions it missed, then it
  follows two websocket subscriptions, fetches each announced transaction and puts the successful
  ones on a channel. The \<^bold>\<open>event forwarder\<close> takes them from the channel, computes what they cost,
  has them parsed and publishes the events to the Amplifier component. The \<^bold>\<open>gateway task processor\<close>
  receives tasks from the Amplifier, sends the transactions they call for and reports failures. The
  Amplifier component and the engine are external crates; the \<^bold>\<open>REST service\<close> answers a health check.
  A memory-mapped file keeps the last processed signature and two task ids.

  Conventions. A fallible, stateful operation is a function from a state to a result and a state
  (\<open>io\<close> in Prelude); a result is an error on the left or a value on the right, and the errors of
  type \<open>fault\<close> (Chain) separate a returned report, a panic, and, in the model only, fuel that ran
  out. Code outside the repository is a parameter: an RPC client is the record \<open>node\<close> of functions
  on an opaque environment, with every request logged on the \<open>wire\<close>; the Solana SDK, the Axelar
  crates, the parsers of the forwarder, the file system and the choices of the async runtime are
  records too. What is assumed of them is written as a premise of the property and satisfied by
  concrete instances in the witnesses. Machine integers are words of their width, with saturating
  and checked operations as in the code; an id, a key or a signature is a word standing for its
  bytes.

  Theories and code.
  \<^item> Prelude: integers, the state-and-error monad, unordered sets of futures (\<open>FuturesUnordered\<close>,
    \<open>JoinSet\<close>) completed in an order the runtime picks, and \<open>state_order\<close>, the interface by which
    a relation between states is shown to hold along every computation.
  \<^item> Chain, Ledger, Instances: transactions, errors, nodes and requests; what a node that serves a
    ledger answers to a request for a page of signatures; concrete nodes for the witnesses.
  \<^item> EffectiveSender (\<open>effective-tx-sender\<close>): simulation, compute budget, unit price, sending. Its
    locale \<open>tx_sender\<close> is what the sending components rely on.
  \<^item> TxFetch, BatchScanner, RoundRobin, Listener (\<open>solana-listener\<close>): fetching and parsing one
    transaction, the paging scan, the merge of the two subscriptions, and the component, whose
    realtime loop is the step relation \<open>rt_step\<close>.
  \<^item> FileStorage (\<open>file-based-storage\<close>): the registers at byte level; the locale \<open>register\<close> is the
    contract by which Listener and TaskLoop use them.
  \<^item> GasComputation (\<open>gateway-gas-computation\<close>), Amplifier, EventForwarder
    (\<open>solana-event-forwarder\<close>): cost of a transaction, the Amplifier's types and channel,
    conversion of events and the forwarding loop; the locales \<open>gas_oracle\<close> and \<open>forwarder_gas\<close>.
  \<^item> Gateway, MessagePayload, CostEstimation, TaskProcessor, TaskLoop
    (\<open>solana-gateway-task-processor\<close>): sending gateway transactions, uploading a payload, estimating
    on a fork with its cache, processing one task, and the component's start-up and loop, the
    labelled step relation \<open>loop_step\<close>; the locales \<open>gas_estimator\<close>, \<open>task_pusher\<close> and
    \<open>looping_pusher\<close>, interpreted on the pusher that \<open>main\<close> builds. Authority says for each kind of
    task which instructions carry it out, and that a step of the loop sends nothing else.
  \<^item> Interleaving, ConcurrentSteps: the same code request by request, where futures run concurrently.
    A process issues requests one at a time; \<open>join_proc\<close> is \<open>try_join!\<close>, \<open>group_proc\<close> the loop over
    a \<open>FuturesUnordered\<close> with the members in flight interleaved as the runtime chooses, \<open>abandon\<close> a
    set that is dropped while requests are on their way. \<open>open_run\<close> lets the world change
    arbitrarily before every step. ConcurrentSteps gives the sending of a transaction, the gateway
    transaction task and the upload in this form, with the locale \<open>open_sender\<close>.
  \<^item> MessageSteps, TaskSteps: the rest of the task processor request by request. MessageSteps has
    the estimation with its cache, the message task, refunds, and the report of a failure with the
    gas it computes, up to \<open>process_task_proc\<close>; the locale \<open>open_pusher\<close> is what the checks and the
    call rely on. TaskSteps is the task loop over such tasks (\<open>task_step\<close>): the futures of the queue
    advance one request at a time, in any order, while the chain changes.
  \<^item> ChunkSize (\<open>component/message_payload.rs\<close>): how the size of a chunk is initialised, and that every
    chunk fits into its packet.
  \<^item> RetryingSender (\<open>retrying-solana-http-sender\<close>), RestService (\<open>rest-service\<close>), Telemetry and
    Relayer (\<open>solana-axelar-relayer/src\<close> and configuration values): the shared RPC client, the
    health check with its shutdown, the set-up of tracing, and \<open>main\<close> from its beginning to the engine.
  \<^item> RelayerSystem: the relayer that \<open>main\<close> built, running. The record \<open>system\<close> is the state that the
    components share (chain, storage file, channel, Amplifier commands) with the phase of each; a
    \<open>system_step\<close> is a step of one component on its view, or a move of the environment. One invariant
    of all runs, kept by each component whatever the others do, gives the properties; the locale
    \<open>storing_pusher\<close> is the task processor on the shared file. This theory adds what spans components
    in a fixed order.
  \<^item> Xtask (\<open>xtask\<close>): the developer commands of the repository as scripts.

  What is shown. Safety of sending: nothing is sent before a simulation, before the checks of a
  message, or in a call that names the relayer's key; steps go out in order. Errors: every failure
  of a message is reported once and fits its error; which errors mean that something was sent.
  Catching up: the scans end, miss nothing and repeat nothing; recording follows forwarding in every
  run of the loops; streaming loses nothing while a connection lasts; tasks are recorded in order of
  receipt. Costs: closed forms and bounds for the gas totals, the compute budget and the reported
  costs. Refinement: the file implements three registers, and the clones of its handle do not
  disturb each other. In every interleaving of the running relayer: its key signs steps of received
  tasks only, what it publishes interleaves the transactions of the channel with the reports of
  failed tasks, and both registers say what was done, across restarts. Progress: the task loop can
  always finish; \<open>main\<close> reaches the engine exactly when its set-up succeeds. End to end: what was
  missed is published. Concurrency: whatever other tasks do to the chain between two requests, however
  the futures of a set interleave and wherever one is dropped, a gateway task and an upload send each
  step at most once, stage after stage, and each transaction only after its own simulation; a
  message is checked before its task sends anything, and a task that succeeds has uploaded before it
  calls; every task of the loop keeps to this, since its requests are an open run of it. The coarser
  model, in which futures run in one go, is a special case (\<open>process_task_alone\<close>, \<open>loop_refines\<close>).
  Where the code falls short of its documents, a property exhibits the run: a scan that returns an
  older signature, a transaction lost on reconnection, transactions recorded but never published.

  Fuel. Loops that page through a history take fuel, and the properties that they end give the
  amount: \<open>fetch_signatures\<close> makes one request for each started page of 1000 signatures
  and one more, a scan one request for each page of ten and one more for each program. Everything
  else terminates structurally; the loops of the components, which are meant to run for ever, are
  step relations.

  Not modelled. The engine and the Amplifier component are external: the running relayer takes what
  the Amplifier does to the shared state as moves of the environment. In RelayerSystem a start-up of
  a component is one step, and so is the handling of one message, with the futures of the task loop
  as in TaskLoop, so the requests of two components are interleaved between such steps only; the
  interleavings of the requests of tasks are those of TaskSteps. The listener's batches of fetches
  run in an order that the runtime picks, each fetch in one go: they only read, and an arbitrary
  node on an arbitrary environment covers what others do in between. Tracing, the polling interval
  and the exponential intervals of the retries have no effect on the state. The mutex of the storage
  is not modelled, since each operation holds it throughout; that of the gas cache is held for one
  access only, never across a request. The derived configuration parsers are parameters, as is the
  serializer of transactions, whose documented format is a hypothesis of the bound on chunks.
  Beyond these, what has no definition here is the tests of each file, its imports and attributes,
  the boxing of futures for the engine, and the build script that embeds the git hash.
\<close>

section \<open>One storage, three components\<close>

text \<open>
  The listener, the task processor and the Amplifier component hold clones of one handle. What
  each of them has written is read off a sequence of writes.
\<close>

fun signature_writes :: "storage_write list \<Rightarrow> signature list" where
  "signature_writes [] = []"
| "signature_writes (WriteSignature v # ws) = v # signature_writes ws"
| "signature_writes (_ # ws) = signature_writes ws"

fun processed_writes :: "storage_write list \<Rightarrow> task_id list" where
  "processed_writes [] = []"
| "processed_writes (WriteProcessed v # ws) = v # processed_writes ws"
| "processed_writes (_ # ws) = processed_writes ws"

fun queried_writes :: "storage_write list \<Rightarrow> task_id list" where
  "queried_writes [] = []"
| "queried_writes (WriteQueried v # ws) = v # queried_writes ws"
| "queried_writes (_ # ws) = queried_writes ws"

lemma fold_writes:
  "fold apply_write ws st =
     st\<lparr>latest_queried_task_item_id := last (latest_queried_task_item_id st # queried_writes ws),
        latest_processed_task_item_id := last (latest_processed_task_item_id st # processed_writes ws),
        latest_processed_signature := last (latest_processed_signature st # signature_writes ws)\<rparr>"
proof (induction ws arbitrary: st)
  case (Cons w ws)
  then show ?case by (cases w) simp_all
qed simp

lemma writes_shuffles:
  "ws \<in> shuffles us vs \<Longrightarrow> signature_writes ws \<in> shuffles (signature_writes us) (signature_writes vs)"
  "ws \<in> shuffles us vs \<Longrightarrow> processed_writes ws \<in> shuffles (processed_writes us) (processed_writes vs)"
  "ws \<in> shuffles us vs \<Longrightarrow> queried_writes ws \<in> shuffles (queried_writes us) (queried_writes vs)"
proof -
  have "signature_writes ws \<in> shuffles (signature_writes us) (signature_writes vs) \<and>
    processed_writes ws \<in> shuffles (processed_writes us) (processed_writes vs) \<and>
    queried_writes ws \<in> shuffles (queried_writes us) (queried_writes vs)" if "ws \<in> shuffles us vs"
    using that
  proof (induction us vs arbitrary: ws rule: shuffles.induct)
    case (3 x xs y ys)
    from "3.prems" consider zs where "ws = x # zs" "zs \<in> shuffles xs (y # ys)"
      | zs where "ws = y # zs" "zs \<in> shuffles (x # xs) ys" by auto
    then show ?case
    proof cases
      case 1
      with "3.IH"(1) [of zs] show ?thesis by (cases x) (auto intro: Cons_in_shuffles_leftI)
    next
      case 2
      with "3.IH"(2) [of zs] show ?thesis by (cases y) (auto intro: Cons_in_shuffles_rightI)
    qed
  qed simp_all
  then show "ws \<in> shuffles us vs \<Longrightarrow> signature_writes ws \<in> shuffles (signature_writes us) (signature_writes vs)"
    "ws \<in> shuffles us vs \<Longrightarrow> processed_writes ws \<in> shuffles (processed_writes us) (processed_writes vs)"
    "ws \<in> shuffles us vs \<Longrightarrow> queried_writes ws \<in> shuffles (queried_writes us) (queried_writes vs)" by blast+
qed

lemma own_writes [simp]:
  "signature_writes (map WriteSignature sigs) = sigs" "signature_writes (map WriteProcessed ids) = []"
  "signature_writes (map WriteQueried qs) = []"
  "processed_writes (map WriteSignature sigs) = []" "processed_writes (map WriteProcessed ids) = ids"
  "processed_writes (map WriteQueried qs) = []"
  "queried_writes (map WriteSignature sigs) = []" "queried_writes (map WriteProcessed ids) = []"
  "queried_writes (map WriteQueried qs) = qs"
  by (induction sigs, simp_all) (induction ids, simp_all, induction qs, simp_all)+

text \<open>
  The components that share the storage do not disturb each other: however the writes of the
  listener, of the task processor and of the Amplifier component interleave, and whatever the
  flushes answer, each of them reads back its own last value.
\<close>

theorem shared_storage_isolated:
  assumes "vs \<in> shuffles (map WriteProcessed ids) (map WriteQueried qs)"
    and "ws \<in> shuffles (map WriteSignature sigs) vs"
  shows "let bs = snd (run_list (do_write os) ws (bytes_of st)) in
    processed_signature bs = Inr (as_option (last (latest_processed_signature st # sigs))) \<and>
    latest_processed_task_id bs = Inr (as_option (last (latest_processed_task_item_id st # ids))) \<and>
    latest_queried_task_id bs = Inr (as_option (last (latest_queried_task_item_id st # qs)))"
proof -
  from writes_shuffles [OF assms(1)] have vs: "signature_writes vs = []" "processed_writes vs = ids" "queried_writes vs = qs"
    by auto
  from writes_shuffles [OF assms(2)] vs have "signature_writes ws = sigs" "processed_writes ws = ids"
    "queried_writes ws = qs" by auto
  then show ?thesis by (simp add: run_writes fold_writes storage_defs Let_def)
qed

lemma shared_storage_isolated_witness:
  "let bs = snd (run_list (do_write fair_os) [WriteSignature 5, WriteProcessed 3, WriteSignature 6, WriteQueried 4]
      (bytes_of default_state)) in
     processed_signature bs = Inr (Some 6) \<and> latest_processed_task_id bs = Inr (Some 3) \<and>
     latest_queried_task_id bs = Inr (Some 4)"
proof -
  have 1: "[WriteProcessed 3, WriteQueried 4] \<in> shuffles (map WriteProcessed [3]) (map WriteQueried [4])"
    by simp
  have 2: "[WriteSignature 5, WriteProcessed 3, WriteSignature 6, WriteQueried 4]
      \<in> shuffles (map WriteSignature [5, 6]) [WriteProcessed 3, WriteQueried 4]" by simp
  from shared_storage_isolated [OF 1 2, of fair_os default_state] show ?thesis
    by (simp add: default_state_def Let_def)
qed

section \<open>From the chain to the Amplifier\<close>



text \<open>A parser that rejects one transaction and finds no events in the others.\<close>

definition rejecting_libs :: "signature \<Rightarrow> forward_libs" where
  "rejecting_libs sig = sample_libs\<lparr>parse_events := \<lambda>chain gas_service gateway tx.
     if pt_signature tx = sig then Inl (Msg ''cannot parse'') else Inr []\<rparr>"

lemma rejected_not_published:
  assumes "run_forwarder r (rejecting_libs (lt_signature message)) (message # messages) s = (q, s')"
  shows "published s' = published s"
proof -
  from run_forwarder_result [OF assms] obtain handled rest cmds where
    split: "message # messages = handled @ rest" "published s' = published s @ cmds"
    and all: "list_all2 (published_for (rejecting_libs (lt_signature message)) (rl_forwarder r)) handled cmds" by blast
  have "\<not> published_for (rejecting_libs (lt_signature message)) (rl_forwarder r) message cmd" for cmd
    by (simp add: published_for_def rejecting_libs_def convert_to_parser_transaction_def)
  with split all show ?thesis by (cases handled) (auto simp: list_all2_Cons1)
qed

lemma live_restart:
  "sig_range (live_history 1) None (Some 4) = []" "sig_range (live_history 2) None (Some 4) = []"
  by (simp_all add: sig_range_def older_than_def newer_than_def live_history_def)

text \<open>
  C22. The stored signature does not say what was published. There is a start-up that records the
  newest of four transactions, all of which are on the channel; the parser rejects one of them,
  the forwarder stops there without having published anything, and after a restart from the
  stored signature none of the four is fetched again.
\<close>

theorem recorded_but_never_published:
  "\<exists>(r :: (nat, nat processor_world, string, nat) relayer) sig s1 q fs s2. live_relayer live_node live_node = Inr r \<and>
     startup (Suc 0) decimal_sdk counting_runtime (sl_node (rl_listener r)) (sl_config (rl_listener r)) (memmap_state fair_os) None live_world = (Inr (), s1) \<and>
     mset (chan s1) = mset (map live_tx [4, 3, 2, 1]) \<and> processed_signature (store s1) = Inr (Some 4) \<and>
     run_forwarder r (rejecting_libs sig) (chan s1)
       \<lparr>env = 0, wire = [], published = [], amplifier_open = True\<rparr> = (q, fs) \<and> published fs = [] \<and>
     startup (Suc 0) decimal_sdk counting_runtime (sl_node (rl_listener r)) (sl_config (rl_listener r)) (memmap_state fair_os) None
       (live_world\<lparr>store := store s1\<rparr>) = (Inr (), s2) \<and> chan s2 = []"
proof -
  let ?fs = "\<lparr>env = 0, wire = [], published = [], amplifier_open = True\<rparr> :: nat amplifier_world"
  obtain r :: "(nat, nat processor_world, string, nat) relayer" where r: "live_relayer live_node live_node = Inr r" "rl_listener r = \<lparr>sl_config = live_config, sl_node = live_node\<rparr>" using live_relayer_ok [of live_node live_node, unfolded live_clients] by blast
  have "processed_signature (store live_world) = Inr None" "length (store live_world) = state_len"
    "chan_open live_world" "chan live_world = []"
    by (simp_all add: live_world_def storage_defs default_state_def)
  from live_startup [OF this] obtain s1 where
    s1: "startup (Suc 0) decimal_sdk counting_runtime live_node live_config (memmap_state fair_os) None live_world = (Inr (), s1)"
      "mset (chan s1) = mset (map live_tx [4, 3, 2, 1])" "processed_signature (store s1) = Inr (Some 4)" by blast
  then obtain message messages where chan: "chan s1 = message # messages" by (cases "chan s1") auto
  obtain q fs where fs: "run_forwarder r (rejecting_libs (lt_signature message)) (chan s1) ?fs = (q, fs)" by fastforce
  have "published fs = []" using rejected_not_published [OF fs [unfolded chan]] by simp
  moreover have "length (store s1) = state_len"
    using s1(3) by (auto simp: storage_defs from_bytes_def split: if_splits)
  then have "\<exists>s2. startup (Suc 0) decimal_sdk counting_runtime live_node live_config (memmap_state fair_os) None
      (live_world\<lparr>store := store s1\<rparr>) = (Inr (), s2) \<and> chan s2 = []"
    using startup_forwards [where s = "live_world\<lparr>store := store s1\<rparr>" and cfg = live_config and n = 0,
        OF live_serves answers_ledger_node _ _ _ refl refl] s1(3)
    by (simp add: live_config_def live_world_def live_restart scan_limit_def newest_first_def) blast
  ultimately show ?thesis using r s1 fs by (metis (no_types) solana_listener.select_convs)
qed

end
